(* ===== verification/Kizuki_Prelude.thy ===== *)
theory Kizuki_Prelude
  imports Main "HOL-Library.Multiset" "HOL-Library.Char_ord" "HOL-Library.List_Lexorder"
begin

text \<open>
  What every component of the development shares: results of code that may throw,
  the string operations of the language that the sources call, the code-unit
  ordering of \<open>packages/core/src/util/order.ts\<close>, and the two fact collections
  the component proofs use.

  Strings are lists of characters; a HOL character is one code unit below 256.
  \<open>List_Lexorder\<close> and \<open>Char_ord\<close> order them by code unit, which is what the
  comparison operators of the language do.
\<close>

named_theorems result_simps \<open>rewriting of computations that may throw\<close>
named_theorems text_simps \<open>rewriting of the string operations\<close>

section \<open>Results of code that may throw\<close>

text \<open>
  A call that may throw returns \<open>Inl\<close> the error or \<open>Inr\<close> the value; \<open>andThen\<close>
  is the sequencing of two such calls.
\<close>

fun andThen :: "'e + 'a \<Rightarrow> ('a \<Rightarrow> 'e + 'b) \<Rightarrow> 'e + 'b" where
  "andThen (Inl e) f = Inl e"
| "andThen (Inr x) f = f x"

definition guard :: "bool \<Rightarrow> 'e \<Rightarrow> ('e + 'a) \<Rightarrow> 'e + 'a" where
  "guard ok e k = (if ok then k else Inl e)"

lemma andThen_Inr_iff [result_simps]:
  "andThen m f = Inr y \<longleftrightarrow> (\<exists>x. m = Inr x \<and> f x = Inr y)"
  by (cases m) auto

lemma andThen_Inl_iff [result_simps]:
  "andThen m f = Inl e \<longleftrightarrow> m = Inl e \<or> (\<exists>x. m = Inr x \<and> f x = Inl e)"
  by (cases m) auto

lemma andThen_cong [fundef_cong]:
  "m = m' \<Longrightarrow> (\<And>x. m' = Inr x \<Longrightarrow> f x = g x) \<Longrightarrow> andThen m f = andThen m' g"
  by (cases m') auto

lemma guard_Inr_iff [result_simps]: "guard ok e k = Inr y \<longleftrightarrow> ok \<and> k = Inr y"
  by (simp add: guard_def)

lemma guard_Inl_iff [result_simps]:
  "guard ok e k = Inl e' \<longleftrightarrow> (\<not> ok \<and> e' = e) \<or> (ok \<and> k = Inl e')"
  by (auto simp: guard_def)

text \<open>A loop that threads a state and stops at the first error.\<close>

fun foldM :: "('s \<Rightarrow> 'a \<Rightarrow> 'e + 's) \<Rightarrow> 's \<Rightarrow> 'a list \<Rightarrow> 'e + 's" where
  "foldM f s [] = Inr s"
| "foldM f s (x # xs) = andThen (f s x) (\<lambda>s'. foldM f s' xs)"

lemma foldM_append:
  "foldM f s (xs @ ys) = andThen (foldM f s xs) (\<lambda>s'. foldM f s' ys)"
proof (induction xs arbitrary: s)
  case (Cons x xs)
  then show ?case by (cases "f s x") auto
qed simp

lemma foldM_invariant:
  assumes "foldM f s xs = Inr t" and "P s"
    and "\<And>s x s'. x \<in> set xs \<Longrightarrow> P s \<Longrightarrow> f s x = Inr s' \<Longrightarrow> P s'"
  shows "P t"
  using assms
proof (induction xs arbitrary: s)
  case (Cons x xs)
  from Cons.prems(1) obtain s' where "f s x = Inr s'" and "foldM f s' xs = Inr t"
    by (auto simp: result_simps)
  with Cons show ?case by (metis list.set_intros)
qed simp

text \<open>The array methods \<open>filter\<close>, \<open>find\<close>, \<open>some\<close> and \<open>map\<close> with a callback that may throw.\<close>

fun filterM :: "('a \<Rightarrow> 'e + bool) \<Rightarrow> 'a list \<Rightarrow> 'e + 'a list" where
  "filterM p [] = Inr []"
| "filterM p (x # xs) =
     andThen (p x) (\<lambda>b. andThen (filterM p xs) (\<lambda>ys. Inr (if b then x # ys else ys)))"

fun findM :: "('a \<Rightarrow> 'e + bool) \<Rightarrow> 'a list \<Rightarrow> 'e + 'a option" where
  "findM p [] = Inr None"
| "findM p (x # xs) = andThen (p x) (\<lambda>b. if b then Inr (Some x) else findM p xs)"

fun someM :: "('a \<Rightarrow> 'e + bool) \<Rightarrow> 'a list \<Rightarrow> 'e + bool" where
  "someM p [] = Inr False"
| "someM p (x # xs) = andThen (p x) (\<lambda>b. if b then Inr True else someM p xs)"

fun mapM :: "('a \<Rightarrow> 'e + 'b) \<Rightarrow> 'a list \<Rightarrow> 'e + 'b list" where
  "mapM f [] = Inr []"
| "mapM f (x # xs) = andThen (f x) (\<lambda>y. andThen (mapM f xs) (\<lambda>ys. Inr (y # ys)))"

lemma filterM_Inr: "filterM p xs = Inr ys \<Longrightarrow> ys = filter (\<lambda>x. p x = Inr True) xs \<and> (\<forall>x\<in>set xs. \<exists>b. p x = Inr b)"
  by (induction xs arbitrary: ys) (auto simp: result_simps split: if_splits)

lemma findM_Some: "findM p xs = Inr (Some x) \<Longrightarrow> x \<in> set xs \<and> p x = Inr True"
  by (induction xs) (auto simp: result_simps split: if_splits)

lemma findM_None: "findM p xs = Inr None \<Longrightarrow> x \<in> set xs \<Longrightarrow> p x = Inr False"
  by (induction xs) (auto simp: result_simps split: if_splits)

lemma mapM_Inr: "mapM f xs = Inr ys \<longleftrightarrow> list_all2 (\<lambda>x y. f x = Inr y) xs ys"
  by (induction xs arbitrary: ys) (auto simp: result_simps list_all2_Cons1)

text \<open>A map of the language: setting a key replaces its entry in place.\<close>

fun setKey :: "'k \<Rightarrow> 'v \<Rightarrow> ('k \<times> 'v) list \<Rightarrow> ('k \<times> 'v) list" where
  "setKey k v [] = [(k, v)]"
| "setKey k v ((k', v') # kvs) = (if k' = k then (k, v) # kvs else (k', v') # setKey k v kvs)"

section \<open>Strings\<close>

definition startsWith :: "string \<Rightarrow> string \<Rightarrow> bool" where
  "startsWith s p \<longleftrightarrow> take (length p) s = p"

definition endsWith :: "string \<Rightarrow> string \<Rightarrow> bool" where
  "endsWith s p \<longleftrightarrow> length p \<le> length s \<and> drop (length s - length p) s = p"

text \<open>\<open>s.split(c)\<close> for a one-character separator: never the empty list.\<close>

fun split_by :: "('a \<Rightarrow> bool) \<Rightarrow> 'a list \<Rightarrow> 'a list list" where
  "split_by p [] = [[]]"
| "split_by p (x # xs) =
     (if p x then [] # split_by p xs
      else (case split_by p xs of [] \<Rightarrow> [[x]] | w # ws \<Rightarrow> (x # w) # ws))"

abbreviation split_on :: "'a \<Rightarrow> 'a list \<Rightarrow> 'a list list" where
  "split_on c \<equiv> split_by (\<lambda>x. x = c)"

fun join_with :: "'a list \<Rightarrow> 'a list list \<Rightarrow> 'a list" where
  "join_with sep [] = []"
| "join_with sep [w] = w"
| "join_with sep (w # v # ws) = w @ sep @ join_with sep (v # ws)"

lemma split_by_nonempty [simp]: "split_by p xs \<noteq> []"
  by (cases xs) (auto split: list.splits)

lemma split_by_none [text_simps]: "\<forall>x\<in>set w. \<not> p x \<Longrightarrow> split_by p w = [w]"
  by (induction w) auto

lemma split_by_append_sep [text_simps]:
  assumes "p c" and "\<forall>x\<in>set w. \<not> p x"
  shows "split_by p (w @ c # xs) = w # split_by p xs"
  using assms(2) by (induction w) (auto simp: assms(1))

lemma split_by_parts: "w \<in> set (split_by p xs) \<Longrightarrow> \<forall>x\<in>set w. \<not> p x \<and> x \<in> set xs"
  by (induction xs arbitrary: w) (fastforce split: list.splits if_splits)+

lemma split_join:
  assumes "ws \<noteq> []" and "\<forall>w\<in>set ws. c \<notin> set w"
  shows "split_on c (join_with [c] ws) = ws"
  using assms
proof (induction "[c]" ws rule: join_with.induct)
  case (2 w)
  then have "\<forall>x\<in>set w. x \<noteq> c" by auto
  then show ?case by (simp add: split_by_none)
next
  case (3 w v ws)
  then show ?case
    using split_by_append_sep [of "\<lambda>x. x = c" c w "join_with [c] (v # ws)"] by force
qed simp

lemma join_split: "join_with [c] (split_on c xs) = xs"
proof (induction xs)
  case (Cons x xs)
  obtain w ws where s: "split_on c xs = w # ws"
    by (meson neq_Nil_conv split_by_nonempty)
  show ?case
    using Cons s by (cases ws) auto
qed simp

abbreviation QUOTE :: char where "QUOTE \<equiv> CHR 0x22"
abbreviation NEWLINE :: char where "NEWLINE \<equiv> CHR 0x0A"
abbreviation RETURN :: char where "RETURN \<equiv> CHR 0x0D"

text \<open>Line ends in one form: \<open>text.replace(/\r\n?/g, "\n")\<close>.\<close>

fun newlines :: "string \<Rightarrow> string" where
  "newlines [] = []"
| "newlines (c # rest) =
     (if c = RETURN
      then NEWLINE # newlines (if rest \<noteq> [] \<and> hd rest = NEWLINE then tl rest else rest)
      else c # newlines rest)"

lemma newlines_id: "RETURN \<notin> set s \<Longrightarrow> newlines s = s"
  by (induction s rule: newlines.induct) auto

text \<open>
  The white space \<open>trim\<close> strips, among the code units below 256: tab, line feed,
  vertical tab, form feed, carriage return, space and the no-break space.
\<close>

definition isSpace :: "char \<Rightarrow> bool" where
  "isSpace c \<longleftrightarrow> of_char c \<in> {9, 10, 11, 12, 13, 32, 160 :: nat}"

definition trimStart :: "string \<Rightarrow> string" where
  "trimStart s = dropWhile isSpace s"

definition trim :: "string \<Rightarrow> string" where
  "trim s = rev (dropWhile isSpace (rev (dropWhile isSpace s)))"

definition in_range :: "char \<Rightarrow> char \<Rightarrow> char \<Rightarrow> bool" where
  "in_range lo hi c \<longleftrightarrow> (of_char lo :: nat) \<le> of_char c \<and> (of_char c :: nat) \<le> of_char hi"

definition isDigit :: "char \<Rightarrow> bool" where
  "isDigit c \<longleftrightarrow> in_range (CHR ''0'') (CHR ''9'') c"

definition isUpper :: "char \<Rightarrow> bool" where
  "isUpper c \<longleftrightarrow> in_range (CHR ''A'') (CHR ''Z'') c"

definition isLower :: "char \<Rightarrow> bool" where
  "isLower c \<longleftrightarrow> in_range (CHR ''a'') (CHR ''z'') c"

definition isAlnum :: "char \<Rightarrow> bool" where
  "isAlnum c \<longleftrightarrow> isDigit c \<or> isUpper c \<or> isLower c"

text \<open>
  \<open>toUpperCase\<close> and \<open>toLowerCase\<close> on the ASCII letters.  The sources apply them to
  ASCII keywords (property names, frequencies, weekdays) before comparing.
\<close>

definition upperChar :: "char \<Rightarrow> char" where
  "upperChar c = (if isLower c then char_of (of_char c - (32 :: nat)) else c)"

definition toUpperCase :: "string \<Rightarrow> string" where
  "toUpperCase s = map upperChar s"

section \<open>Decimal numbers\<close>

definition digitVal :: "char \<Rightarrow> nat" where
  "digitVal c = of_char c - 48"

definition digitChar :: "nat \<Rightarrow> char" where
  "digitChar d = char_of (48 + d)"

text \<open>\<open>Number(s)\<close> on a string of digits.\<close>

definition digitsVal :: "string \<Rightarrow> nat" where
  "digitsVal s = foldl (\<lambda>n c. 10 * n + digitVal c) 0 s"

text \<open>\<open>String(n).padStart(w, "0")\<close> for a number below \<open>10 ^ w\<close>: exactly \<open>w\<close> digits.\<close>

fun fixedDigits :: "nat \<Rightarrow> nat \<Rightarrow> string" where
  "fixedDigits 0 n = []"
| "fixedDigits (Suc w) n = fixedDigits w (n div 10) @ [digitChar (n mod 10)]"

text \<open>\<open>String(n)\<close> for a natural number: decimal digits without leading zeros.\<close>

fun decimal :: "nat \<Rightarrow> string" where
  "decimal n = (if n < 10 then [digitChar n] else decimal (n div 10) @ [digitChar (n mod 10)])"

declare decimal.simps [simp del]

lemma of_char_digitChar [simp]: "d < 10 \<Longrightarrow> (of_char (digitChar d) :: nat) = 48 + d"
  by (simp add: digitChar_def of_char_of)

lemma digitVal_digitChar [simp]: "d < 10 \<Longrightarrow> digitVal (digitChar d) = d"
  by (simp add: digitVal_def)

lemma isDigit_digitChar [simp]: "d < 10 \<Longrightarrow> isDigit (digitChar d)"
  by (simp add: isDigit_def in_range_def)

lemma isDigit_iff: "isDigit c \<longleftrightarrow> 48 \<le> (of_char c :: nat) \<and> (of_char c :: nat) \<le> 57"
  by (simp add: isDigit_def in_range_def)

lemma digitVal_less: "isDigit c \<Longrightarrow> digitVal c < 10"
  unfolding isDigit_iff digitVal_def by linarith

lemma digitChar_digitVal [simp]: "isDigit c \<Longrightarrow> digitChar (digitVal c) = c"
  by (simp add: isDigit_iff digitVal_def digitChar_def)

lemma digitsVal_Nil [simp]: "digitsVal [] = 0"
  by (simp add: digitsVal_def)

lemma digitsVal_snoc [simp]: "digitsVal (s @ [c]) = 10 * digitsVal s + digitVal c"
  by (simp add: digitsVal_def)

lemma digitsVal_append: "digitsVal (s @ t) = digitsVal s * 10 ^ length t + digitsVal t"
proof (induction t rule: rev_induct)
  case (snoc c t)
  then show ?case
    using digitsVal_snoc [of "s @ t" c] by (simp add: algebra_simps)
qed simp

lemma length_fixedDigits [simp]: "length (fixedDigits w n) = w"
  by (induction w arbitrary: n) auto

lemma digitsVal_fixedDigits: "digitsVal (fixedDigits w n) = n mod 10 ^ w"
proof (induction w arbitrary: n)
  case (Suc w)
  have "n mod 10 ^ Suc w = 10 * (n div 10 mod 10 ^ w) + n mod 10"
    by (simp add: mod_mult2_eq)
  with Suc show ?case by simp
qed simp

lemma isDigit_fixedDigits: "\<forall>c\<in>set (fixedDigits w n). isDigit c"
  by (induction w arbitrary: n) auto

lemma isDigit_decimal: "\<forall>c\<in>set (decimal n). isDigit c"
proof (induction n rule: decimal.induct)
  case (1 n)
  then show ?case by (subst decimal.simps) auto
qed

lemma decimal_nonempty [simp]: "decimal n \<noteq> []"
  by (subst decimal.simps) simp

lemma digitsVal_decimal [simp]: "digitsVal (decimal n) = n"
proof (induction n rule: decimal.induct)
  case (1 n)
  then show ?case
    using digitsVal_snoc [of "[]"] by (subst decimal.simps) auto
qed

text \<open>Fixed-width numbers of digits compare as the numbers do.\<close>

lemma digitsVal_bound: "\<forall>c\<in>set s. isDigit c \<Longrightarrow> digitsVal s < 10 ^ length s"
proof (induction s rule: rev_induct)
  case (snoc c s)
  then have "digitsVal s < 10 ^ length s" and "digitVal c < 10"
    by (auto simp: digitVal_less)
  then show ?case by simp
qed simp

section \<open>Code-unit order\<close>

definition compareText :: "string \<Rightarrow> string \<Rightarrow> int" where
  "compareText left right = (if left < right then -1 else if left > right then 1 else 0)"

lemma compareText_zero [simp]: "compareText a b = 0 \<longleftrightarrow> a = b"
  by (auto simp: compareText_def)

lemma compareText_swap: "compareText b a = - compareText a b"
  by (auto simp: compareText_def)

text \<open>Lexicographic order of two strings of one length is decided at the first difference.\<close>

lemma append_less_cancel_same: "(xs @ ys < xs @ zs) = (ys < (zs :: 'a :: linorder list))"
  by (induction xs) auto

lemma append_less_same_length:
  fixes xs xs' :: "'a :: linorder list"
  assumes "length xs = length xs'"
  shows "xs @ ys < xs' @ ys' \<longleftrightarrow> xs < xs' \<or> (xs = xs' \<and> ys < ys')"
  using assms by (induction xs xs' rule: list_induct2) auto

section \<open>Machines: operations that share a contract\<close>

text \<open>
  The interface of a stateful component: a step per operation, the operations a client
  may call, an invariant every allowed operation keeps, and a preorder every allowed
  operation moves along.  What the contract gives for one operation holds for every
  sequence of them.
\<close>

locale machine =
  fixes step :: "'s \<Rightarrow> 'op \<Rightarrow> 's"
    and allowed :: "'op \<Rightarrow> bool"
    and inv :: "'s \<Rightarrow> bool"
    and progress :: "'s \<Rightarrow> 's \<Rightarrow> bool"
  assumes inv_step: "allowed op \<Longrightarrow> inv s \<Longrightarrow> inv (step s op)"
    and progress_refl: "progress s s"
    and progress_trans: "progress s t \<Longrightarrow> progress t u \<Longrightarrow> progress s u"
    and progress_step: "allowed op \<Longrightarrow> inv s \<Longrightarrow> progress s (step s op)"
begin

lemma run_inv: "list_all allowed ops \<Longrightarrow> inv s \<Longrightarrow> inv (foldl step s ops)"
  by (induction ops arbitrary: s) (auto intro: inv_step)

lemma run_progress: "list_all allowed ops \<Longrightarrow> inv s \<Longrightarrow> progress s (foldl step s ops)"
proof (induction ops arbitrary: s)
  case (Cons op ops)
  then have "progress s (step s op)" and "progress (step s op) (foldl step (step s op) ops)"
    by (auto intro: inv_step progress_step)
  then show ?case by (auto intro: progress_trans)
qed (simp add: progress_refl)

end

abbreviation every :: "'op \<Rightarrow> bool" where "every \<equiv> \<lambda>_. True"

lemma list_all_every [simp]: "list_all every ops"
  by (induction ops) auto

section \<open>Choosing by rank\<close>

text \<open>
  The interface of a component that keeps one of two candidates: on candidates of
  different rank it keeps the one of higher rank.  Then what is left of a whole sequence
  is the candidate of the highest rank, in whatever order they came.
\<close>

locale ranked_choice =
  fixes rank :: "'a \<Rightarrow> 'k :: linorder"
    and valid :: "'a \<Rightarrow> bool"
    and keep :: "'a \<Rightarrow> 'a \<Rightarrow> 'a"
  assumes keep_higher: "valid a \<Longrightarrow> valid b \<Longrightarrow> rank a \<noteq> rank b \<Longrightarrow>
    keep a b = (if rank b < rank a then a else b)"
begin

lemma keep_fold:
  assumes "valid a" "list_all valid xs" "distinct (map rank (a # xs))"
  shows "foldl (\<lambda>live incoming. keep incoming live) a xs \<in> set (a # xs) \<and>
    (\<forall>x\<in>set (a # xs). rank x \<le> rank (foldl (\<lambda>live incoming. keep incoming live) a xs))"
  using assms
proof (induction xs arbitrary: a)
  case (Cons x xs)
  let ?b = "keep x a"
  have b: "?b = (if rank a < rank x then x else a)"
    using Cons.prems by (intro keep_higher) auto
  then have "valid ?b" "distinct (map rank (?b # xs))" using Cons.prems by auto
  then have "foldl (\<lambda>live incoming. keep incoming live) ?b xs \<in> set (?b # xs) \<and>
      (\<forall>y\<in>set (?b # xs). rank y \<le> rank (foldl (\<lambda>live incoming. keep incoming live) ?b xs))"
    using Cons.prems by (intro Cons.IH) auto
  with b show ?case by (auto split: if_splits)
qed simp

lemma keep_any_order:
  assumes "list_all valid (a # xs)" "distinct (map rank (a # xs))" "mset (a # xs) = mset (b # ys)"
  shows "foldl (\<lambda>live incoming. keep incoming live) a xs =
    foldl (\<lambda>live incoming. keep incoming live) b ys"
proof -
  let ?r = "foldl (\<lambda>live incoming. keep incoming live) a xs"
  let ?s = "foldl (\<lambda>live incoming. keep incoming live) b ys"
  have same: "set (a # xs) = set (b # ys)" using assms(3) by (rule mset_eq_setD)
  have "mset (map rank (a # xs)) = mset (map rank (b # ys))"
    using assms(3) by (simp only: mset_map)
  then have "distinct (map rank (b # ys))" using assms(2) by (metis mset_eq_imp_distinct_iff)
  moreover have "list_all valid (b # ys)" using assms(1) same by (simp only: list_all_iff)
  ultimately have s: "?s \<in> set (b # ys)" "\<forall>x\<in>set (b # ys). rank x \<le> rank ?s"
    using keep_fold [of b ys] by simp_all
  have r: "?r \<in> set (a # xs)" "\<forall>x\<in>set (a # xs). rank x \<le> rank ?r"
    using keep_fold [of a xs] assms by simp_all
  have "rank ?r = rank ?s"
  proof (rule antisym)
    show "rank ?r \<le> rank ?s" using s(2) r(1) unfolding same by (rule bspec)
    show "rank ?s \<le> rank ?r" using r(2) s(1) unfolding same by (rule bspec)
  qed
  moreover have "inj_on rank (set (a # xs))" using assms(2) by (simp only: distinct_map)
  moreover have "?s \<in> set (a # xs)" using s(1) unfolding same .
  ultimately show ?thesis using r(1) by (simp only: inj_on_eq_iff)
qed

end

end
