(* ===== verification/Js_Value.thy ===== *)
theory Js_Value
  imports Complex_Main Kizuki_Prelude
begin

text \<open>
  Values of type \<open>unknown\<close>: what a validator of the sources is handed before it has
  looked at it.  A finite number is the rational it denotes.  \<open>Obj\<close> is a plain object,
  its own enumerable string keys in insertion order; \<open>Other\<close> stands for everything
  a validator refuses by \<open>typeof\<close> or prototype (functions, symbols, class instances).
\<close>

datatype js =
    Undefined
  | Null
  | Boolean bool
  | Num rat
  | NaN
  | Infinite bool
  | Str string
  | Arr "js list"
  | Obj "(string \<times> js) list"
  | Other

text \<open>\<open>o["k"]\<close>: an absent key reads as \<open>undefined\<close>.\<close>

definition field :: "(string \<times> js) list \<Rightarrow> string \<Rightarrow> js" where
  "field kvs k = (case map_of kvs k of None \<Rightarrow> Undefined | Some v \<Rightarrow> v)"

fun isString :: "js \<Rightarrow> bool" where
  "isString (Str s) = True"
| "isString v = False"

text \<open>\<open>isNonEmptyString\<close> of \<open>packages/core/src/util/validate.ts\<close>.\<close>

fun isNonEmptyString :: "js \<Rightarrow> bool" where
  "isNonEmptyString (Str s) = (s \<noteq> [])"
| "isNonEmptyString v = False"

text \<open>A finite number in the closed interval the validators call a unit value.\<close>

fun isUnitNumber :: "js \<Rightarrow> bool" where
  "isUnitNumber (Num q) = (0 \<le> q \<and> q \<le> 1)"
| "isUnitNumber v = False"

text \<open>\<open>Number.isSafeInteger\<close>.\<close>

definition MAX_SAFE_INTEGER :: int where
  "MAX_SAFE_INTEGER = 9007199254740991"

fun isSafeInteger :: "js \<Rightarrow> bool" where
  "isSafeInteger (Num q) = (q = of_int \<lfloor>q\<rfloor> \<and> \<bar>\<lfloor>q\<rfloor>\<bar> \<le> MAX_SAFE_INTEGER)"
| "isSafeInteger v = False"

lemma isNonEmptyString_iff: "isNonEmptyString v \<longleftrightarrow> (\<exists>s. v = Str s \<and> s \<noteq> [])"
  by (cases v) auto

lemma isUnitNumber_iff: "isUnitNumber v \<longleftrightarrow> (\<exists>q. v = Num q \<and> 0 \<le> q \<and> q \<le> 1)"
  by (cases v) auto

fun entriesOf :: "js \<Rightarrow> (string \<times> js) list" where
  "entriesOf (Obj kvs) = kvs"
| "entriesOf v = []"

text \<open>\<open>Object.entries\<close>: the keys that are array indices come first, in numeric order.\<close>

definition isIndex :: "string \<Rightarrow> bool" where
  "isIndex s \<longleftrightarrow> s \<noteq> [] \<and> list_all isDigit s \<and> (length s = 1 \<or> hd s \<noteq> CHR ''0'') \<and>
     (length s < 10 \<or> (length s = 10 \<and> s < ''4294967295''))"

definition objectEntries :: "js \<Rightarrow> (string \<times> js) list" where
  "objectEntries v =
     sort_key (digitsVal \<circ> fst) (filter (\<lambda>e. isIndex (fst e)) (entriesOf v)) @
     filter (\<lambda>e. \<not> isIndex (fst e)) (entriesOf v)"

lemma set_objectEntries [simp]: "set (objectEntries v) = set (entriesOf v)"
  by (auto simp: objectEntries_def)

end
