(* ===== verification/Sensitivity.thy ===== *)
theory Sensitivity
  imports Js_Value
begin

text \<open>
  \<open>packages/core/src/sensitivity\<close>: the label lattice (\<open>agents/types.ts\<close>), label
  resolution (\<open>resolve.ts\<close>), the policy per source class (\<open>policy.ts\<close>) and the
  stored per-connection floors and defaults (\<open>store.ts\<close>).

  The \<open>connector_sensitivity\<close> table is a list of rows, \<open>None\<close> while the table does
  not exist; \<open>source_event_bindings\<close> is an association list.  An operation returns
  the database it leaves beside its result, because a refusal after the seeding
  insert keeps the inserted row.
\<close>

section \<open>The label lattice\<close>

datatype Sensitivity = Public | Personal | Private

fun SENSITIVITY_ORDER :: "Sensitivity \<Rightarrow> nat" where
  "SENSITIVITY_ORDER Public = 0"
| "SENSITIVITY_ORDER Personal = 1"
| "SENSITIVITY_ORDER Private = 2"

fun labelText :: "Sensitivity \<Rightarrow> string" where
  "labelText Public = ''public''"
| "labelText Personal = ''personal''"
| "labelText Private = ''private''"

instantiation Sensitivity :: linorder
begin

definition less_eq_Sensitivity :: "Sensitivity \<Rightarrow> Sensitivity \<Rightarrow> bool" where
  "less_eq_Sensitivity a b \<longleftrightarrow> SENSITIVITY_ORDER a \<le> SENSITIVITY_ORDER b"

definition less_Sensitivity :: "Sensitivity \<Rightarrow> Sensitivity \<Rightarrow> bool" where
  "less_Sensitivity a b \<longleftrightarrow> SENSITIVITY_ORDER a < SENSITIVITY_ORDER b"

instance
proof
  fix x y z :: Sensitivity
  show "x \<le> y \<Longrightarrow> y \<le> x \<Longrightarrow> x = y"
    by (cases x; cases y) (simp_all add: less_eq_Sensitivity_def)
qed (auto simp: less_eq_Sensitivity_def less_Sensitivity_def)

end

lemma order_le [simp]: "SENSITIVITY_ORDER a \<le> SENSITIVITY_ORDER b \<longleftrightarrow> a \<le> b"
  by (simp add: less_eq_Sensitivity_def)

lemma order_less [simp]: "SENSITIVITY_ORDER a < SENSITIVITY_ORDER b \<longleftrightarrow> a < b"
  by (simp add: less_Sensitivity_def)

lemma le_Private [simp]: "x \<le> Private"
  by (cases x) (simp_all add: less_eq_Sensitivity_def)

lemma Public_le [simp]: "Public \<le> x"
  by (cases x) (simp_all add: less_eq_Sensitivity_def)

lemma Private_le [simp]: "Private \<le> x \<longleftrightarrow> x = Private"
  by (cases x) (simp_all add: less_eq_Sensitivity_def)

lemma le_Public [simp]: "x \<le> Public \<longleftrightarrow> x = Public"
  by (cases x) (simp_all add: less_eq_Sensitivity_def)

fun parseSensitivity :: "js \<Rightarrow> Sensitivity option" where
  "parseSensitivity (Str s) =
     (if s = ''public'' then Some Public
      else if s = ''personal'' then Some Personal
      else if s = ''private'' then Some Private
      else None)"
| "parseSensitivity v = None"

definition isSensitivity :: "js \<Rightarrow> bool" where
  "isSensitivity v \<longleftrightarrow> parseSensitivity v \<noteq> None"

lemma parse_labelText [simp]: "parseSensitivity (Str (labelText a)) = Some a"
  by (cases a) simp_all

declare parseSensitivity.simps(1) [simp del]

definition sensitivityOrPrivate :: "js \<Rightarrow> Sensitivity" where
  "sensitivityOrPrivate v = (case parseSensitivity v of Some s \<Rightarrow> s | None \<Rightarrow> Private)"

lemma orPrivate_labelText [simp]: "sensitivityOrPrivate (Str (labelText a)) = a"
  by (simp add: sensitivityOrPrivate_def)

definition stricter :: "Sensitivity \<Rightarrow> Sensitivity \<Rightarrow> Sensitivity" where
  "stricter left right =
     (if SENSITIVITY_ORDER left \<ge> SENSITIVITY_ORDER right then left else right)"

lemma stricter_max [simp]: "stricter a b = max a b"
  by (auto simp: stricter_def max_def)

section \<open>Resolution of one label\<close>

datatype SensitivityRefinement = NoRefinement | Applied | RejectedDownward

record ResolveSensitivityInput =
  connector_floor :: js
  connector_default :: js
  model_label :: js
  event_hint :: js
  owner_label :: js
  owner_override_in :: bool

record SensitivityResolution =
  sensitivity :: Sensitivity
  refinement :: SensitivityRefinement
  hint_ignored :: bool
  owner_override :: bool

text \<open>One step of the upward refinement: a label that does not parse changes nothing.\<close>

definition raisedBy :: "Sensitivity \<Rightarrow> js \<Rightarrow> Sensitivity" where
  "raisedBy candidate label =
     (case parseSensitivity label of
        None \<Rightarrow> candidate
      | Some l \<Rightarrow> if SENSITIVITY_ORDER l > SENSITIVITY_ORDER candidate then l else candidate)"

definition resolveSensitivity :: "ResolveSensitivityInput \<Rightarrow> SensitivityResolution" where
  "resolveSensitivity i =
     (case (if owner_override_in i then parseSensitivity (owner_label i) else None) of
        Some owner \<Rightarrow>
          \<lparr>sensitivity = owner, refinement = NoRefinement, hint_ignored = False, owner_override = True\<rparr>
      | None \<Rightarrow>
          (let floor = sensitivityOrPrivate (connector_floor i);
               candidate0 = sensitivityOrPrivate (connector_default i);
               refine =
                 (case parseSensitivity (model_label i) of
                    None \<Rightarrow> NoRefinement
                  | Some model \<Rightarrow>
                      if SENSITIVITY_ORDER model > SENSITIVITY_ORDER candidate0 then Applied
                      else if SENSITIVITY_ORDER model < SENSITIVITY_ORDER candidate0
                        then RejectedDownward
                      else NoRefinement);
               candidate1 = raisedBy candidate0 (model_label i);
               ignored =
                 (case parseSensitivity (event_hint i) of
                    None \<Rightarrow> False
                  | Some hint \<Rightarrow>
                      \<not> SENSITIVITY_ORDER hint > SENSITIVITY_ORDER candidate1 \<and>
                      SENSITIVITY_ORDER hint < SENSITIVITY_ORDER candidate1);
               candidate2 = raisedBy candidate1 (event_hint i);
               candidate3 = raisedBy candidate2 (owner_label i)
           in \<lparr>sensitivity = stricter floor candidate3, refinement = refine,
               hint_ignored = ignored, owner_override = False\<rparr>))"

text \<open>What a label contributes to the maximum: nothing when it does not parse.\<close>

definition labelOrPublic :: "js \<Rightarrow> Sensitivity" where
  "labelOrPublic v = (case parseSensitivity v of Some s \<Rightarrow> s | None \<Rightarrow> Public)"

lemma Public_max [simp]: "max x Public = x" "max Public x = x"
  by (auto simp: max_def)

lemma raisedBy_max: "raisedBy c v = max c (labelOrPublic v)"
  by (auto simp: raisedBy_def labelOrPublic_def max_def split: option.split)

lemma resolve_without_override:
  assumes "\<not> owner_override_in i \<or> parseSensitivity (owner_label i) = None"
  shows "sensitivity (resolveSensitivity i) =
    max (sensitivityOrPrivate (connector_floor i))
      (max (sensitivityOrPrivate (connector_default i))
        (max (labelOrPublic (model_label i))
          (max (labelOrPublic (event_hint i)) (labelOrPublic (owner_label i)))))"
proof -
  have "(if owner_override_in i then parseSensitivity (owner_label i) else None) = None"
    using assms by simp
  then show ?thesis
    by (simp add: resolveSensitivity_def Let_def raisedBy_max max.assoc)
qed

lemma resolve_ge_floor:
  assumes "\<not> owner_override_in i \<or> parseSensitivity (owner_label i) = None"
  shows "sensitivityOrPrivate (connector_floor i) \<le> sensitivity (resolveSensitivity i)"
    and "sensitivityOrPrivate (connector_default i) \<le> sensitivity (resolveSensitivity i)"
  using resolve_without_override [OF assms] by (simp_all add: le_max_iff_disj)

section \<open>Policy per source class\<close>

datatype SourceClass =
    DirectMessaging | Email | HealthBiometrics | Calendar | LocalFiles
  | AgentSession | PublicPosts | SavedWeb

record SensitivityPolicy =
  default_sensitivity :: Sensitivity
  sensitivity_floor :: Sensitivity

fun SOURCE_CLASS_POLICY :: "SourceClass \<Rightarrow> SensitivityPolicy" where
  "SOURCE_CLASS_POLICY DirectMessaging = \<lparr>default_sensitivity = Private, sensitivity_floor = Personal\<rparr>"
| "SOURCE_CLASS_POLICY Email = \<lparr>default_sensitivity = Private, sensitivity_floor = Personal\<rparr>"
| "SOURCE_CLASS_POLICY HealthBiometrics = \<lparr>default_sensitivity = Private, sensitivity_floor = Private\<rparr>"
| "SOURCE_CLASS_POLICY Calendar = \<lparr>default_sensitivity = Private, sensitivity_floor = Personal\<rparr>"
| "SOURCE_CLASS_POLICY LocalFiles = \<lparr>default_sensitivity = Private, sensitivity_floor = Personal\<rparr>"
| "SOURCE_CLASS_POLICY AgentSession = \<lparr>default_sensitivity = Private, sensitivity_floor = Personal\<rparr>"
| "SOURCE_CLASS_POLICY PublicPosts = \<lparr>default_sensitivity = Public, sensitivity_floor = Public\<rparr>"
| "SOURCE_CLASS_POLICY SavedWeb = \<lparr>default_sensitivity = Personal, sensitivity_floor = Public\<rparr>"

definition CLOSED :: SensitivityPolicy where
  "CLOSED = \<lparr>default_sensitivity = Private, sensitivity_floor = Private\<rparr>"

definition CONNECTOR_SOURCE_CLASS :: "(string \<times> SourceClass) list" where
  "CONNECTOR_SOURCE_CLASS =
    [(''kizuki.markdown-folder'', LocalFiles),
     (''kizuki.import-chatgpt'', AgentSession),
     (''kizuki.import-claude'', AgentSession),
     (''kizuki.import-beacon'', AgentSession),
     (''kizuki.import-whatsapp'', DirectMessaging),
     (''kizuki.import-pocket'', SavedWeb),
     (''kizuki.import-omnivore'', SavedWeb),
     (''kizuki.import-legacy-wiki'', LocalFiles),
     (''kizuki.import-legacy-events'', LocalFiles),
     (''kizuki.telegram'', DirectMessaging),
     (''kizuki.imap'', Email),
     (''kizuki.ics'', Calendar),
     (''kizuki.screenpipe'', LocalFiles),
     (''kizuki.claude-code-sessions'', AgentSession),
     (''kizuki.codex-sessions'', AgentSession)]"

definition OWNER_MAPPED_CONNECTORS :: "string list" where
  "OWNER_MAPPED_CONNECTORS = [''kizuki.import-legacy-wiki'', ''kizuki.import-legacy-events'']"

definition isOwnerMappedConnector :: "string \<Rightarrow> bool" where
  "isOwnerMappedConnector connectorId \<longleftrightarrow> connectorId \<in> set OWNER_MAPPED_CONNECTORS"

definition sourceClassForConnector :: "string \<Rightarrow> SourceClass option" where
  "sourceClassForConnector connectorId = map_of CONNECTOR_SOURCE_CLASS connectorId"

definition policyForConnector :: "string \<Rightarrow> SensitivityPolicy" where
  "policyForConnector connectorId =
     (case sourceClassForConnector connectorId of
        None \<Rightarrow> CLOSED
      | Some sourceClass \<Rightarrow> SOURCE_CLASS_POLICY sourceClass)"

definition policyFromManifest :: "js \<Rightarrow> js \<Rightarrow> SensitivityPolicy" where
  "policyFromManifest manifest_default manifest_floor =
     (let floor = sensitivityOrPrivate manifest_floor;
          defaultSensitivity = sensitivityOrPrivate manifest_default
      in \<lparr>default_sensitivity = stricter floor defaultSensitivity, sensitivity_floor = floor\<rparr>)"

lemma class_policy_ordered:
  "sensitivity_floor (SOURCE_CLASS_POLICY c) \<le> default_sensitivity (SOURCE_CLASS_POLICY c)"
  by (cases c) simp_all

lemma policyForConnector_ordered:
  "sensitivity_floor (policyForConnector c) \<le> default_sensitivity (policyForConnector c)"
  by (auto simp: policyForConnector_def CLOSED_def class_policy_ordered split: option.splits)

section \<open>The stored floors and defaults\<close>

record ConnectorSensitivityRow =
  row_connector_id :: string
  row_source_key :: string
  row_default_sensitivity :: string
  row_floor :: string
  row_set_by :: string
  row_at :: string

datatype SensitivitySetBy = ByManifest | ByConnect | ByGrant

fun setByText :: "SensitivitySetBy \<Rightarrow> string" where
  "setByText ByManifest = ''manifest''"
| "setByText ByConnect = ''connect''"
| "setByText ByGrant = ''grant''"

record ConnectorSensitivity =
  connector_id :: string
  source_key :: string
  cs_default :: Sensitivity
  cs_floor :: Sensitivity
  set_by :: SensitivitySetBy
  cs_at :: string

record SensitivityDb =
  connector_sensitivity :: "ConnectorSensitivityRow list option"
  source_event_bindings :: "(string \<times> string) list option"

datatype SensitivityError = FloorBelowManifest | FloorBelowCurrent | DefaultBelowFloor

definition rowToRecord :: "ConnectorSensitivityRow \<Rightarrow> ConnectorSensitivity" where
  "rowToRecord row =
     \<lparr>connector_id = row_connector_id row,
      source_key = row_source_key row,
      cs_default = sensitivityOrPrivate (Str (row_default_sensitivity row)),
      cs_floor = sensitivityOrPrivate (Str (row_floor row)),
      set_by = (if row_set_by row = ''connect'' then ByConnect
                else if row_set_by row = ''grant'' then ByGrant else ByManifest),
      cs_at = row_at row\<rparr>"

text \<open>The row an insert or update of a record stores.\<close>

definition recordToRow :: "ConnectorSensitivity \<Rightarrow> ConnectorSensitivityRow" where
  "recordToRow r =
     \<lparr>row_connector_id = connector_id r,
      row_source_key = source_key r,
      row_default_sensitivity = labelText (cs_default r),
      row_floor = labelText (cs_floor r),
      row_set_by = setByText (set_by r),
      row_at = cs_at r\<rparr>"

lemma rowToRecord_recordToRow [simp]: "rowToRecord (recordToRow r) = r"
  by (cases "set_by r")
    (simp_all add: rowToRecord_def recordToRow_def)

declare setByText.simps [simp del]

definition nowOf :: "string \<Rightarrow> string option \<Rightarrow> string" where
  "nowOf now stamp = (case stamp of Some t \<Rightarrow> t | None \<Rightarrow> now)"

definition sameSource :: "string \<Rightarrow> string \<Rightarrow> ConnectorSensitivityRow \<Rightarrow> bool" where
  "sameSource c k row \<longleftrightarrow> row_connector_id row = c \<and> row_source_key row = k"

definition getConnectorSensitivity ::
  "SensitivityDb \<Rightarrow> string \<Rightarrow> string \<Rightarrow> ConnectorSensitivity option" where
  "getConnectorSensitivity db c k =
     (case connector_sensitivity db of
        None \<Rightarrow> None
      | Some rows \<Rightarrow> map_option rowToRecord (find (sameSource c k) rows))"

definition connectorSensitivityFor :: "SensitivityDb \<Rightarrow> string \<Rightarrow> SensitivityPolicy" where
  "connectorSensitivityFor db c =
     (case connector_sensitivity db of
        None \<Rightarrow> policyForConnector c
      | Some table \<Rightarrow>
          (let rows = map rowToRecord
                 (sort_key row_source_key (filter (\<lambda>r. row_connector_id r = c) table))
           in if rows = [] then policyForConnector c
              else
                (let floor = foldl (\<lambda>f r. stricter f (cs_floor r)) Public rows;
                     defaultSensitivity = foldl (\<lambda>d r. stricter d (cs_default r)) Public rows
                 in \<lparr>default_sensitivity = stricter floor defaultSensitivity,
                     sensitivity_floor = floor\<rparr>)))"

definition initSensitivity :: "SensitivityDb \<Rightarrow> SensitivityDb" where
  "initSensitivity db =
     (case connector_sensitivity db of
        None \<Rightarrow> db\<lparr>connector_sensitivity := Some []\<rparr>
      | Some rows \<Rightarrow> db)"

definition insertRow :: "SensitivityDb \<Rightarrow> ConnectorSensitivity \<Rightarrow> SensitivityDb" where
  "insertRow db r =
     db\<lparr>connector_sensitivity :=
        map_option (\<lambda>rows. rows @ [recordToRow r]) (connector_sensitivity db)\<rparr>"

definition updateRows ::
  "SensitivityDb \<Rightarrow> string \<Rightarrow> string \<Rightarrow> (ConnectorSensitivityRow \<Rightarrow> ConnectorSensitivityRow)
   \<Rightarrow> SensitivityDb" where
  "updateRows db c k f =
     db\<lparr>connector_sensitivity :=
        map_option (map (\<lambda>row. if sameSource c k row then f row else row))
          (connector_sensitivity db)\<rparr>"

definition seedConnectorSensitivity ::
  "SensitivityDb \<Rightarrow> string \<times> string \<Rightarrow> SensitivityPolicy \<Rightarrow> string \<Rightarrow> string option
   \<Rightarrow> SensitivityDb \<times> ConnectorSensitivity" where
  "seedConnectorSensitivity db0 connection policy now stamp =
     (let db = initSensitivity db0
      in case getConnectorSensitivity db (fst connection) (snd connection) of
           Some existing \<Rightarrow> (db, existing)
         | None \<Rightarrow>
             (let r = \<lparr>connector_id = fst connection,
                       source_key = snd connection,
                       cs_default = stricter (sensitivity_floor policy) (default_sensitivity policy),
                       cs_floor = sensitivity_floor policy,
                       set_by = ByManifest,
                       cs_at = nowOf now stamp\<rparr>
              in (insertRow db r, r)))"

definition raiseConnectorSensitivityFloor ::
  "SensitivityDb \<Rightarrow> string \<times> string \<Rightarrow> Sensitivity \<Rightarrow> Sensitivity \<Rightarrow> string \<Rightarrow> string option
   \<Rightarrow> SensitivityDb \<times> (SensitivityError + ConnectorSensitivity)" where
  "raiseConnectorSensitivityFloor db connection requested manifestFloor now stamp =
     (if SENSITIVITY_ORDER requested < SENSITIVITY_ORDER manifestFloor
      then (db, Inl FloorBelowManifest)
      else
        (let (db1, current) =
           seedConnectorSensitivity db connection
             \<lparr>default_sensitivity = requested, sensitivity_floor = manifestFloor\<rparr> now stamp
         in if SENSITIVITY_ORDER requested < SENSITIVITY_ORDER (cs_floor current)
            then (db1, Inl FloorBelowCurrent)
            else if requested = cs_floor current \<and>
                    SENSITIVITY_ORDER (cs_default current) \<ge> SENSITIVITY_ORDER requested
            then (db1, Inr current)
            else
              (let next = current\<lparr>cs_floor := requested,
                       cs_default := stricter (cs_default current) requested,
                       set_by := (if set_by current = ByGrant then ByGrant else ByConnect),
                       cs_at := nowOf now stamp\<rparr>
               in (updateRows db1 (fst connection) (snd connection)
                     (\<lambda>row. row\<lparr>row_default_sensitivity := labelText (cs_default next),
                                row_floor := labelText (cs_floor next),
                                row_set_by := setByText (set_by next),
                                row_at := cs_at next\<rparr>),
                   Inr next))))"

definition setGrantSensitivityDefault ::
  "SensitivityDb \<Rightarrow> string \<times> string \<Rightarrow> Sensitivity option \<Rightarrow> string \<Rightarrow> string option
   \<Rightarrow> SensitivityDb \<times> (SensitivityError + unit)" where
  "setGrantSensitivityDefault db connection requested now stamp =
     (let classPolicy = policyForConnector (fst connection);
          store = (\<lambda>db1 current nxt setBy.
            if nxt = cs_default current \<and> setBy = set_by current then (db1, Inr ())
            else (updateRows db1 (connector_id current) (source_key current)
                    (\<lambda>row. row\<lparr>row_default_sensitivity := labelText nxt,
                               row_set_by := setByText setBy,
                               row_at := nowOf now stamp\<rparr>),
                  Inr ()))
      in case requested of
           None \<Rightarrow>
             (case getConnectorSensitivity db (fst connection) (snd connection) of
                None \<Rightarrow> (db, Inr ())
              | Some current \<Rightarrow>
                  if set_by current \<noteq> ByGrant then (db, Inr ())
                  else store db current
                         (stricter (cs_floor current) (default_sensitivity classPolicy)) ByManifest)
         | Some r \<Rightarrow>
             (let (db1, current) = seedConnectorSensitivity db connection classPolicy now stamp
              in if SENSITIVITY_ORDER r < SENSITIVITY_ORDER (cs_floor current)
                 then (db1, Inl DefaultBelowFloor)
                 else store db1 current r ByGrant))"

definition applyConnectionSensitivity ::
  "SensitivityDb \<Rightarrow> string \<times> string \<Rightarrow> js \<Rightarrow> js \<Rightarrow> Sensitivity option \<Rightarrow> string \<Rightarrow> string option
   \<Rightarrow> SensitivityDb \<times> (SensitivityError + ConnectorSensitivity)" where
  "applyConnectionSensitivity db connection manifest_default manifest_floor requested now stamp =
     (let policy = policyFromManifest manifest_default manifest_floor;
          (db1, seeded) = seedConnectorSensitivity db connection policy now stamp
      in case requested of
           None \<Rightarrow> (db1, Inr seeded)
         | Some r \<Rightarrow>
             raiseConnectorSensitivityFloor db1 connection r (sensitivity_floor policy) now stamp)"

definition eventPolicy :: "SensitivityDb \<Rightarrow> string \<times> string \<Rightarrow> SensitivityPolicy" where
  "eventPolicy db event =
     (let source =
            (case source_event_bindings db of
               None \<Rightarrow> None
             | Some bindings \<Rightarrow> map_of bindings (fst event));
          own =
            (case source of
               None \<Rightarrow> None
             | Some key \<Rightarrow> getConnectorSensitivity db (snd event) key)
      in case own of
           None \<Rightarrow> connectorSensitivityFor db (snd event)
         | Some r \<Rightarrow> \<lparr>default_sensitivity = stricter (cs_floor r) (cs_default r),
                       sensitivity_floor = cs_floor r\<rparr>)"

record LabelClaimInput =
  lc_events :: "(string \<times> string) list"
  lc_event_hints :: "js list"
  lc_model_label :: js
  lc_owner_label :: js
  lc_owner_override :: bool

definition labelClaimSensitivity ::
  "SensitivityDb \<Rightarrow> LabelClaimInput \<Rightarrow> SensitivityResolution" where
  "labelClaimSensitivity db i =
     (let (floor, connectorDefault) =
            (if lc_events i = [] then (Private, Private)
             else
               (foldl (\<lambda>f e. stricter f (sensitivity_floor (eventPolicy db e))) Public (lc_events i),
                foldl (\<lambda>d e. stricter d (default_sensitivity (eventPolicy db e))) Public (lc_events i)));
          hints = List.map_filter parseSensitivity (lc_event_hints i);
          raising =
            foldl (\<lambda>acc hint.
                if SENSITIVITY_ORDER hint > SENSITIVITY_ORDER connectorDefault
                then Some (case acc of None \<Rightarrow> hint | Some r \<Rightarrow> stricter r hint)
                else acc) None hints;
          hintIgnored =
            (\<exists>hint\<in>set hints. SENSITIVITY_ORDER hint < SENSITIVITY_ORDER connectorDefault);
          resolved =
            resolveSensitivity
              \<lparr>connector_floor = Str (labelText floor),
               connector_default = Str (labelText connectorDefault),
               model_label = lc_model_label i,
               event_hint = (case raising of None \<Rightarrow> Undefined | Some r \<Rightarrow> Str (labelText r)),
               owner_label = lc_owner_label i,
               owner_override_in = lc_owner_override i\<rparr>
      in if hintIgnored then resolved\<lparr>hint_ignored := True\<rparr> else resolved)"

section \<open>Reading the table after an operation\<close>

lemma find_append: "find P (xs @ ys) = (case find P xs of None \<Rightarrow> find P ys | Some x \<Rightarrow> Some x)"
  by (induction xs) auto

lemma find_map_keep:
  assumes "\<And>x. P (f x) = P x"
  shows "find P (map f xs) = map_option f (find P xs)"
  by (induction xs) (auto simp: assms)

lemma sameSource_recordToRow [simp]:
  "sameSource c k (recordToRow r) \<longleftrightarrow> connector_id r = c \<and> source_key r = k"
  by (simp add: sameSource_def recordToRow_def)

lemma table_init [simp]: "connector_sensitivity (initSensitivity db) \<noteq> None"
  by (simp add: initSensitivity_def split: option.split)

lemma get_init [simp]:
  "getConnectorSensitivity (initSensitivity db) c k = getConnectorSensitivity db c k"
  by (simp add: getConnectorSensitivity_def initSensitivity_def split: option.split)

lemma get_key: "getConnectorSensitivity db c k = Some r \<Longrightarrow> connector_id r = c \<and> source_key r = k"
  by (auto simp: getConnectorSensitivity_def rowToRecord_def sameSource_def find_Some_iff
      split: option.splits)

lemma get_insert:
  assumes "connector_sensitivity db \<noteq> None"
    and "getConnectorSensitivity db (connector_id r) (source_key r) = None"
  shows "getConnectorSensitivity (insertRow db r) c k =
    (if connector_id r = c \<and> source_key r = k then Some r else getConnectorSensitivity db c k)"
  using assms
  by (auto simp: getConnectorSensitivity_def insertRow_def find_append split: option.splits)

text \<open>An update that leaves the key alone changes what its own key reads, and nothing else.\<close>

lemma get_update:
  assumes "\<And>row. sameSource c k row \<Longrightarrow> sameSource c k (f row)"
  shows "getConnectorSensitivity (updateRows db c k f) c' k' =
    (if c' = c \<and> k' = k
     then map_option (\<lambda>row. rowToRecord (f row))
            (Option.bind (connector_sensitivity db) (find (sameSource c k)))
     else getConnectorSensitivity db c' k')"
proof -
  let ?g = "\<lambda>row. if sameSource c k row then f row else row"
  have keep: "sameSource c' k' (?g row) = sameSource c' k' row" for row
    using assms [of row] by (auto simp: sameSource_def)
  have fm: "find (sameSource c' k') (map ?g rows) =
      map_option ?g (find (sameSource c' k') rows)" for rows
    by (rule find_map_keep) (rule keep)
  show ?thesis
  proof (cases "Option.bind (connector_sensitivity db) (find (sameSource c' k'))")
    case None
    then show ?thesis
      by (cases "connector_sensitivity db")
        (auto simp: getConnectorSensitivity_def updateRows_def fm)
  next
    case (Some row)
    then obtain rows where rows: "connector_sensitivity db = Some rows"
        "find (sameSource c' k') rows = Some row"
      by (cases "connector_sensitivity db") auto
    then have "sameSource c' k' row" by (auto simp: find_Some_iff)
    then have "sameSource c k row \<longleftrightarrow> c' = c \<and> k' = k" by (auto simp: sameSource_def)
    with rows show ?thesis
      by (auto simp: getConnectorSensitivity_def updateRows_def fm)
  qed
qed

lemma get_seed:
  assumes "seedConnectorSensitivity db conn policy now stamp = (db', r)"
  shows "getConnectorSensitivity db' c k =
    (if (c, k) = conn then Some r else getConnectorSensitivity db c k)"
    and "getConnectorSensitivity db (fst conn) (snd conn) = Some r \<or>
      (getConnectorSensitivity db (fst conn) (snd conn) = None \<and>
       cs_floor r = sensitivity_floor policy \<and>
       cs_default r = max (sensitivity_floor policy) (default_sensitivity policy))"
  using assms
  by (auto simp: seedConnectorSensitivity_def Let_def get_insert prod_eq_iff
      split: option.splits)

lemma rowToRecord_stamp [simp]:
  "rowToRecord (row\<lparr>row_default_sensitivity := labelText d, row_floor := labelText f,
      row_set_by := setByText b, row_at := t\<rparr>) =
    (rowToRecord row)\<lparr>cs_default := d, cs_floor := f, set_by := b, cs_at := t\<rparr>"
  "rowToRecord (row\<lparr>row_default_sensitivity := labelText d, row_set_by := setByText b,
      row_at := t\<rparr>) =
    (rowToRecord row)\<lparr>cs_default := d, set_by := b, cs_at := t\<rparr>"
  by (cases b; simp add: rowToRecord_def setByText.simps)+

lemma get_bind:
  "getConnectorSensitivity db c k =
    map_option rowToRecord (Option.bind (connector_sensitivity db) (find (sameSource c k)))"
  by (simp add: getConnectorSensitivity_def split: option.split)

lemma get_update_stamp:
  assumes "getConnectorSensitivity db c k = Some r"
    and "\<And>row. sameSource c k (f row) = sameSource c k row"
    and "\<And>row. rowToRecord row = r \<Longrightarrow> rowToRecord (f row) = r'"
  shows "getConnectorSensitivity (updateRows db c k f) c' k' =
    (if c' = c \<and> k' = k then Some r' else getConnectorSensitivity db c' k')"
proof -
  obtain row where row: "Option.bind (connector_sensitivity db) (find (sameSource c k)) = Some row"
      "rowToRecord row = r"
    using assms(1) by (auto simp: get_bind)
  have "\<And>row. sameSource c k row \<Longrightarrow> sameSource c k (f row)" by (simp add: assms(2))
  from get_update [OF this] row assms(3) [OF row(2)] show ?thesis by simp
qed

section \<open>Every sequence of operations\<close>

datatype SensitivityOp =
    Seed "string \<times> string" SensitivityPolicy "string option"
  | Raise "string \<times> string" Sensitivity Sensitivity "string option"
  | SetGrant "string \<times> string" "Sensitivity option" "string option"
  | ApplyConnection "string \<times> string" js js "Sensitivity option" "string option"

fun sensitivityStep :: "string \<Rightarrow> SensitivityDb \<Rightarrow> SensitivityOp \<Rightarrow> SensitivityDb" where
  "sensitivityStep now db (Seed conn policy stamp) =
     fst (seedConnectorSensitivity db conn policy now stamp)"
| "sensitivityStep now db (Raise conn requested manifestFloor stamp) =
     fst (raiseConnectorSensitivityFloor db conn requested manifestFloor now stamp)"
| "sensitivityStep now db (SetGrant conn requested stamp) =
     fst (setGrantSensitivityDefault db conn requested now stamp)"
| "sensitivityStep now db (ApplyConnection conn d f requested stamp) =
     fst (applyConnectionSensitivity db conn d f requested now stamp)"

definition defaults_above_floors :: "SensitivityDb \<Rightarrow> bool" where
  "defaults_above_floors db \<longleftrightarrow>
     (\<forall>c k r. getConnectorSensitivity db c k = Some r \<longrightarrow> cs_floor r \<le> cs_default r)"

definition floors_kept :: "SensitivityDb \<Rightarrow> SensitivityDb \<Rightarrow> bool" where
  "floors_kept db db' \<longleftrightarrow>
     (\<forall>c k r. getConnectorSensitivity db c k = Some r \<longrightarrow>
        (\<exists>r'. getConnectorSensitivity db' c k = Some r' \<and> cs_floor r \<le> cs_floor r'))"

lemma floors_kept_refl: "floors_kept db db"
  by (auto simp: floors_kept_def)

lemma floors_kept_trans: "floors_kept a b \<Longrightarrow> floors_kept b c \<Longrightarrow> floors_kept a c"
  unfolding floors_kept_def by (meson order_trans)

text \<open>What one operation needs to show: the row it leaves under its own key.\<close>

lemma keeps_by_key:
  assumes "\<And>c k. (c, k) \<noteq> conn \<Longrightarrow>
      getConnectorSensitivity db' c k = getConnectorSensitivity db c k"
    and "getConnectorSensitivity db' (fst conn) (snd conn) = Some r'"
    and "\<And>r. getConnectorSensitivity db (fst conn) (snd conn) = Some r \<Longrightarrow> cs_floor r \<le> cs_floor r'"
    and "defaults_above_floors db \<Longrightarrow> cs_floor r' \<le> cs_default r'"
  shows "floors_kept db db'" and "defaults_above_floors db \<Longrightarrow> defaults_above_floors db'"
proof -
  show "floors_kept db db'"
    unfolding floors_kept_def
  proof (intro allI impI)
    fix c k r assume "getConnectorSensitivity db c k = Some r"
    then show "\<exists>r'. getConnectorSensitivity db' c k = Some r' \<and> cs_floor r \<le> cs_floor r'"
      using assms(1-3) by (cases "(c, k) = conn") auto
  qed
  show "defaults_above_floors db'" if "defaults_above_floors db"
    unfolding defaults_above_floors_def
  proof (intro allI impI)
    fix c k r assume "getConnectorSensitivity db' c k = Some r"
    then show "cs_floor r \<le> cs_default r"
      using assms(1,2) assms(4) [OF that] that
      by (cases "(c, k) = conn") (auto simp: defaults_above_floors_def)
  qed
qed

definition well_kept :: "SensitivityDb \<Rightarrow> SensitivityDb \<Rightarrow> bool" where
  "well_kept db db' \<longleftrightarrow>
     floors_kept db db' \<and> (defaults_above_floors db \<longrightarrow> defaults_above_floors db')"

lemma well_kept_refl [simp]: "well_kept db db"
  by (simp add: well_kept_def floors_kept_refl)

lemma well_kept_trans: "well_kept a b \<Longrightarrow> well_kept b c \<Longrightarrow> well_kept a c"
  by (auto simp: well_kept_def intro: floors_kept_trans)

lemma well_kept_by_key:
  assumes "\<And>c k. (c, k) \<noteq> conn \<Longrightarrow>
      getConnectorSensitivity db' c k = getConnectorSensitivity db c k"
    and "getConnectorSensitivity db' (fst conn) (snd conn) = Some r'"
    and "\<And>r. getConnectorSensitivity db (fst conn) (snd conn) = Some r \<Longrightarrow> cs_floor r \<le> cs_floor r'"
    and "defaults_above_floors db \<Longrightarrow> cs_floor r' \<le> cs_default r'"
  shows "well_kept db db'"
  using keeps_by_key [OF assms] by (simp add: well_kept_def)

lemma seed_keeps:
  assumes "seedConnectorSensitivity db conn policy now stamp = (db', r)"
  shows "well_kept db db'"
proof (rule well_kept_by_key [where r' = r])
  show "getConnectorSensitivity db' (fst conn) (snd conn) = Some r"
    by (simp add: get_seed(1) [OF assms])
  show "\<And>c k. (c, k) \<noteq> conn \<Longrightarrow>
      getConnectorSensitivity db' c k = getConnectorSensitivity db c k"
    by (simp add: get_seed(1) [OF assms])
  show "\<And>r'. getConnectorSensitivity db (fst conn) (snd conn) = Some r' \<Longrightarrow> cs_floor r' \<le> cs_floor r"
    using get_seed(2) [OF assms] by auto
  show "cs_floor r \<le> cs_default r" if "defaults_above_floors db"
    using get_seed(2) [OF assms] that by (auto simp: defaults_above_floors_def)
qed

text \<open>An update of the row just read, to a record with at least its floor.\<close>

lemma update_keeps:
  assumes "getConnectorSensitivity db (fst conn) (snd conn) = Some r"
    and "\<And>row. sameSource (fst conn) (snd conn) (f row) = sameSource (fst conn) (snd conn) row"
    and "\<And>row. rowToRecord row = r \<Longrightarrow> rowToRecord (f row) = r'"
    and "cs_floor r \<le> cs_floor r'" and "cs_floor r \<le> cs_default r \<Longrightarrow> cs_floor r' \<le> cs_default r'"
  shows "well_kept db (updateRows db (fst conn) (snd conn) f)"
proof (rule well_kept_by_key [where r' = r'])
  note upd = get_update_stamp [OF assms(1-3)]
  show "getConnectorSensitivity (updateRows db (fst conn) (snd conn) f) (fst conn) (snd conn) = Some r'"
    by (simp add: upd)
  show "\<And>c k. (c, k) \<noteq> conn \<Longrightarrow>
      getConnectorSensitivity (updateRows db (fst conn) (snd conn) f) c k = getConnectorSensitivity db c k"
    by (auto simp: upd prod_eq_iff)
qed (use assms in \<open>auto simp: defaults_above_floors_def\<close>)

lemma raise_keeps:
  "well_kept db (fst (raiseConnectorSensitivityFloor db conn requested manifestFloor now stamp))"
proof -
  obtain db1 cur where seed: "seedConnectorSensitivity db conn
      \<lparr>default_sensitivity = requested, sensitivity_floor = manifestFloor\<rparr> now stamp = (db1, cur)"
    by fastforce
  have cur: "getConnectorSensitivity db1 (fst conn) (snd conn) = Some cur"
    by (simp add: get_seed(1) [OF seed])
  note first = seed_keeps [OF seed]
  show ?thesis
  proof (cases "requested < manifestFloor \<or> requested < cs_floor cur \<or>
      (requested = cs_floor cur \<and> requested \<le> cs_default cur)")
    case True
    then show ?thesis
      using first by (auto simp: raiseConnectorSensitivityFloor_def seed)
  next
    case False
    have "well_kept db1 (updateRows db1 (fst conn) (snd conn)
        (\<lambda>row. row\<lparr>row_default_sensitivity := labelText (max (cs_default cur) requested),
                 row_floor := labelText requested,
                 row_set_by := setByText (if set_by cur = ByGrant then ByGrant else ByConnect),
                 row_at := nowOf now stamp\<rparr>))"
      by (rule update_keeps [OF cur, where r' = "cur\<lparr>cs_default := max (cs_default cur) requested,
            cs_floor := requested, set_by := (if set_by cur = ByGrant then ByGrant else ByConnect),
            cs_at := nowOf now stamp\<rparr>"])
        (use False in \<open>auto simp: sameSource_def\<close>)
    then have "well_kept db (updateRows db1 (fst conn) (snd conn)
        (\<lambda>row. row\<lparr>row_default_sensitivity := labelText (max (cs_default cur) requested),
                 row_floor := labelText requested,
                 row_set_by := setByText (if set_by cur = ByGrant then ByGrant else ByConnect),
                 row_at := nowOf now stamp\<rparr>))"
      by (rule well_kept_trans [OF first])
    moreover have "\<not> (requested = cs_floor cur \<and> requested \<le> cs_default cur)"
      and "\<not> requested < manifestFloor" and "\<not> requested < cs_floor cur"
      using False by auto
    ultimately show ?thesis
      by (auto simp: raiseConnectorSensitivityFloor_def seed Let_def)
  qed
qed

lemma store_keeps:
  assumes "getConnectorSensitivity db c k = Some cur" and "cs_floor cur \<le> d"
  shows "well_kept db (updateRows db c k
    (\<lambda>row. row\<lparr>row_default_sensitivity := labelText d, row_set_by := setByText b, row_at := t\<rparr>))"
  using update_keeps [where conn = "(c, k)" and db = db and r = cur and r' = "cur\<lparr>cs_default := d, set_by := b, cs_at := t\<rparr>"
    and f = "\<lambda>row. row\<lparr>row_default_sensitivity := labelText d, row_set_by := setByText b, row_at := t\<rparr>"]
    assms
  by (simp add: sameSource_def)

lemma setGrant_keeps:
  "well_kept db (fst (setGrantSensitivityDefault db conn requested now stamp))"
proof (cases requested)
  case None
  show ?thesis
  proof (cases "getConnectorSensitivity db (fst conn) (snd conn)")
    case (Some cur)
    note key = get_key [OF Some]
    show ?thesis
      using store_keeps [OF Some, of "max (cs_floor cur) (default_sensitivity (policyForConnector (fst conn)))"]
      by (simp add: setGrantSensitivityDefault_def None Some key Let_def)
  qed (simp add: setGrantSensitivityDefault_def None)
next
  case (Some r)
  obtain db1 cur where seed: "seedConnectorSensitivity db conn
      (policyForConnector (fst conn)) now stamp = (db1, cur)"
    by fastforce
  have cur: "getConnectorSensitivity db1 (fst conn) (snd conn) = Some cur"
    by (simp add: get_seed(1) [OF seed])
  note key = get_key [OF cur]
  note first = seed_keeps [OF seed]
  show ?thesis
  proof (cases "r < cs_floor cur")
    case False
    then have "cs_floor cur \<le> r" by simp
    note well_kept_trans [OF first store_keeps [OF cur this]]
    with False first show ?thesis
      by (simp add: setGrantSensitivityDefault_def Some seed key Let_def)
  qed (simp add: setGrantSensitivityDefault_def Some seed first)
qed

lemma apply_keeps:
  "well_kept db (fst (applyConnectionSensitivity db conn d f requested now stamp))"
proof -
  obtain db1 cur where seed:
    "seedConnectorSensitivity db conn (policyFromManifest d f) now stamp = (db1, cur)"
    by fastforce
  show ?thesis
    using seed_keeps [OF seed] well_kept_trans [OF seed_keeps [OF seed] raise_keeps]
    by (cases requested) (simp_all add: applyConnectionSensitivity_def seed)
qed

lemma step_keeps: "well_kept db (sensitivityStep now db op)"
proof (cases op)
  case (Seed conn policy stamp)
  then show ?thesis
    using seed_keeps [of db conn policy now stamp] by (metis prod.collapse sensitivityStep.simps(1))
qed (simp_all add: raise_keeps setGrant_keeps apply_keeps)

interpretation sensitivity_table: machine "sensitivityStep now" every defaults_above_floors floors_kept
proof
  show "defaults_above_floors db \<Longrightarrow> defaults_above_floors (sensitivityStep now db op)" for db op
    using step_keeps [of db now op] by (simp add: well_kept_def)
  show "floors_kept db (sensitivityStep now db op)" if "defaults_above_floors db" for db op
    using step_keeps [of db now op] by (simp add: well_kept_def)
qed (auto intro: floors_kept_refl floors_kept_trans)

section \<open>Claims about labels\<close>

lemma foldl_max:
  "foldl (\<lambda>f e. max f (g e)) (a :: Sensitivity) es = fold (\<lambda>e. max (g e)) es a"
  by (induction es arbitrary: a) (auto simp: max.commute)

lemma foldl_max_ge:
  fixes a :: Sensitivity
  shows "a \<le> foldl (\<lambda>f e. max f (g e)) a es"
    and "e \<in> set es \<Longrightarrow> g e \<le> foldl (\<lambda>f e. max f (g e)) a es"
proof -
  show ge: "a \<le> foldl (\<lambda>f e. max f (g e)) a es" for a es
    by (induction es arbitrary: a) (auto intro: order_trans [OF max.cobounded1])
  show "e \<in> set es \<Longrightarrow> g e \<le> foldl (\<lambda>f e. max f (g e)) a es"
  proof (induction es arbitrary: a)
    case (Cons x es)
    then show ?case using ge [of "max a (g x)" es] by auto
  qed simp
qed

lemma ignoring_keeps:
  "sensitivity (if b then r\<lparr>hint_ignored := True\<rparr> else r) = sensitivity r"
  by simp

lemma labelClaim_sensitivity:
  assumes "\<not> lc_owner_override i \<or> parseSensitivity (lc_owner_label i) = None"
  shows "lc_events i = [] \<Longrightarrow> sensitivity (labelClaimSensitivity db i) = Private"
    and "e \<in> set (lc_events i) \<Longrightarrow>
      sensitivity_floor (eventPolicy db e) \<le> sensitivity (labelClaimSensitivity db i)"
    and "e \<in> set (lc_events i) \<Longrightarrow>
      default_sensitivity (eventPolicy db e) \<le> sensitivity (labelClaimSensitivity db i)"
    and "labelOrPublic (lc_model_label i) \<le> sensitivity (labelClaimSensitivity db i)"
    and "labelOrPublic (lc_owner_label i) \<le> sensitivity (labelClaimSensitivity db i)"
  using assms foldl_max_ge(2) [of e "lc_events i" "\<lambda>e. sensitivity_floor (eventPolicy db e)" Public]
    foldl_max_ge(2) [of e "lc_events i" "\<lambda>e. default_sensitivity (eventPolicy db e)" Public]
  by (auto simp: labelClaimSensitivity_def Let_def resolve_without_override split_def
      ignoring_keeps le_max_iff_disj max_def simp del: labelText.simps)

lemma raise_unfold:
  assumes "seedConnectorSensitivity db conn
      \<lparr>default_sensitivity = requested, sensitivity_floor = manifestFloor\<rparr> now stamp = (db1, cur)"
  shows "raiseConnectorSensitivityFloor db conn requested manifestFloor now stamp =
    (if requested < manifestFloor then (db, Inl FloorBelowManifest)
     else if requested < cs_floor cur then (db1, Inl FloorBelowCurrent)
     else if requested = cs_floor cur \<and> requested \<le> cs_default cur then (db1, Inr cur)
     else (updateRows db1 (fst conn) (snd conn)
        (\<lambda>row. row\<lparr>row_default_sensitivity := labelText (max (cs_default cur) requested),
                 row_floor := labelText requested,
                 row_set_by := setByText (if set_by cur = ByGrant then ByGrant else ByConnect),
                 row_at := nowOf now stamp\<rparr>),
        Inr (cur\<lparr>cs_floor := requested, cs_default := max (cs_default cur) requested,
        set_by := (if set_by cur = ByGrant then ByGrant else ByConnect), cs_at := nowOf now stamp\<rparr>)))"
  unfolding raiseConnectorSensitivityFloor_def assms Let_def prod.case order_less order_le stricter_max
  by (rule if_cong [OF refl refl], rule if_cong [OF refl refl], rule if_cong [OF refl refl]) simp

lemma get_raise:
  assumes "raiseConnectorSensitivityFloor db conn requested manifestFloor now stamp = (db', Inr r)"
  shows "getConnectorSensitivity db' (fst conn) (snd conn) = Some r \<and> cs_floor r = requested"
proof -
  obtain db1 cur where seed: "seedConnectorSensitivity db conn
      \<lparr>default_sensitivity = requested, sensitivity_floor = manifestFloor\<rparr> now stamp = (db1, cur)"
    by fastforce
  have cur: "getConnectorSensitivity db1 (fst conn) (snd conn) = Some cur"
    by (simp add: get_seed(1) [OF seed])
  let ?next = "cur\<lparr>cs_floor := requested, cs_default := max (cs_default cur) requested,
      set_by := (if set_by cur = ByGrant then ByGrant else ByConnect), cs_at := nowOf now stamp\<rparr>"
  let ?upd = "updateRows db1 (fst conn) (snd conn)
      (\<lambda>row. row\<lparr>row_default_sensitivity := labelText (max (cs_default cur) requested),
               row_floor := labelText requested,
               row_set_by := setByText (if set_by cur = ByGrant then ByGrant else ByConnect),
               row_at := nowOf now stamp\<rparr>)"
  have "getConnectorSensitivity ?upd (fst conn) (snd conn) = Some ?next"
    by (subst get_update_stamp [OF cur, where r' = ?next]) (simp_all add: sameSource_def)
  moreover obtain u where upd: "u = ?upd" by simp
  moreover obtain n where nxt: "n = ?next" by simp
  moreover have "(db', Inr r) = (db1, Inr cur) \<and> requested = cs_floor cur \<or>
      (db', Inr r) = (?upd, Inr ?next :: SensitivityError + ConnectorSensitivity)"
    using assms [unfolded raise_unfold [OF seed], folded upd nxt]
    unfolding upd [symmetric] nxt [symmetric] by (auto split: if_splits)
  ultimately show ?thesis using cur by auto
qed

lemma raise_accepts_iff:
  "(\<exists>r. snd (raiseConnectorSensitivityFloor db conn requested manifestFloor now stamp) = Inr r) \<longleftrightarrow>
    manifestFloor \<le> requested \<and>
    (case getConnectorSensitivity db (fst conn) (snd conn) of
       None \<Rightarrow> True | Some current \<Rightarrow> cs_floor current \<le> requested)"
proof -
  obtain db1 cur where seed: "seedConnectorSensitivity db conn
      \<lparr>default_sensitivity = requested, sensitivity_floor = manifestFloor\<rparr> now stamp = (db1, cur)"
    by fastforce
  show ?thesis
    using get_seed(2) [OF seed]
    by (auto simp: raise_unfold [OF seed] not_less)
qed

definition demo_db :: SensitivityDb where
  "demo_db = \<lparr>connector_sensitivity =
      Some [recordToRow \<lparr>connector_id = ''kizuki.imap'', source_key = ''a'', cs_default = Private,
        cs_floor = Personal, set_by = ByManifest, cs_at = ''2026-01-01''\<rparr>],
    source_event_bindings = None\<rparr>"

lemma demo_get:
  "getConnectorSensitivity demo_db c k =
    (if c = ''kizuki.imap'' \<and> k = ''a''
     then Some \<lparr>connector_id = ''kizuki.imap'', source_key = ''a'', cs_default = Private,
        cs_floor = Personal, set_by = ByManifest, cs_at = ''2026-01-01''\<rparr> else None)"
  by (auto simp: demo_db_def getConnectorSensitivity_def)

lemma demo_ordered: "defaults_above_floors demo_db"
  by (simp add: defaults_above_floors_def demo_get)

section \<open>Properties\<close>

text \<open>C1: no sequence of seeding, raising, grant and connection operations lowers a
  connection's floor or drops its row, and when every stored default starts at or above
  its floor it stays there.\<close>

theorem floors_never_lowered:
  assumes "defaults_above_floors db" and "getConnectorSensitivity db c k = Some r"
  shows "\<exists>r'. getConnectorSensitivity (foldl (sensitivityStep now) db ops) c k = Some r' \<and>
    cs_floor r \<le> cs_floor r' \<and> cs_floor r' \<le> cs_default r'"
  using sensitivity_table.run_progress [OF list_all_every assms(1), of now ops]
    sensitivity_table.run_inv [OF list_all_every assms(1), of now ops] assms(2)
  by (fastforce simp: floors_kept_def defaults_above_floors_def)

theorem floors_never_lowered_witness:
  "\<exists>r'. getConnectorSensitivity (foldl (sensitivityStep ''t'') demo_db
      [Raise (''kizuki.imap'', ''a'') Private Personal None,
       SetGrant (''kizuki.imap'', ''a'') (Some Public) None]) ''kizuki.imap'' ''a'' = Some r' \<and>
    Personal \<le> cs_floor r' \<and> cs_floor r' \<le> cs_default r'"
  using floors_never_lowered [OF demo_ordered, of "''kizuki.imap''" "''a''" _ "''t''"
    "[Raise (''kizuki.imap'', ''a'') Private Personal None,
      SetGrant (''kizuki.imap'', ''a'') (Some Public) None]"]
  by (simp add: demo_get)

text \<open>raising a floor succeeds exactly when the request is neither below the
  manifest's floor nor below the stored one, and a success leaves the requested floor as
  what the connection reads.\<close>

theorem raise_floor_outcome:
  "((\<exists>r. snd (raiseConnectorSensitivityFloor db conn requested manifestFloor now stamp) = Inr r) \<longleftrightarrow>
      manifestFloor \<le> requested \<and>
      (case getConnectorSensitivity db (fst conn) (snd conn) of
         None \<Rightarrow> True | Some current \<Rightarrow> cs_floor current \<le> requested)) \<and>
   (case raiseConnectorSensitivityFloor db conn requested manifestFloor now stamp of
      (db', Inl e) \<Rightarrow> True
    | (db', Inr r) \<Rightarrow> getConnectorSensitivity db' (fst conn) (snd conn) = Some r \<and> cs_floor r = requested)"
  using raise_accepts_iff [of db conn requested manifestFloor now stamp]
  by (auto split: prod.split sum.split dest: get_raise)

text \<open>C2: the label the sequential refinement of \<open>resolveSensitivity\<close> returns is the
  owner's own label when the owner overrides, and otherwise the strictest of floor,
  default, model label, event hint and owner label: no label but an override lowers it.\<close>

theorem resolution_is_maximum:
  "sensitivity (resolveSensitivity i) =
    (case (owner_override_in i, parseSensitivity (owner_label i)) of
       (True, Some owner) \<Rightarrow> owner
     | (_, owner) \<Rightarrow>
         max (sensitivityOrPrivate (connector_floor i))
          (max (sensitivityOrPrivate (connector_default i))
            (max (labelOrPublic (model_label i))
              (max (labelOrPublic (event_hint i)) (labelOrPublic (owner_label i))))))"
proof (cases "owner_override_in i \<and> parseSensitivity (owner_label i) \<noteq> None")
  case True
  then show ?thesis by (auto simp: resolveSensitivity_def)
next
  case False
  then show ?thesis
    using resolve_without_override [of i] by (auto split: option.split bool.split)
qed

text \<open>C13: without an owner override a claim's label is at least the floor and the
  default of the policy of every event it rests on, at least the model's label, and
  private when it rests on no event.\<close>

theorem claim_label_covers_events:
  assumes "\<not> lc_owner_override i \<or> parseSensitivity (lc_owner_label i) = None"
  shows "(\<forall>e\<in>set (lc_events i).
      max (sensitivity_floor (eventPolicy db e)) (default_sensitivity (eventPolicy db e))
        \<le> sensitivity (labelClaimSensitivity db i)) \<and>
    labelOrPublic (lc_model_label i) \<le> sensitivity (labelClaimSensitivity db i) \<and>
    (lc_events i = [] \<longrightarrow> sensitivity (labelClaimSensitivity db i) = Private)"
  using labelClaim_sensitivity [OF assms] by auto

theorem claim_label_covers_events_witness:
  "let i = \<lparr>lc_events = [(''e1'', ''kizuki.imap''), (''e2'', ''kizuki.import-pocket'')],
        lc_event_hints = [Str ''public''], lc_model_label = Str ''public'',
        lc_owner_label = Undefined, lc_owner_override = False\<rparr>
   in Private \<le> sensitivity (labelClaimSensitivity demo_db i)"
  using claim_label_covers_events [of "\<lparr>lc_events = [(''e1'', ''kizuki.imap''), (''e2'', ''kizuki.import-pocket'')],
        lc_event_hints = [Str ''public''], lc_model_label = Str ''public'',
        lc_owner_label = Undefined, lc_owner_override = False\<rparr>" demo_db]
  by (simp add: eventPolicy_def demo_db_def connectorSensitivityFor_def recordToRow_def rowToRecord_def
      del: labelText.simps)

end
