(* ===== verification/Rfc3339.thy ===== *)
theory Rfc3339
  imports Js_Value "HOL-Library.Product_Lexorder"
begin

text \<open>
  Timestamps: \<open>packages/core/src/util/time.ts\<close> (validation and the canonical UTC
  spelling) and \<open>packages/core/src/agents/time.ts\<close> (instants and their comparison).

  The regular expression is a parse at fixed positions: its optional fraction and its
  zone start with different characters, so it matches in one way at most.  The calendar
  arithmetic of \<open>Date\<close> is the day count of the language standard, with the year found
  from a day by one correction of the mean-year estimate.
\<close>

section \<open>The pattern\<close>

record Rfc3339Match =
  m_year :: string
  m_month :: string
  m_day :: string
  m_hour :: string
  m_minute :: string
  m_second :: string
  m_fraction :: "string option"
  m_offset :: "(char \<times> string \<times> string) option"

definition digits :: "nat \<Rightarrow> string \<Rightarrow> bool" where
  "digits n s \<longleftrightarrow> length s = n \<and> (\<forall>c\<in>set s. isDigit c)"

text \<open>\<open>(?:([Zz])|([+-])(\d{2}):(\d{2}))$\<close>: \<open>Some None\<close> is the letter.\<close>

definition zoneOf :: "string \<Rightarrow> (char \<times> string \<times> string) option option" where
  "zoneOf s =
     (if s = ''Z'' \<or> s = ''z'' then Some None
      else
        (case s of
           [sign, h1, h2, colon, m1, m2] \<Rightarrow>
             if (sign = CHR ''+'' \<or> sign = CHR ''-'') \<and> digits 2 [h1, h2] \<and>
                colon = CHR '':'' \<and> digits 2 [m1, m2]
             then Some (Some (sign, [h1, h2], [m1, m2])) else None
         | _ \<Rightarrow> None))"

text \<open>\<open>(?:\.(\d+))?\<close> and what follows it.\<close>

definition fractionOf :: "string \<Rightarrow> (string option \<times> string) option" where
  "fractionOf s =
     (case s of
        CHR ''.'' # rest \<Rightarrow>
          (let ds = takeWhile isDigit rest
           in if ds = [] then None else Some (Some ds, dropWhile isDigit rest))
      | _ \<Rightarrow> Some (None, s))"

definition RFC3339_exec :: "string \<Rightarrow> Rfc3339Match option" where
  "RFC3339_exec s =
     (let yy = take 4 s; mo = take 2 (drop 5 s); dd = take 2 (drop 8 s);
          hh = take 2 (drop 11 s); mi = take 2 (drop 14 s); ss = take 2 (drop 17 s)
      in if 19 \<le> length s \<and> digits 4 yy \<and> digits 2 mo \<and> digits 2 dd \<and>
            digits 2 hh \<and> digits 2 mi \<and> digits 2 ss \<and>
            s ! 4 = CHR ''-'' \<and> s ! 7 = CHR ''-'' \<and>
            (s ! 10 = CHR ''T'' \<or> s ! 10 = CHR ''t'') \<and>
            s ! 13 = CHR '':'' \<and> s ! 16 = CHR '':''
         then
           (case fractionOf (drop 19 s) of
              None \<Rightarrow> None
            | Some (fraction, zone) \<Rightarrow>
                (case zoneOf zone of
                   None \<Rightarrow> None
                 | Some offset \<Rightarrow>
                     Some \<lparr>m_year = yy, m_month = mo, m_day = dd, m_hour = hh, m_minute = mi,
                           m_second = ss, m_fraction = fraction, m_offset = offset\<rparr>))
         else None)"

section \<open>Validation\<close>

definition RFC3339_MAX_FRACTION_DIGITS :: nat where
  "RFC3339_MAX_FRACTION_DIGITS = 9"

definition daysInMonth :: "int \<Rightarrow> int \<Rightarrow> int" where
  "daysInMonth year month =
     (if month = 2 then
        (let leap = (year mod 4 = 0 \<and> year mod 100 \<noteq> 0) \<or> year mod 400 = 0
         in if leap then 29 else 28)
      else if month = 4 \<or> month = 6 \<or> month = 9 \<or> month = 11 then 30 else 31)"

abbreviation number :: "string \<Rightarrow> int" where
  "number s \<equiv> int (digitsVal s)"

definition validMatch :: "Rfc3339Match \<Rightarrow> bool" where
  "validMatch m =
     (let year = number (m_year m); month = number (m_month m); day = number (m_day m);
          hour = number (m_hour m); minute = number (m_minute m); second = number (m_second m)
      in if year < 1 then False
         else if month < 1 \<or> month > 12 then False
         else if day < 1 \<or> day > daysInMonth year month then False
         else if hour > 23 then False
         else if minute > 59 then False
         else if second > 60 \<or> (second = 60 \<and> minute \<noteq> 59) then False
         else if length (case m_fraction m of None \<Rightarrow> [] | Some f \<Rightarrow> f) > RFC3339_MAX_FRACTION_DIGITS
           then False
         else
           (case m_offset m of
              None \<Rightarrow> True
            | Some (sign, offsetHour, offsetMinute) \<Rightarrow>
                if number offsetHour > 23 then False
                else if number offsetMinute > 59 then False
                else True))"

fun isRfc3339 :: "js \<Rightarrow> bool" where
  "isRfc3339 (Str s) =
     (case RFC3339_exec s of None \<Rightarrow> False | Some m \<Rightarrow> validMatch m)"
| "isRfc3339 v = False"

section \<open>The calendar of \<open>Date\<close>\<close>

text \<open>The day on which a year starts, counted from 1970-01-01.\<close>

definition dayFromYear :: "int \<Rightarrow> int" where
  "dayFromYear y =
     365 * (y - 1970) + (y - 1969) div 4 - (y - 1901) div 100 + (y - 1601) div 400"

definition yearFromDay :: "int \<Rightarrow> int" where
  "yearFromDay d =
     (let a = 1970 + (400 * d) div 146097
      in if dayFromYear (a + 1) \<le> d then a + 1
         else if dayFromYear a \<le> d then a else a - 1)"

definition leapDay :: "int \<Rightarrow> int" where
  "leapDay y = (if (y mod 4 = 0 \<and> y mod 100 \<noteq> 0) \<or> y mod 400 = 0 then 1 else 0)"

text \<open>The days of a year before its months: the table of the standard, months from 1.\<close>

definition daysBeforeMonth :: "int \<Rightarrow> int \<Rightarrow> int" where
  "daysBeforeMonth y m =
     (if m \<le> 1 then 0
      else if m = 2 then 31
      else leapDay y +
        (if m = 3 then 59 else if m = 4 then 90 else if m = 5 then 120 else if m = 6 then 151
         else if m = 7 then 181 else if m = 8 then 212 else if m = 9 then 243
         else if m = 10 then 273 else if m = 11 then 304 else if m = 12 then 334 else 365))"

definition dayFromDate :: "int \<Rightarrow> int \<Rightarrow> int \<Rightarrow> int" where
  "dayFromDate y m d = dayFromYear y + daysBeforeMonth y m + d - 1"

definition monthFromDoy :: "int \<Rightarrow> int \<Rightarrow> int" where
  "monthFromDoy y doy =
     (if doy < 31 then 1
      else if doy < 59 + leapDay y then 2 else if doy < 90 + leapDay y then 3
      else if doy < 120 + leapDay y then 4 else if doy < 151 + leapDay y then 5
      else if doy < 181 + leapDay y then 6 else if doy < 212 + leapDay y then 7
      else if doy < 243 + leapDay y then 8 else if doy < 273 + leapDay y then 9
      else if doy < 304 + leapDay y then 10 else if doy < 334 + leapDay y then 11 else 12)"

text \<open>\<open>getUTCFullYear\<close>, \<open>getUTCMonth() + 1\<close> and \<open>getUTCDate\<close> of a day.\<close>

definition civilFromDay :: "int \<Rightarrow> int \<times> int \<times> int" where
  "civilFromDay day =
     (let y = yearFromDay day; doy = day - dayFromYear y; m = monthFromDoy y doy
      in (y, m, doy - daysBeforeMonth y m + 1))"

section \<open>The year of a day\<close>

lemma div_step:
  fixes x n :: int
  assumes "0 < n"
  shows "(x + 1) div n = x div n + (if (x + 1) mod n = 0 then 1 else 0)"
proof -
  define q r where "q = x div n" and "r = x mod n"
  have x: "x = n * q + r" "0 \<le> r" "r < n"
    using assms by (simp_all add: q_def r_def)
  show ?thesis
  proof (cases "r + 1 < n")
    case True
    then have "(x + 1) div n = q" and "(x + 1) mod n = r + 1"
      using x by (auto intro!: int_div_pos_eq int_mod_pos_eq)
    then show ?thesis using x(2) by (simp add: q_def)
  next
    case False
    then have "x + 1 = n * (q + 1)" using x by (simp add: algebra_simps)
    then show ?thesis using assms by (simp add: q_def)
  qed
qed

lemma leap_combine:
  fixes a b c y :: int
  assumes "a' = a + (if P then 1 else 0)" "b' = b + (if Q then 1 else 0)"
    "c' = c + (if R then 1 else 0)" "R \<Longrightarrow> Q" "Q \<Longrightarrow> P"
  shows "365 * (y + 1 - 1970) + a' - b' + c' =
    365 * (y - 1970) + a - b + c + 365 + (if (P \<and> \<not> Q) \<or> R then 1 else 0)"
  using assms by auto

lemma dayFromYear_Suc: "dayFromYear (y + 1) = dayFromYear y + 365 + leapDay y"
proof -
  have "(y + 1 - 1969) div 4 = (y - 1969) div 4 + (if y mod 4 = 0 then 1 else 0)"
    using div_step [of 4 "y - 1969"] by (simp add: algebra_simps) presburger
  moreover have "(y + 1 - 1901) div 100 = (y - 1901) div 100 + (if y mod 100 = 0 then 1 else 0)"
    using div_step [of 100 "y - 1901"] mod_mult_self2 [of "y - 1900" 100 19]
    by (simp add: algebra_simps)
  moreover have "(y + 1 - 1601) div 400 = (y - 1601) div 400 + (if y mod 400 = 0 then 1 else 0)"
    using div_step [of 400 "y - 1601"] mod_mult_self2 [of "y - 1600" 400 4]
    by (simp add: algebra_simps)
  moreover have "y mod 400 = 0 \<Longrightarrow> y mod 100 = 0" and "y mod 100 = 0 \<Longrightarrow> y mod 4 = 0"
    by presburger+
  ultimately show ?thesis
    unfolding dayFromYear_def leapDay_def by (rule leap_combine)
qed

lemma leapDay_range: "0 \<le> leapDay y" "leapDay y \<le> 1"
  by (simp_all add: leapDay_def)

lemma dayFromYear_mono: "x \<le> y \<Longrightarrow> dayFromYear x + 365 * (y - x) \<le> dayFromYear y"
proof (induction y rule: int_ge_induct)
  case (step y)
  then show ?case
    using dayFromYear_Suc [of y] leapDay_range [of y] by (simp add: algebra_simps)
qed simp

lemma yearFromDay_bounds:
  "dayFromYear (yearFromDay d) \<le> d" "d < dayFromYear (yearFromDay d + 1)"
proof -
  define a where "a = 1970 + (400 * d) div 146097"
  have est: "146097 * (a - 1970) \<le> 400 * d" "400 * d < 146097 * (a - 1970) + 146097"
    using pos_mod_bound [of 146097 "400 * d"] pos_mod_sign [of 146097 "400 * d"]
      div_mult_mod_eq [of "400 * d" 146097] by (simp_all add: a_def)
  have b: "n * ((z :: int) div n) \<le> z" "z < n * (z div n) + n" if "0 < n" for n z
    using that pos_mod_bound [of n z] pos_mod_sign [of n z] mult_div_mod_eq [of n z] by linarith+
  have rough: "146097 * (y - 1970) - 400 * 2 \<le> 400 * dayFromYear y"
      "400 * dayFromYear y \<le> 146097 * (y - 1970) + 400 * 2" for y
    using b [of 4 "y - 1969"] b [of 100 "y - 1901"] b [of 400 "y - 1601"]
    unfolding dayFromYear_def by (simp_all add: algebra_simps)
  have "dayFromYear (a - 1) \<le> d"
    using rough [of "a - 1"] est by (simp add: algebra_simps)
  moreover have "d < dayFromYear (a + 2)"
    using rough [of "a + 2"] est by (simp add: algebra_simps)
  ultimately show "dayFromYear (yearFromDay d) \<le> d" "d < dayFromYear (yearFromDay d + 1)"
    by (auto simp: yearFromDay_def Let_def a_def [symmetric] add.assoc)
qed

lemma yearFromDay_unique:
  assumes "dayFromYear y \<le> d" and "d < dayFromYear (y + 1)"
  shows "yearFromDay d = y"
proof (rule ccontr)
  assume "yearFromDay d \<noteq> y"
  then consider "yearFromDay d + 1 \<le> y" | "y + 1 \<le> yearFromDay d" by linarith
  then show False
    using dayFromYear_mono [of "yearFromDay d + 1" y] dayFromYear_mono [of "y + 1" "yearFromDay d"]
      yearFromDay_bounds [of d] assms
    by cases auto
qed

lemma yearFromDay_mono: "d \<le> e \<Longrightarrow> yearFromDay d \<le> yearFromDay e"
proof (rule ccontr)
  assume "d \<le> e" "\<not> yearFromDay d \<le> yearFromDay e"
  then have "yearFromDay e + 1 \<le> yearFromDay d" by simp
  with dayFromYear_mono [OF this] have "dayFromYear (yearFromDay e + 1) \<le> dayFromYear (yearFromDay d)"
    by simp
  then show False
    using yearFromDay_bounds(1) [of d] yearFromDay_bounds(2) [of e] \<open>d \<le> e\<close> by simp
qed

section \<open>The date of a day\<close>

lemma daysInMonth_leap:
  "daysInMonth y m =
    (if m = 2 then 28 + leapDay y else if m = 4 \<or> m = 6 \<or> m = 9 \<or> m = 11 then 30 else 31)"
  by (simp add: daysInMonth_def leapDay_def)

lemma month_cases:
  fixes m :: int
  assumes "1 \<le> m" "m \<le> 12"
  obtains "m = 1" | "m = 2" | "m = 3" | "m = 4" | "m = 5" | "m = 6" | "m = 7" | "m = 8"
    | "m = 9" | "m = 10" | "m = 11" | "m = 12"
proof -
  have "m = 1 \<or> m = 2 \<or> m = 3 \<or> m = 4 \<or> m = 5 \<or> m = 6 \<or> m = 7 \<or> m = 8 \<or> m = 9 \<or> m = 10 \<or>
      m = 11 \<or> m = 12"
    using assms by presburger
  then show ?thesis using that by blast
qed

lemma daysBeforeMonth_Suc:
  assumes "1 \<le> m" "m \<le> 12"
  shows "daysBeforeMonth y (m + 1) = daysBeforeMonth y m + daysInMonth y m"
  using assms by (rule month_cases) (simp_all add: daysBeforeMonth_def daysInMonth_leap)

lemma daysBeforeMonth_range:
  assumes "1 \<le> m" "m \<le> 12"
  shows "0 \<le> daysBeforeMonth y m" "daysBeforeMonth y m + daysInMonth y m \<le> 365 + leapDay y"
proof -
  show "0 \<le> daysBeforeMonth y m"
    using leapDay_range [of y] by (simp add: daysBeforeMonth_def)
  show "daysBeforeMonth y m + daysInMonth y m \<le> 365 + leapDay y"
    using assms by (rule month_cases)
      (use leapDay_range [of y] in \<open>simp_all add: daysBeforeMonth_def daysInMonth_leap\<close>)
qed

lemma monthFromDoy_cases:
  assumes "0 \<le> doy" "doy < 365 + L" "0 \<le> L" "L \<le> 1" "leapDay y = L"
  shows "1 \<le> monthFromDoy y doy \<and> monthFromDoy y doy \<le> 12 \<and>
    daysBeforeMonth y (monthFromDoy y doy) \<le> doy \<and>
    doy < daysBeforeMonth y (monthFromDoy y doy) + daysInMonth y (monthFromDoy y doy)"
  using assms(1-4)
  unfolding monthFromDoy_def daysBeforeMonth_def daysInMonth_leap assms(5)
  by (simp split: if_split)

lemma monthFromDoy_bounds:
  assumes "0 \<le> doy" "doy < 365 + leapDay y"
  shows "1 \<le> monthFromDoy y doy" "monthFromDoy y doy \<le> 12"
    "daysBeforeMonth y (monthFromDoy y doy) \<le> doy"
    "doy < daysBeforeMonth y (monthFromDoy y doy) + daysInMonth y (monthFromDoy y doy)"
  using monthFromDoy_cases [OF assms leapDay_range refl] by auto

lemma monthFromDoy_unique:
  assumes "1 \<le> m" "m \<le> 12" "1 \<le> d" "d \<le> daysInMonth y m"
  shows "monthFromDoy y (daysBeforeMonth y m + d - 1) = m"
  using assms(1,2) by (rule month_cases)
    (use assms(3,4) leapDay_range [of y] in
      \<open>simp_all add: monthFromDoy_def daysBeforeMonth_def daysInMonth_leap\<close>)

lemma monthFromDoy_mono: "a \<le> b \<Longrightarrow> monthFromDoy y a \<le> monthFromDoy y b"
  using leapDay_range [of y] by (simp add: monthFromDoy_def)

lemma doy_range: "0 \<le> d - dayFromYear (yearFromDay d)"
    "d - dayFromYear (yearFromDay d) < 365 + leapDay (yearFromDay d)"
  using yearFromDay_bounds [of d] by (simp_all add: dayFromYear_Suc)

definition validDate :: "int \<Rightarrow> int \<Rightarrow> int \<Rightarrow> bool" where
  "validDate y m d \<longleftrightarrow> 1 \<le> m \<and> m \<le> 12 \<and> 1 \<le> d \<and> d \<le> daysInMonth y m"

lemma civilFromDay_dayFromDate:
  assumes "validDate y m d"
  shows "civilFromDay (dayFromDate y m d) = (y, m, d)"
proof -
  have "daysBeforeMonth y m + d \<le> 365 + leapDay y" and "0 \<le> daysBeforeMonth y m"
    using assms daysBeforeMonth_range [of m y] by (auto simp: validDate_def)
  then have "yearFromDay (dayFromDate y m d) = y"
    using assms
    by (intro yearFromDay_unique) (auto simp: dayFromDate_def validDate_def dayFromYear_Suc)
  then show ?thesis
    using assms monthFromDoy_unique [of m d y]
    by (simp add: civilFromDay_def Let_def dayFromDate_def validDate_def algebra_simps)
qed

lemma dayFromDate_civilFromDay:
  assumes "civilFromDay day = (y, m, d)"
  shows "dayFromDate y m d = day" "validDate y m d"
  using assms monthFromDoy_bounds [OF doy_range [of day]]
  by (auto simp: civilFromDay_def Let_def dayFromDate_def validDate_def)

lemma civilFromDay_less:
  assumes "day < day'"
  shows "civilFromDay day < civilFromDay day'"
proof -
  obtain y m d where c: "civilFromDay day = (y, m, d)" by (metis prod_cases3)
  obtain y' m' d' where c': "civilFromDay day' = (y', m', d')" by (metis prod_cases3)
  have y: "y = yearFromDay day" "y' = yearFromDay day'"
    using c c' by (auto simp: civilFromDay_def Let_def)
  then have "y \<le> y'" using yearFromDay_mono assms by simp
  moreover have "m \<le> m'" if "y = y'"
    using c c' assms that monthFromDoy_mono by (auto simp: civilFromDay_def Let_def y)
  moreover have "d < d'" if "y = y'" "m = m'"
    using dayFromDate_civilFromDay(1) [OF c] dayFromDate_civilFromDay(1) [OF c'] assms that
    by (simp add: dayFromDate_def)
  ultimately show ?thesis by (auto simp: c c' less_le)
qed

section \<open>Instants\<close>

record Instant =
  epochSecond :: int
  fraction :: string

datatype TimeError = MustBeRfc3339 string | CouldNotBeNormalized string

text \<open>The epoch second of the stated fields; second 60 stays in its minute.\<close>

definition epochSecondOf :: "Rfc3339Match \<Rightarrow> int" where
  "epochSecondOf m =
     (let date = 86400 * dayFromDate (number (m_year m)) (number (m_month m)) (number (m_day m)) +
                 3600 * number (m_hour m) + 60 * number (m_minute m) +
                 min (number (m_second m)) 59
      in case m_offset m of
           None \<Rightarrow> date
         | Some (sign, h, mi) \<Rightarrow>
             (let offsetSeconds = number h * 3600 + number mi * 60
              in if sign = CHR ''+'' then date - offsetSeconds
                 else if sign = CHR ''-'' then date + offsetSeconds
                 else date))"

definition fractionText :: "Rfc3339Match \<Rightarrow> string" where
  "fractionText m = (case m_fraction m of None \<Rightarrow> [] | Some f \<Rightarrow> f)"

definition instant :: "string \<Rightarrow> string \<Rightarrow> TimeError + Instant" where
  "instant v fld =
     (if \<not> isRfc3339 (Str v) then Inl (MustBeRfc3339 fld)
      else
        (case RFC3339_exec v of
           None \<Rightarrow> Inl (CouldNotBeNormalized fld)
         | Some m \<Rightarrow>
             Inr \<lparr>epochSecond = epochSecondOf m,
                  fraction = (if number (m_second m) = 60 then replicate 9 (CHR ''9'')
                              else fractionText m)\<rparr>))"

definition padEnd :: "string \<Rightarrow> nat \<Rightarrow> string" where
  "padEnd s n = s @ replicate (n - length s) (CHR ''0'')"

definition rfc3339Instant :: "string \<Rightarrow> string \<Rightarrow> TimeError + int \<times> int" where
  "rfc3339Instant v fld =
     andThen (instant v fld) (\<lambda>parsed.
       Inr (epochSecond parsed, number (take 9 (fraction parsed @ ''000000000''))))"

definition compareRfc3339 ::
  "string \<Rightarrow> string \<Rightarrow> string \<Rightarrow> string \<Rightarrow> TimeError + int" where
  "compareRfc3339 left leftField right rightField =
     andThen (instant left leftField) (\<lambda>a.
     andThen (instant right rightField) (\<lambda>b.
       if epochSecond a \<noteq> epochSecond b
       then Inr (if epochSecond a < epochSecond b then -1 else 1)
       else
         (let len = max (length (fraction a)) (length (fraction b));
              aFraction = padEnd (fraction a) len;
              bFraction = padEnd (fraction b) len
          in if aFraction = bFraction then Inr 0
             else Inr (if aFraction < bFraction then -1 else 1))))"

definition rfc3339Millis :: "string \<Rightarrow> string \<Rightarrow> TimeError + int" where
  "rfc3339Millis v fld =
     andThen (instant v fld) (\<lambda>parsed.
       Inr (epochSecond parsed * 1000 + number (take 3 (fraction parsed @ ''000''))))"

section \<open>The canonical UTC spelling\<close>

definition canonicalText :: "int \<times> int \<times> int \<Rightarrow> int \<times> int \<times> int \<Rightarrow> int \<Rightarrow> string" where
  "canonicalText date time nanos =
     (case date of (y, mo, d) \<Rightarrow>
      case time of (h, mi, sec) \<Rightarrow>
        fixedDigits 4 (nat y) @ ''-'' @ fixedDigits 2 (nat mo) @ ''-'' @ fixedDigits 2 (nat d) @
        ''T'' @ fixedDigits 2 (nat h) @ '':'' @ fixedDigits 2 (nat mi) @ '':'' @
        fixedDigits 2 (nat sec) @ ''.'' @ fixedDigits 9 (nat nanos) @ ''Z'')"

text \<open>\<open>getUTCHours\<close>, \<open>getUTCMinutes\<close> and \<open>getUTCSeconds\<close> of an epoch second.\<close>

definition timeOfDay :: "int \<Rightarrow> int \<times> int \<times> int" where
  "timeOfDay epoch =
     (let s = epoch mod 86400 in (s div 3600, s mod 3600 div 60, s mod 60))"

definition canonicalizeRfc3339Utc :: "string \<Rightarrow> string option" where
  "canonicalizeRfc3339Utc s =
     (if \<not> isRfc3339 (Str s) then None
      else
        (case RFC3339_exec s of
           None \<Rightarrow> None
         | Some m \<Rightarrow>
             (let epochSecond = epochSecondOf m;
                  nanos = (if number (m_second m) = 60 then 999999999
                           else number (take 9 (fractionText m @ ''000000000'')));
                  utc = civilFromDay (epochSecond div 86400);
                  year = fst utc
              in if year < 1 \<or> year > 9999 then None
                 else Some (canonicalText utc (timeOfDay epochSecond) nanos))))"

text \<open>The instant of a valid timestamp in nanoseconds: what its comparison looks at.\<close>

definition nanosOf :: "string \<Rightarrow> int" where
  "nanosOf s =
     (case rfc3339Instant s [] of Inl e \<Rightarrow> 0 | Inr (sec, n) \<Rightarrow> sec * 1000000000 + n)"

section \<open>Digits in order\<close>

lemma digitsVal_Cons: "digitsVal (c # s) = digitVal c * 10 ^ length s + digitsVal s"
  using digitsVal_append [of "[c]" s] digitsVal_snoc [of "[]" c] by simp

lemma digitVal_less_iff:
  assumes "isDigit a" "isDigit b"
  shows "a < b \<longleftrightarrow> digitVal a < digitVal b"
  using assms by (auto simp: isDigit_iff digitVal_def less_char_def)

lemma digits_less_iff:
  assumes "length s = length t" "\<forall>c\<in>set s. isDigit c" "\<forall>c\<in>set t. isDigit c"
  shows "s < t \<longleftrightarrow> digitsVal s < digitsVal t"
  using assms
proof (induction s t rule: list_induct2)
  case (Cons a s b t)
  have bound: "digitsVal s < 10 ^ length t" "digitsVal t < 10 ^ length t"
    using Cons digitsVal_bound [of s] digitsVal_bound [of t] by auto
  consider "digitVal a < digitVal b" | "digitVal b < digitVal a" | "a = b"
    using Cons.prems digitVal_less_iff [of a b] digitVal_less_iff [of b a] by fastforce
  then show ?case
  proof cases
    case 1
    then have "(digitVal a + 1) * 10 ^ length t \<le> digitVal b * 10 ^ length t"
      by (intro mult_right_mono) auto
    with 1 bound Cons show ?thesis by (simp add: digitsVal_Cons digitVal_less_iff)
  next
    case 2
    then have "(digitVal b + 1) * 10 ^ length t \<le> digitVal a * 10 ^ length t"
      by (intro mult_right_mono) auto
    with 2 bound Cons show ?thesis by (auto simp: digitsVal_Cons digitVal_less_iff)
  next
    case 3
    with Cons show ?thesis by (simp add: digitsVal_Cons)
  qed
qed simp

lemma digits_eq_iff:
  assumes "length s = length t" "\<forall>c\<in>set s. isDigit c" "\<forall>c\<in>set t. isDigit c"
  shows "s = t \<longleftrightarrow> digitsVal s = digitsVal t"
  using digits_less_iff [OF assms] digits_less_iff [OF assms(1) [symmetric] assms(3,2)]
  by (cases rule: linorder_cases [of s t]) auto

lemma fixedDigits_less:
  assumes "m < 10 ^ w" "n < 10 ^ w"
  shows "fixedDigits w m < fixedDigits w n \<longleftrightarrow> m < n"
  using assms digits_less_iff [of "fixedDigits w m" "fixedDigits w n"]
  by (simp add: digitsVal_fixedDigits isDigit_fixedDigits)

lemma fixedDigits_eq:
  assumes "m < 10 ^ w" "n < 10 ^ w"
  shows "fixedDigits w m = fixedDigits w n \<longleftrightarrow> m = n"
  using assms by (metis digitsVal_fixedDigits mod_less)

lemma fixedDigits_isDigit [simp]: "c \<in> set (fixedDigits w n) \<Longrightarrow> isDigit c"
  using isDigit_fixedDigits by blast

lemma digits_fixedDigits [simp]: "digits w (fixedDigits w n)"
  by (simp add: digits_def)

section \<open>Reading a canonical text\<close>

lemma not_isDigit_punctuation [simp]:
  "\<not> isDigit (CHR ''Z'')" "\<not> isDigit (CHR ''+'')" "\<not> isDigit (CHR ''-'')" "\<not> isDigit (CHR ''.'')"
  by (simp_all add: isDigit_def in_range_def)

lemma exec_canonicalText:
  "RFC3339_exec (canonicalText (y, mo, d) (h, mi, sec) n) =
    Some \<lparr>m_year = fixedDigits 4 (nat y), m_month = fixedDigits 2 (nat mo),
      m_day = fixedDigits 2 (nat d), m_hour = fixedDigits 2 (nat h),
      m_minute = fixedDigits 2 (nat mi), m_second = fixedDigits 2 (nat sec),
      m_fraction = Some (fixedDigits 9 (nat n)), m_offset = None\<rparr>"
proof -
  have "takeWhile isDigit (fixedDigits 9 (nat n) @ ''Z'') = fixedDigits 9 (nat n)"
    by (subst takeWhile_append2) simp_all
  moreover have "dropWhile isDigit (fixedDigits 9 (nat n) @ ''Z'') = ''Z''"
    by (subst dropWhile_append2) simp_all
  moreover have "fixedDigits 9 (nat n) \<noteq> []"
    using length_fixedDigits [of 9 "nat n"] by (metis list.size(3) zero_neq_numeral)
  ultimately have "fractionOf (CHR ''.'' # fixedDigits 9 (nat n) @ ''Z'') =
      Some (Some (fixedDigits 9 (nat n)), ''Z'')"
    by (simp add: fractionOf_def)
  then show ?thesis
    by (simp add: RFC3339_exec_def canonicalText_def zoneOf_def nth_append)
qed

text \<open>The fields of a canonical text, and what they stand for.\<close>

definition goodFields :: "int \<times> int \<times> int \<Rightarrow> int \<times> int \<times> int \<Rightarrow> int \<Rightarrow> bool" where
  "goodFields date time n \<longleftrightarrow>
     (case date of (y, mo, d) \<Rightarrow> case time of (h, mi, sec) \<Rightarrow>
        1 \<le> y \<and> y \<le> 9999 \<and> validDate y mo d \<and> 0 \<le> h \<and> h \<le> 23 \<and> 0 \<le> mi \<and> mi \<le> 59 \<and>
        0 \<le> sec \<and> sec \<le> 59 \<and> 0 \<le> n \<and> n \<le> 999999999)"

lemma number_fixedDigits [simp]:
  "0 \<le> k \<Longrightarrow> k < 10 ^ w \<Longrightarrow> number (fixedDigits w (nat k)) = k"
proof -
  assume k: "0 \<le> k" "k < 10 ^ w"
  then have "nat k < 10 ^ w" by (simp add: nat_less_iff)
  with k show ?thesis by (simp add: digitsVal_fixedDigits)
qed

lemma daysInMonth_le: "daysInMonth y m \<le> 31"
  by (simp add: daysInMonth_leap leapDay_def)

lemma number_good:
  assumes "goodFields (y, mo, d) (h, mi, sec) n"
  shows "number (fixedDigits 4 (nat y)) = y" "number (fixedDigits 2 (nat mo)) = mo"
    "number (fixedDigits 2 (nat d)) = d" "number (fixedDigits 2 (nat h)) = h"
    "number (fixedDigits 2 (nat mi)) = mi" "number (fixedDigits 2 (nat sec)) = sec"
    "number (fixedDigits 9 (nat n)) = n"
  using assms daysInMonth_le [of y mo] by (simp_all add: goodFields_def validDate_def)

lemma canonicalText_valid:
  assumes "goodFields (y, mo, d) (h, mi, sec) n"
  shows "isRfc3339 (Str (canonicalText (y, mo, d) (h, mi, sec) n))"
  using assms
  by (simp add: exec_canonicalText validMatch_def number_good [OF assms] Let_def goodFields_def
      validDate_def RFC3339_MAX_FRACTION_DIGITS_def)

lemma instant_canonicalText:
  assumes "goodFields (y, mo, d) (h, mi, sec) n"
  shows "instant (canonicalText (y, mo, d) (h, mi, sec) n) f =
    Inr \<lparr>epochSecond = 86400 * dayFromDate y mo d + 3600 * h + 60 * mi + sec,
         fraction = fixedDigits 9 (nat n)\<rparr>"
  using assms canonicalText_valid [OF assms]
  by (auto simp: instant_def exec_canonicalText epochSecondOf_def number_good [OF assms] Let_def
      goodFields_def fractionText_def)

lemma timeOfDay_good:
  assumes "timeOfDay e = (h, mi, sec)"
  shows "0 \<le> h" "h \<le> 23" "0 \<le> mi" "mi \<le> 59" "0 \<le> sec" "sec \<le> 59"
    "3600 * h + 60 * mi + sec = e mod 86400"
proof -
  define s where "s = e mod 86400"
  have s: "0 \<le> s" "s < 86400" by (simp_all add: s_def)
  have t: "h = s div 3600" "mi = s mod 3600 div 60" "sec = s mod 60"
    using assms by (auto simp: timeOfDay_def Let_def s_def)
  define r where "r = s mod 3600"
  have eqs: "s = 3600 * h + r" "0 \<le> r" "r < 3600"
    by (simp_all add: t r_def)
  have "sec = r mod 60" by (simp add: t r_def mod_mod_cancel)
  then have eqr: "r = 60 * mi + sec" "0 \<le> sec" "sec < 60"
    by (simp_all add: t r_def)
  show "0 \<le> h" "h \<le> 23" "0 \<le> mi" "mi \<le> 59" "0 \<le> sec" "sec \<le> 59"
    using eqs eqr s by linarith+
  show "3600 * h + 60 * mi + sec = e mod 86400"
    using eqs eqr by (simp add: s_def)
qed

section \<open>Canonical texts of instants\<close>

definition instantText :: "int \<Rightarrow> int \<Rightarrow> string" where
  "instantText e n = canonicalText (civilFromDay (e div 86400)) (timeOfDay e) n"

definition inYears :: "int \<Rightarrow> bool" where
  "inYears e \<longleftrightarrow> 1 \<le> fst (civilFromDay (e div 86400)) \<and> fst (civilFromDay (e div 86400)) \<le> 9999"

lemma instantText_fields:
  assumes "inYears e" "0 \<le> n" "n \<le> 999999999"
  obtains y mo d h mi sec where "civilFromDay (e div 86400) = (y, mo, d)"
    "timeOfDay e = (h, mi, sec)" "goodFields (y, mo, d) (h, mi, sec) n"
proof -
  obtain y mo d where c: "civilFromDay (e div 86400) = (y, mo, d)" by (metis prod_cases3)
  obtain h mi sec where t: "timeOfDay e = (h, mi, sec)" by (metis prod_cases3)
  have "goodFields (y, mo, d) (h, mi, sec) n"
    using assms timeOfDay_good [OF t] dayFromDate_civilFromDay(2) [OF c]
    by (simp add: goodFields_def inYears_def c)
  with c t show ?thesis by (rule that)
qed

lemma instantText_instant:
  assumes "inYears e" "0 \<le> n" "n \<le> 999999999"
  shows "instant (instantText e n) f = Inr \<lparr>epochSecond = e, fraction = fixedDigits 9 (nat n)\<rparr>"
    and "isRfc3339 (Str (instantText e n))"
proof -
  obtain y mo d h mi sec where f: "civilFromDay (e div 86400) = (y, mo, d)"
      "timeOfDay e = (h, mi, sec)" "goodFields (y, mo, d) (h, mi, sec) n"
    using assms by (rule instantText_fields)
  have "86400 * dayFromDate y mo d + (3600 * h + 60 * mi + sec) = e"
    using dayFromDate_civilFromDay(1) [OF f(1)] timeOfDay_good(7) [OF f(2)] by simp
  then show "instant (instantText e n) g = Inr \<lparr>epochSecond = e, fraction = fixedDigits 9 (nat n)\<rparr>" for g
    by (simp add: instantText_def f(1,2) instant_canonicalText [OF f(3)] add.assoc)
  show "isRfc3339 (Str (instantText e n))"
    using canonicalText_valid [OF f(3)] by (simp add: instantText_def f(1,2))
qed

lemma fixedDigits_int:
  fixes v v' :: int
  assumes "0 \<le> v" "v < 10 ^ w" "0 \<le> v'" "v' < 10 ^ w"
  shows "fixedDigits w (nat v) < fixedDigits w (nat v') \<longleftrightarrow> v < v'"
    and "fixedDigits w (nat v) = fixedDigits w (nat v') \<longleftrightarrow> v = v'"
proof -
  have "nat v < 10 ^ w" "nat v' < 10 ^ w" using assms by (simp_all add: nat_less_iff)
  with assms show "fixedDigits w (nat v) < fixedDigits w (nat v') \<longleftrightarrow> v < v'"
    and "fixedDigits w (nat v) = fixedDigits w (nat v') \<longleftrightarrow> v = v'"
    by (auto simp: fixedDigits_less fixedDigits_eq eq_nat_nat_iff)
qed

lemma less_pair: "(a, b) < (c, d) \<longleftrightarrow> a < c \<or> (a = c \<and> b < d)"
  for a c :: "'a :: linorder" and b d :: "'b :: linorder"
  by auto

lemma canonicalText_less:
  assumes "goodFields (y, mo, d) (h, mi, sec) n" "goodFields (y', mo', d') (h', mi', sec') n'"
  shows "canonicalText (y, mo, d) (h, mi, sec) n < canonicalText (y', mo', d') (h', mi', sec') n' \<longleftrightarrow>
    ((y, mo, d), (h, mi, sec), n) < ((y', mo', d'), (h', mi', sec'), n')"
proof -
  note b = assms(1)[unfolded goodFields_def validDate_def] assms(2)[unfolded goodFields_def validDate_def]
    daysInMonth_le [of y mo] daysInMonth_le [of y' mo']
  note parts = fixedDigits_int [of y 4 y'] fixedDigits_int [of n 9 n']
    fixedDigits_int [of mo 2 mo'] fixedDigits_int [of d 2 d'] fixedDigits_int [of h 2 h']
    fixedDigits_int [of mi 2 mi'] fixedDigits_int [of sec 2 sec']
  show ?thesis
    using b parts
    by (simp add: canonicalText_def append_less_same_length less_pair del: less_prod_simp) blast
qed

lemma instantText_less:
  assumes "inYears e" "0 \<le> n" "n \<le> 999999999" "inYears e'" "0 \<le> n'" "n' \<le> 999999999"
    and less: "e < e' \<or> (e = e' \<and> n < n')"
  shows "instantText e n < instantText e' n'"
proof -
  obtain y mo d h mi sec where f: "civilFromDay (e div 86400) = (y, mo, d)"
      "timeOfDay e = (h, mi, sec)" "goodFields (y, mo, d) (h, mi, sec) n"
    using assms(1-3) by (rule instantText_fields)
  obtain y' mo' d' h' mi' sec' where f': "civilFromDay (e' div 86400) = (y', mo', d')"
      "timeOfDay e' = (h', mi', sec')" "goodFields (y', mo', d') (h', mi', sec') n'"
    using assms(4-6) by (rule instantText_fields)
  have "((y, mo, d), (h, mi, sec), n) < ((y', mo', d'), (h', mi', sec'), n')"
  proof (cases "e div 86400 < e' div 86400")
    case True
    then show ?thesis using civilFromDay_less [OF True] by (simp add: f f')
  next
    case False
    then have day: "e div 86400 = e' div 86400"
      using less zdiv_mono1 [of e e' 86400] by auto
    then have date: "(y, mo, d) = (y', mo', d')" using f(1) f'(1) by simp
    show ?thesis
    proof (cases "e < e'")
      case True
      then have "e mod 86400 < e' mod 86400"
        using day by (metis add_less_cancel_left mult_div_mod_eq)
      then have "(h, mi, sec) < (h', mi', sec')"
        using timeOfDay_good [OF f(2)] timeOfDay_good [OF f'(2)] by auto
      with date show ?thesis by auto
    next
      case False
      with less have "e = e'" "n < n'" by auto
      then show ?thesis using date f(2) f'(2) by auto
    qed
  qed
  then show ?thesis
    by (simp add: instantText_def f(1,2) f'(1,2) canonicalText_less [OF f(3) f'(3)])
qed

section \<open>Comparison\<close>

lemma fractionOf_digits: "fractionOf s = Some (Some f, rest) \<Longrightarrow> \<forall>c\<in>set f. isDigit c"
  by (auto simp: fractionOf_def Let_def dest: set_takeWhileD
      split: list.splits char.splits bool.splits if_splits)

lemma exec_fraction_digits:
  assumes "RFC3339_exec s = Some m"
  shows "\<forall>c\<in>set (fractionText m). isDigit c"
proof -
  from assms obtain rest fr where "fractionOf (drop 19 s) = Some (fr, rest)" "m_fraction m = fr"
    by (auto simp: RFC3339_exec_def Let_def split: if_splits option.splits)
  then show ?thesis
    using fractionOf_digits by (cases fr) (auto simp: fractionText_def)
qed

lemma instant_unfold:
  "instant v f =
    (if isRfc3339 (Str v)
     then (let m = the (RFC3339_exec v)
           in Inr \<lparr>epochSecond = epochSecondOf m,
                   fraction = (if number (m_second m) = 60 then replicate 9 (CHR ''9'')
                               else fractionText m)\<rparr>)
     else Inl (MustBeRfc3339 f))"
  by (auto simp: instant_def split: option.splits)

lemma instant_fraction:
  assumes "instant v f = Inr p"
  shows "length (fraction p) \<le> 9" "\<forall>c\<in>set (fraction p). isDigit c"
proof -
  from assms obtain m where m: "RFC3339_exec v = Some m" "validMatch m"
      "fraction p = (if number (m_second m) = 60 then replicate 9 (CHR ''9'') else fractionText m)"
    by (auto simp: instant_def split: if_splits option.splits)
  have "length (fractionText m) \<le> 9"
    using m(2) by (auto simp: validMatch_def fractionText_def Let_def
        RFC3339_MAX_FRACTION_DIGITS_def split: if_splits)
  moreover have "isDigit (CHR ''9'')" by (simp add: isDigit_def in_range_def)
  ultimately show "length (fraction p) \<le> 9" "\<forall>c\<in>set (fraction p). isDigit c"
    using exec_fraction_digits [OF m(1)] by (auto simp: m(3))
qed

definition fractionNanos :: "string \<Rightarrow> int" where
  "fractionNanos f = number (take 9 (f @ ''000000000''))"

lemma isDigit_zero [simp]: "isDigit (CHR ''0'')"
  by (simp add: isDigit_def in_range_def)

lemma digitsVal_zeros: "digitsVal (s @ replicate k (CHR ''0'')) = digitsVal s * 10 ^ k"
proof (induction k)
  case (Suc k)
  have "digitVal (CHR ''0'') = 0" by (simp add: digitVal_def)
  then show ?case
    using digitsVal_snoc [of "s @ replicate k (CHR ''0'')" "CHR ''0''"] Suc
    by (simp add: replicate_append_same [symmetric])
qed simp

lemma fractionNanos_scaled:
  assumes "length f \<le> 9"
  shows "fractionNanos f = int (digitsVal f * 10 ^ (9 - length f))"
proof -
  have "''000000000'' = replicate 9 (CHR ''0'')" by (simp add: numeral_eq_Suc)
  then show ?thesis
    using assms digitsVal_zeros [of f "9 - length f"] by (simp add: fractionNanos_def take_append)
qed

lemma fractionNanos_range:
  assumes "length f \<le> 9" "\<forall>c\<in>set f. isDigit c"
  shows "0 \<le> fractionNanos f" "fractionNanos f \<le> 999999999"
proof -
  have "digitsVal f * 10 ^ (9 - length f) < 10 ^ length f * 10 ^ (9 - length f)"
    using digitsVal_bound [OF assms(2)] by simp
  also have "\<dots> = (10 :: nat) ^ 9" using assms(1) by (simp flip: power_add)
  finally show "0 \<le> fractionNanos f" "fractionNanos f \<le> 999999999"
    by (simp_all add: fractionNanos_scaled [OF assms(1)] flip: of_nat_mult of_nat_power)
qed

text \<open>Fractions padded to a common length compare as their nanoseconds do.\<close>

lemma padded_compare:
  assumes "length a \<le> 9" "\<forall>c\<in>set a. isDigit c" "length b \<le> 9" "\<forall>c\<in>set b. isDigit c"
    and k: "k = max (length a) (length b)"
  shows "padEnd a k < padEnd b k \<longleftrightarrow> fractionNanos a < fractionNanos b"
    and "padEnd a k = padEnd b k \<longleftrightarrow> fractionNanos a = fractionNanos b"
proof -
  have len: "length (padEnd a k) = k" "length (padEnd b k) = k" "k \<le> 9"
    using assms(1,3) by (auto simp: padEnd_def k)
  have dig: "\<forall>c\<in>set (padEnd a k). isDigit c" "\<forall>c\<in>set (padEnd b k). isDigit c"
    using assms(2,4) by (auto simp: padEnd_def)
  have scaled: "fractionNanos f = int (digitsVal (padEnd f k)) * 10 ^ (9 - k)"
    if "length f \<le> k" for f
  proof -
    have "(10 :: nat) ^ (9 - length f) = 10 ^ (k - length f) * 10 ^ (9 - k)"
      using that len(3) by (simp flip: power_add)
    then show ?thesis
      using that len(3) by (simp add: fractionNanos_scaled padEnd_def digitsVal_zeros)
  qed
  have "fractionNanos a = int (digitsVal (padEnd a k)) * 10 ^ (9 - k)"
    "fractionNanos b = int (digitsVal (padEnd b k)) * 10 ^ (9 - k)"
    by (simp_all add: scaled k)
  then show "padEnd a k < padEnd b k \<longleftrightarrow> fractionNanos a < fractionNanos b"
    and "padEnd a k = padEnd b k \<longleftrightarrow> fractionNanos a = fractionNanos b"
    using digits_less_iff [of "padEnd a k" "padEnd b k"] digits_eq_iff [of "padEnd a k" "padEnd b k"]
      len dig by simp_all
qed

lemma nanosOf_instant:
  assumes "instant v f = Inr p"
  shows "nanosOf v = epochSecond p * 1000000000 + fractionNanos (fraction p)"
proof -
  have "instant v [] = Inr p"
    using assms by (simp add: instant_unfold split: if_splits)
  then show ?thesis by (simp add: nanosOf_def rfc3339Instant_def fractionNanos_def)
qed

lemma nanos_less_iff:
  fixes e e' n n' :: int
  assumes "0 \<le> n" "n \<le> 999999999" "0 \<le> n'" "n' \<le> 999999999"
  shows "e * 1000000000 + n < e' * 1000000000 + n' \<longleftrightarrow> e < e' \<or> (e = e' \<and> n < n')"
    and "e * 1000000000 + n = e' * 1000000000 + n' \<longleftrightarrow> e = e' \<and> n = n'"
  using assms by (cases e e' rule: linorder_cases; simp)+

lemma compareRfc3339_nanos:
  assumes "isRfc3339 (Str a)" "isRfc3339 (Str b)"
  shows "compareRfc3339 a fa b fb =
    Inr (if nanosOf a < nanosOf b then -1 else if nanosOf a = nanosOf b then 0 else 1)"
proof -
  obtain p q where p: "instant a fa = Inr p" and q: "instant b fb = Inr q"
    using assms by (auto simp: instant_unfold Let_def)
  note fp = instant_fraction [OF p] and fq = instant_fraction [OF q]
  note rp = fractionNanos_range [OF fp] and rq = fractionNanos_range [OF fq]
  note pc = padded_compare [OF fp fq refl]
  show ?thesis
    by (simp add: compareRfc3339_def p q nanosOf_instant [OF p] nanosOf_instant [OF q]
        nanos_less_iff [OF rp rq] Let_def pc)
qed

lemma compareRfc3339_invalid:
  "\<not> isRfc3339 (Str a) \<Longrightarrow> compareRfc3339 a fa b fb = Inl (MustBeRfc3339 fa)"
  "isRfc3339 (Str a) \<Longrightarrow> \<not> isRfc3339 (Str b) \<Longrightarrow> compareRfc3339 a fa b fb = Inl (MustBeRfc3339 fb)"
  by (simp_all add: compareRfc3339_def instant_unfold Let_def)

lemma canonicalize_Some:
  assumes "canonicalizeRfc3339Utc s = Some t"
  obtains e n where "isRfc3339 (Str s)" "t = instantText e n" "inYears e" "0 \<le> n" "n \<le> 999999999"
    "nanosOf s = e * 1000000000 + n"
proof -
  from assms obtain m where m: "isRfc3339 (Str s)" "RFC3339_exec s = Some m"
      and t: "t = instantText (epochSecondOf m)
        (if number (m_second m) = 60 then 999999999
         else fractionNanos (fractionText m))"
      and y: "inYears (epochSecondOf m)"
    by (auto simp: canonicalizeRfc3339Utc_def Let_def instantText_def inYears_def fractionNanos_def
        split: if_splits option.splits)
  let ?f = "if number (m_second m) = 60 then replicate 9 (CHR ''9'') else fractionText m"
  have i: "instant s [] = Inr \<lparr>epochSecond = epochSecondOf m, fraction = ?f\<rparr>"
    using m by (simp add: instant_unfold Let_def)
  have "replicate 9 (CHR ''9'') = ''999999999''" by (simp add: numeral_eq_Suc)
  then have "fractionNanos (replicate 9 (CHR ''9'')) = 999999999"
    by (simp add: fractionNanos_def digitsVal_def digitVal_def)
  then have "t = instantText (epochSecondOf m) (fractionNanos ?f)" by (simp add: t)
  moreover note fractionNanos_range [OF instant_fraction [OF i, simplified]]
  moreover have "nanosOf s = epochSecondOf m * 1000000000 + fractionNanos ?f"
    using nanosOf_instant [OF i] by simp
  ultimately show ?thesis using that m(1) y by simp
qed

lemma nanosOf_instantText:
  assumes "inYears e" "0 \<le> n" "n \<le> 999999999"
  shows "nanosOf (instantText e n) = e * 1000000000 + n"
proof -
  have "fractionNanos (fixedDigits 9 (nat n)) = n"
    using assms(2,3) by (simp add: fractionNanos_scaled)
  then show ?thesis
    using nanosOf_instant [OF instantText_instant(1) [OF assms, where f = "[]"]] by simp
qed

section \<open>Properties\<close>

text \<open>C14: the canonical spelling is a valid timestamp of the same instant (leap seconds
  and offsets included), and is a fixed point of canonicalization.\<close>

theorem canonical_form_sound:
  assumes "canonicalizeRfc3339Utc s = Some t"
  shows "isRfc3339 (Str t) \<and> nanosOf t = nanosOf s \<and> canonicalizeRfc3339Utc t = Some t"
proof -
  obtain e n where c: "t = instantText e n" "inYears e" "0 \<le> n" "n \<le> 999999999"
      "nanosOf s = e * 1000000000 + n"
    using assms by (rule canonicalize_Some)
  note i = instantText_instant [OF c(2-4)]
  obtain m where m: "RFC3339_exec t = Some m" "epochSecondOf m = e"
      "number (m_second m) \<noteq> 60" "fractionText m = fixedDigits 9 (nat n)"
  proof -
    obtain y mo d h mi sec where f: "civilFromDay (e div 86400) = (y, mo, d)"
        "timeOfDay e = (h, mi, sec)" "goodFields (y, mo, d) (h, mi, sec) n"
      using c(2-4) by (rule instantText_fields)
    then show ?thesis
      using that i(1) [of "[]"] number_good [OF f(3)] timeOfDay_good [OF f(2)]
      by (auto simp: c(1) instantText_def exec_canonicalText instant_def fractionText_def
          split: if_splits)
  qed
  have "number (take 9 (fixedDigits 9 (nat n) @ ''000000000'')) = n"
    using c(3,4) by simp
  then have "canonicalizeRfc3339Utc t = Some t"
    using m i(2) c(2) by (simp add: canonicalizeRfc3339Utc_def c(1) [symmetric] Let_def inYears_def)
      (simp add: c(1) instantText_def)
  then show ?thesis
    using i(2) nanosOf_instantText [OF c(2-4)] c(1,5) by simp
qed

theorem canonical_form_sound_witness:
  "isRfc3339 (Str ''2024-02-29T23:30:00.000000000Z'') \<and>
   canonicalizeRfc3339Utc ''2024-02-29T23:30:00.000000000Z'' =
     Some ''2024-02-29T23:30:00.000000000Z''"
proof -
  have "canonicalizeRfc3339Utc ''2024-03-01t01:00:00+01:30'' =
      Some ''2024-02-29T23:30:00.000000000Z''"
    by code_simp
  from canonical_form_sound [OF this] show ?thesis by simp
qed

text \<open>C15: stored canonical spellings sort as text exactly as their timestamps compare as
  instants, whatever offsets and fractions the originals used.\<close>

theorem canonical_order:
  assumes "canonicalizeRfc3339Utc a = Some a'" "canonicalizeRfc3339Utc b = Some b'"
  shows "compareRfc3339 a fa b fb = Inr (compareText a' b')"
proof -
  obtain e n where c: "isRfc3339 (Str a)" "a' = instantText e n" "inYears e" "0 \<le> n"
      "n \<le> 999999999" "nanosOf a = e * 1000000000 + n"
    using assms(1) by (rule canonicalize_Some)
  obtain e' n' where c': "isRfc3339 (Str b)" "b' = instantText e' n'" "inYears e'" "0 \<le> n'"
      "n' \<le> 999999999" "nanosOf b = e' * 1000000000 + n'"
    using assms(2) by (rule canonicalize_Some)
  note less = instantText_less [OF c(3-5) c'(3-5)] instantText_less [OF c'(3-5) c(3-5)]
  note cmp = nanos_less_iff [OF c(4,5) c'(4,5)] nanos_less_iff [OF c'(4,5) c(4,5)]
  show ?thesis
  proof (cases "nanosOf a" "nanosOf b" rule: linorder_cases)
    case less
    then show ?thesis
      using instantText_less [OF c(3-5) c'(3-5)] cmp(1) [of e e'] c(6) c'(6)
      by (simp add: compareRfc3339_nanos [OF c(1) c'(1)] compareText_def c(2) c'(2))
  next
    case equal
    then show ?thesis
      using cmp(2) [of e e'] c(6) c'(6)
      by (simp add: compareRfc3339_nanos [OF c(1) c'(1)] compareText_def c(2) c'(2))
  next
    case greater
    then show ?thesis
      using instantText_less [OF c'(3-5) c(3-5)] cmp(3) [of e' e] c(6) c'(6)
      by (auto simp: compareRfc3339_nanos [OF c(1) c'(1)] compareText_def c(2) c'(2))
  qed
qed

theorem canonical_order_witness:
  "compareRfc3339 ''2024-03-01T01:00:00+01:30'' ''a'' ''2024-02-29T23:30:00.000000005Z'' ''b'' = Inr (-1)"
proof -
  have "canonicalizeRfc3339Utc ''2024-03-01T01:00:00+01:30'' =
      Some ''2024-02-29T23:30:00.000000000Z''"
    and "canonicalizeRfc3339Utc ''2024-02-29T23:30:00.000000005Z'' =
      Some ''2024-02-29T23:30:00.000000005Z''"
    by code_simp+
  note eq = canonical_order [OF this]
  have "compareText ''2024-02-29T23:30:00.000000000Z'' ''2024-02-29T23:30:00.000000005Z'' = -1"
    by (simp add: compareText_def)
  with eq show ?thesis by metis
qed

declare isRfc3339.simps(1) [simp del]

end
