(* ===== verification/Authorization.thy ===== *)
theory Authorization
  imports Sensitivity Rfc3339
begin

text \<open>
  \<open>packages/core/src/agents/types.ts\<close> and \<open>packages/core/src/agents/authorization.ts\<close>:
  grants, and the decision whether a grant may read an item.

  An absent optional property is \<open>None\<close>; so is a \<open>null\<close> scope, which is the property's
  other empty value and is tested separately from absence nowhere in these files.  The two
  timestamp calls that may throw are values of the error sum, so that the branch that
  catches and the branch that lets an error escape are both visible.
\<close>

section \<open>Grants and items\<close>

datatype Tool =
    SearchTool | GetPage | QueryEntities | Timeline | ContextPacket | GraphNeighbors
  | SystemHealth | WorldView | Propose | Correct

definition TOOLS :: "Tool list" where
  "TOOLS = [SearchTool, GetPage, QueryEntities, Timeline, ContextPacket, GraphNeighbors,
            SystemHealth, WorldView, Propose, Correct]"

datatype EventClass = Credential | MachineExhaust

fun eventClassText :: "EventClass \<Rightarrow> string" where
  "eventClassText Credential = ''credential''"
| "eventClassText MachineExhaust = ''machine_exhaust''"

definition DEFAULT_DENY_CLASSES :: "EventClass list" where
  "DEFAULT_DENY_CLASSES = [Credential]"

record Grant =
  ceiling :: Sensitivity
  g_types :: "string list option"
  g_subjects :: "string list option"
  since :: "string option"
  until :: "string option"
  g_tools :: "Tool list"
  rate_limit_per_minute :: nat
  relay_owner_corrections :: bool
  deny_classes :: "EventClass list option"

definition denyClassesOf :: "Grant \<Rightarrow> EventClass list" where
  "denyClassesOf grant =
     (case deny_classes grant of Some cs \<Rightarrow> cs | None \<Rightarrow> DEFAULT_DENY_CLASSES)"

definition DEFAULT_GRANT :: Grant where
  "DEFAULT_GRANT =
     \<lparr>ceiling = Public, g_types = Some [], g_subjects = Some [], since = None, until = None,
      g_tools = [], rate_limit_per_minute = 60, relay_owner_corrections = False,
      deny_classes = None\<rparr>"

definition OWNER_AGENT_GRANT :: Grant where
  "OWNER_AGENT_GRANT =
     \<lparr>ceiling = Private, g_types = None, g_subjects = None, since = None, until = None,
      g_tools = [SearchTool, GetPage, QueryEntities, Timeline, ContextPacket, GraphNeighbors,
                 SystemHealth, WorldView, Propose, Correct],
      rate_limit_per_minute = 60, relay_owner_corrections = True, deny_classes = None\<rparr>"

text \<open>The grant of the principal \<open>OWNER\<close>.\<close>

definition OWNER_GRANT :: Grant where
  "OWNER_GRANT =
     \<lparr>ceiling = Private, g_types = None, g_subjects = None, since = None, until = None,
      g_tools = TOOLS, rate_limit_per_minute = 60, relay_owner_corrections = True,
      deny_classes = Some []\<rparr>"

datatype DenyReason =
    MissingSensitivity | MissingTaint | AboveCeiling | TypeOutOfScope | SubjectOutOfScope
  | TimeOutOfScope | ClassDenied | ToolNotGranted | UnknownAgent | RateLimited | Held | Busy
  | InvalidArguments | NotFound | UnsupportedContract | EngineError

record Servable =
  item_id :: string
  item_sensitivity :: js
  item_type :: "string option"
  item_subjects :: "string list option"
  occurred_at :: "string option"
  occurred_span :: "(string \<times> string) option"
  item_classes :: "string list option"
  held :: bool

datatype Authorization = Allow | Deny DenyReason

section \<open>The decision\<close>

text \<open>The lattice or nothing: \<open>sensitivity(value)\<close>.\<close>

definition sensitivityLabel :: "js \<Rightarrow> Sensitivity option" where
  "sensitivityLabel v = parseSensitivity v"

text \<open>\<open>item.occurred_span ?? (item.occurred_at === undefined ? undefined : ...)\<close>\<close>

definition spanOf :: "Servable \<Rightarrow> (string \<times> string) option" where
  "spanOf item =
     (case occurred_span item of
        Some fromTo \<Rightarrow> Some fromTo
      | None \<Rightarrow> (case occurred_at item of None \<Rightarrow> None | Some t \<Rightarrow> Some (t, t)))"

definition classDenied :: "Grant \<Rightarrow> Servable \<Rightarrow> bool" where
  "classDenied grant item =
     (case item_classes item of
        None \<Rightarrow> False
      | Some classes \<Rightarrow>
          list_ex (\<lambda>name. name \<in> set (map eventClassText (denyClassesOf grant))) classes)"

definition typeInScope :: "Grant \<Rightarrow> Servable \<Rightarrow> bool" where
  "typeInScope grant item =
     (case g_types grant of
        None \<Rightarrow> True
      | Some types \<Rightarrow> (case item_type item of None \<Rightarrow> False | Some t \<Rightarrow> t \<in> set types))"

definition subjectInScope :: "Grant \<Rightarrow> Servable \<Rightarrow> bool" where
  "subjectInScope grant item =
     (case g_subjects grant of
        None \<Rightarrow> True
      | Some subjects \<Rightarrow>
          (case item_subjects item of
             None \<Rightarrow> False
           | Some own \<Rightarrow> list_ex (\<lambda>subject. subject \<in> set subjects) own))"

text \<open>\<open>bound !== null && compareRfc3339(...) < 0\<close> on either side of the window.\<close>

definition beforeSince :: "Grant \<Rightarrow> string \<Rightarrow> TimeError + bool" where
  "beforeSince grant from' =
     (case since grant of
        None \<Rightarrow> Inr False
      | Some bound \<Rightarrow>
          andThen (compareRfc3339 from' ''occurred_at'' bound ''since'') (\<lambda>c. Inr (c < 0)))"

definition afterUntil :: "Grant \<Rightarrow> string \<Rightarrow> TimeError + bool" where
  "afterUntil grant to =
     (case until grant of
        None \<Rightarrow> Inr False
      | Some bound \<Rightarrow>
          andThen (compareRfc3339 to ''occurred_at'' bound ''until'') (\<lambda>c. Inr (c > 0)))"

definition authorizeTime :: "Grant \<Rightarrow> Servable \<Rightarrow> TimeError + Authorization" where
  "authorizeTime grant item =
     (if since grant = None \<and> until grant = None then Inr Allow
      else
        (case spanOf item of
           None \<Rightarrow> Inr (Deny TimeOutOfScope)
         | Some (from', to) \<Rightarrow>
             (case andThen (rfc3339Millis from' ''occurred_at'')
                     (\<lambda>_. rfc3339Millis to ''occurred_at'') of
                Inl e \<Rightarrow> Inr (Deny TimeOutOfScope)
              | Inr _ \<Rightarrow>
                  andThen (beforeSince grant from') (\<lambda>early.
                    if early then Inr (Deny TimeOutOfScope)
                    else
                      andThen (afterUntil grant to) (\<lambda>late.
                        Inr (if late then Deny TimeOutOfScope else Allow))))))"

definition authorize :: "Grant \<Rightarrow> Servable \<Rightarrow> TimeError + Authorization" where
  "authorize grant item =
     (if held item then Inr (Deny Held)
      else
        (case sensitivityLabel (item_sensitivity item) of
           None \<Rightarrow> Inr (Deny MissingSensitivity)
         | Some label \<Rightarrow>
             if SENSITIVITY_ORDER label > SENSITIVITY_ORDER (ceiling grant)
             then Inr (Deny AboveCeiling)
             else if classDenied grant item then Inr (Deny ClassDenied)
             else if \<not> typeInScope grant item then Inr (Deny TypeOutOfScope)
             else if \<not> subjectInScope grant item then Inr (Deny SubjectOutOfScope)
             else authorizeTime grant item))"

definition filterStep ::
  "Grant \<Rightarrow> Servable list \<times> (string \<times> DenyReason) list \<Rightarrow> Servable
   \<Rightarrow> TimeError + Servable list \<times> (string \<times> DenyReason) list" where
  "filterStep grant acc item =
     andThen (authorize grant item) (\<lambda>result.
       Inr (case result of
              Allow \<Rightarrow> (fst acc @ [item], snd acc)
            | Deny reason \<Rightarrow> (fst acc, snd acc @ [(item_id item, reason)])))"

definition filterServable ::
  "Grant \<Rightarrow> Servable list \<Rightarrow> TimeError + Servable list \<times> (string \<times> DenyReason) list" where
  "filterServable grant items = foldM (filterStep grant) ([], []) items"

definition toolAllowed :: "Grant \<Rightarrow> Tool \<Rightarrow> bool" where
  "toolAllowed grant tool \<longleftrightarrow> tool \<in> set (g_tools grant)"

section \<open>What an allowed item satisfies\<close>

text \<open>The contract: the label is under the ceiling, no denied class, every scope that is
  set covers the item, and a time window covers the whole span of its evidence.\<close>

definition withinWindow :: "Grant \<Rightarrow> Servable \<Rightarrow> bool" where
  "withinWindow grant item \<longleftrightarrow>
     (since grant = None \<and> until grant = None) \<or>
     (case spanOf item of
        None \<Rightarrow> False
      | Some (from', to) \<Rightarrow>
          isRfc3339 (Str from') \<and> isRfc3339 (Str to) \<and>
          (case since grant of None \<Rightarrow> True | Some s \<Rightarrow> nanosOf s \<le> nanosOf from') \<and>
          (case until grant of None \<Rightarrow> True | Some u \<Rightarrow> nanosOf to \<le> nanosOf u))"

definition mayRead :: "Grant \<Rightarrow> Servable \<Rightarrow> bool" where
  "mayRead grant item \<longleftrightarrow>
     \<not> held item \<and>
     (\<exists>label. item_sensitivity item = Str (labelText label) \<and> label \<le> ceiling grant) \<and>
     (\<forall>classes. item_classes item = Some classes \<longrightarrow>
        set classes \<inter> eventClassText ` set (denyClassesOf grant) = {}) \<and>
     (\<forall>types. g_types grant = Some types \<longrightarrow> (\<exists>t\<in>set types. item_type item = Some t)) \<and>
     (\<forall>subjects. g_subjects grant = Some subjects \<longrightarrow>
        (\<exists>own. item_subjects item = Some own \<and> set own \<inter> set subjects \<noteq> {})) \<and>
     withinWindow grant item"

text \<open>A grant whose bounds are timestamps, which is what a stored grant is checked to be.\<close>

definition validBounds :: "Grant \<Rightarrow> bool" where
  "validBounds grant \<longleftrightarrow>
     (case since grant of None \<Rightarrow> True | Some s \<Rightarrow> isRfc3339 (Str s)) \<and>
     (case until grant of None \<Rightarrow> True | Some u \<Rightarrow> isRfc3339 (Str u))"

definition unlessAbsent :: "string option \<Rightarrow> bool" where
  "unlessAbsent bound \<longleftrightarrow> (case bound of None \<Rightarrow> True | Some t \<Rightarrow> isRfc3339 (Str t))"

lemma validBounds_iff: "validBounds grant \<longleftrightarrow> unlessAbsent (since grant) \<and> unlessAbsent (until grant)"
  by (simp add: validBounds_def unlessAbsent_def)

lemma millis_Inr_iff: "(\<exists>n. rfc3339Millis v f = Inr n) \<longleftrightarrow> isRfc3339 (Str v)"
  by (simp add: rfc3339Millis_def instant_unfold Let_def)

lemma millis_cases: "rfc3339Millis v f = Inl (MustBeRfc3339 f) \<or> isRfc3339 (Str v)"
  by (simp add: rfc3339Millis_def instant_unfold)

lemma parseSensitivity_Some: "parseSensitivity v = Some l \<longleftrightarrow> v = Str (labelText l)"
  by (cases v; cases l) (auto simp: parseSensitivity.simps)

lemma beforeSince_valid:
  assumes "validBounds grant" "isRfc3339 (Str t)"
  shows "beforeSince grant t =
    Inr (case since grant of None \<Rightarrow> False | Some s \<Rightarrow> nanosOf t < nanosOf s)"
  using assms by (auto simp: beforeSince_def validBounds_def compareRfc3339_nanos
      split: option.splits)

lemma afterUntil_valid:
  assumes "validBounds grant" "isRfc3339 (Str t)"
  shows "afterUntil grant t =
    Inr (case until grant of None \<Rightarrow> False | Some u \<Rightarrow> nanosOf u < nanosOf t)"
  using assms by (auto simp: afterUntil_def validBounds_def compareRfc3339_nanos
      split: option.splits)

lemma authorizeTime_valid:
  assumes "validBounds grant"
  shows "authorizeTime grant item =
    Inr (if withinWindow grant item then Allow else Deny TimeOutOfScope)"
proof (cases "since grant = None \<and> until grant = None")
  case False
  show ?thesis
  proof (cases "spanOf item")
    case (Some fromTo)
    obtain from' to where span: "spanOf item = Some (from', to)" using Some by (cases fromTo) auto
    show ?thesis
    proof (cases "isRfc3339 (Str from') \<and> isRfc3339 (Str to)")
      case True
      then obtain a b where "rfc3339Millis from' ''occurred_at'' = Inr a"
          "rfc3339Millis to ''occurred_at'' = Inr b"
        using millis_Inr_iff by metis
      then show ?thesis
        using False True
        by (auto simp: authorizeTime_def withinWindow_def span beforeSince_valid [OF assms]
            afterUntil_valid [OF assms] split: option.splits)
    next
      case invalid: False
      then have "\<exists>e. andThen (rfc3339Millis from' ''occurred_at'')
          (\<lambda>_. rfc3339Millis to ''occurred_at'') = Inl e"
        using millis_cases [of from' "''occurred_at''"] millis_cases [of to "''occurred_at''"]
        by (cases "rfc3339Millis from' ''occurred_at''") auto
      then show ?thesis
        using False invalid
        by (auto simp: authorizeTime_def withinWindow_def span)
    qed
  qed (use False in \<open>auto simp: authorizeTime_def withinWindow_def\<close>)
qed (simp add: authorizeTime_def withinWindow_def)

lemma scopes_iff:
  "classDenied grant item \<longleftrightarrow>
    \<not> (\<forall>classes. item_classes item = Some classes \<longrightarrow>
        set classes \<inter> eventClassText ` set (denyClassesOf grant) = {})"
  "typeInScope grant item \<longleftrightarrow>
    (\<forall>types. g_types grant = Some types \<longrightarrow> (\<exists>t\<in>set types. item_type item = Some t))"
  "subjectInScope grant item \<longleftrightarrow>
    (\<forall>subjects. g_subjects grant = Some subjects \<longrightarrow>
        (\<exists>own. item_subjects item = Some own \<and> set own \<inter> set subjects \<noteq> {}))"
  by (auto simp: classDenied_def typeInScope_def subjectInScope_def list_ex_iff split: option.splits)

lemma authorize_Allow:
  "authorize grant item = Inr Allow \<longleftrightarrow>
    \<not> held item \<and>
    (\<exists>label. item_sensitivity item = Str (labelText label) \<and> label \<le> ceiling grant) \<and>
    \<not> classDenied grant item \<and> typeInScope grant item \<and> subjectInScope grant item \<and>
    authorizeTime grant item = Inr Allow"
  by (auto simp: authorize_def sensitivityLabel_def parseSensitivity_Some [symmetric]
      split: option.split)

lemma compareRfc3339_Inr:
  assumes "compareRfc3339 a fa b fb = Inr c"
  shows "isRfc3339 (Str b)"
proof (rule ccontr)
  assume "\<not> isRfc3339 (Str b)"
  then show False
    using assms compareRfc3339_invalid(1) [where a = a and fa = fa and b = b and fb = fb]
      compareRfc3339_invalid(2) [where a = a and fa = fa and b = b and fb = fb]
    by (cases "isRfc3339 (Str a)") auto
qed

lemma beforeSince_Inr: "beforeSince grant t = Inr b \<Longrightarrow> unlessAbsent (since grant)"
  and afterUntil_Inr: "afterUntil grant t = Inr b \<Longrightarrow> unlessAbsent (until grant)"
  unfolding beforeSince_def afterUntil_def unlessAbsent_def
  by (auto simp: result_simps split: option.splits
      dest: compareRfc3339_Inr)

lemma authorizeTime_Allow_bounds:
  assumes "authorizeTime grant item = Inr Allow"
  shows "validBounds grant"
proof (cases "since grant = None \<and> until grant = None")
  case False
  then obtain from' to where "spanOf item = Some (from', to)"
    using assms by (auto simp: authorizeTime_def split: option.splits)
  then have "andThen (beforeSince grant from') (\<lambda>early.
      if early then Inr (Deny TimeOutOfScope)
      else andThen (afterUntil grant to) (\<lambda>late. Inr (if late then Deny TimeOutOfScope else Allow))) =
      Inr Allow"
    using assms False by (simp add: authorizeTime_def split: sum.splits if_splits)
  then obtain a b where "beforeSince grant from' = Inr a" "afterUntil grant to = Inr b"
    by (auto simp: result_simps split: if_splits)
  then show ?thesis
    using beforeSince_Inr afterUntil_Inr by (auto simp: validBounds_iff)
qed (auto simp: validBounds_def)

lemma authorize_mayRead:
  "authorize grant item = Inr Allow \<longleftrightarrow> validBounds grant \<and> mayRead grant item"
proof (cases "validBounds grant")
  case True
  then show ?thesis
    by (auto simp: authorize_Allow authorizeTime_valid mayRead_def scopes_iff)
next
  case False
  then show ?thesis using authorizeTime_Allow_bounds authorize_Allow by blast
qed

lemma authorize_total:
  assumes "validBounds grant"
  obtains "authorize grant item = Inr Allow" | reason where "authorize grant item = Inr (Deny reason)"
proof -
  have "\<exists>r. authorize grant item = Inr r"
    by (simp add: authorize_def authorizeTime_valid [OF assms] split: option.split)
  then show ?thesis using that by (metis Authorization.exhaust)
qed

lemma filterServable_acc:
  assumes "validBounds grant"
  shows "\<exists>denied. foldM (filterStep grant) (s, d) items =
      Inr (s @ filter (mayRead grant) items, d @ denied) \<and>
    map fst denied = map item_id (filter (\<lambda>i. \<not> mayRead grant i) items)"
proof (induction items arbitrary: s d)
  case (Cons item items)
  show ?case
  proof (cases rule: authorize_total [OF assms, of item])
    case 1
    then have "mayRead grant item" by (simp add: authorize_mayRead)
    with 1 Cons [of "s @ [item]" d] show ?thesis by (simp add: filterStep_def)
  next
    case (2 reason)
    then have "\<not> mayRead grant item" using assms authorize_mayRead [of grant item] by simp
    with 2 Cons [of s "d @ [(item_id item, reason)]"] show ?thesis
      by (fastforce simp: filterStep_def)
  qed
qed simp

text \<open>When one grant is at most another: what an amendment that only narrows produces.\<close>

definition narrower :: "Grant \<Rightarrow> Grant \<Rightarrow> bool" where
  "narrower g g' \<longleftrightarrow>
     ceiling g \<le> ceiling g' \<and>
     (\<forall>ts'. g_types g' = Some ts' \<longrightarrow> (\<exists>ts. g_types g = Some ts \<and> set ts \<subseteq> set ts')) \<and>
     (\<forall>ss'. g_subjects g' = Some ss' \<longrightarrow> (\<exists>ss. g_subjects g = Some ss \<and> set ss \<subseteq> set ss')) \<and>
     (\<forall>t'. since g' = Some t' \<longrightarrow> (\<exists>t. since g = Some t \<and> nanosOf t' \<le> nanosOf t)) \<and>
     (\<forall>t'. until g' = Some t' \<longrightarrow> (\<exists>t. until g = Some t \<and> nanosOf t \<le> nanosOf t')) \<and>
     set (denyClassesOf g') \<subseteq> set (denyClassesOf g)"

lemma withinWindow_narrower:
  assumes "narrower g g'" "withinWindow g item"
  shows "withinWindow g' item"
  using assms by (fastforce simp: withinWindow_def narrower_def split: option.splits prod.splits)

lemma mayRead_narrower:
  assumes "narrower g g'" "mayRead g item"
  shows "mayRead g' item"
proof -
  have "\<And>A B C. C \<subseteq> B \<Longrightarrow> A \<inter> eventClassText ` B = {} \<Longrightarrow> A \<inter> eventClassText ` C = {}"
    by blast
  moreover note withinWindow_narrower [OF assms(1)]
  ultimately show ?thesis
    using assms unfolding mayRead_def narrower_def by (meson disjoint_iff order_trans subsetD)
qed

section \<open>Properties\<close>

text \<open>C16: an item is allowed exactly when the grant's bounds are timestamps and the item
  meets the whole contract: not held, a known label under the ceiling, no withheld class,
  inside every scope that is set, and all its evidence inside the time window.\<close>

theorem authorize_exact:
  "authorize grant item = Inr Allow \<longleftrightarrow> validBounds grant \<and> mayRead grant item"
  by (rule authorize_mayRead)

text \<open>Filtering a list under a well-formed grant never fails, serves exactly the
  readable items in their order, and names every other item in order with a reason.\<close>

theorem filterServable_partition:
  assumes "validBounds grant"
  shows "\<exists>denied. filterServable grant items = Inr (filter (mayRead grant) items, denied) \<and>
    map fst denied = map item_id (filter (\<lambda>i. \<not> mayRead grant i) items)"
  using filterServable_acc [OF assms, of "[]" "[]"] by (simp add: filterServable_def)

definition demo_item :: Servable where
  "demo_item = \<lparr>item_id = ''i1'', item_sensitivity = Str ''public'', item_type = Some ''fact'',
     item_subjects = None, occurred_at = None, occurred_span = None, item_classes = None,
     held = False\<rparr>"

theorem filterServable_partition_witness:
  "\<exists>denied. filterServable DEFAULT_GRANT [demo_item] =
     Inr (filter (mayRead DEFAULT_GRANT) [demo_item], denied) \<and>
    map fst denied = map item_id (filter (\<lambda>i. \<not> mayRead DEFAULT_GRANT i) [demo_item])"
  by (rule filterServable_partition) (simp add: validBounds_def DEFAULT_GRANT_def)

text \<open>Narrowing a grant never lets an item through: whatever the narrower grant
  allows, the wider one (with well-formed bounds) allowed too.\<close>

theorem narrowing_never_widens:
  assumes "narrower g g'" "validBounds g'" "authorize g item = Inr Allow"
  shows "authorize g' item = Inr Allow"
  using assms mayRead_narrower by (simp add: authorize_mayRead)

theorem narrowing_never_widens_witness:
  "authorize OWNER_GRANT demo_item = Inr Allow"
proof (rule narrowing_never_widens)
  show "narrower OWNER_AGENT_GRANT OWNER_GRANT"
    by (simp add: narrower_def OWNER_AGENT_GRANT_def OWNER_GRANT_def denyClassesOf_def)
  show "validBounds OWNER_GRANT" by (simp add: validBounds_def OWNER_GRANT_def)
  have "parseSensitivity (Str ''public'') = Some Public"
    using parse_labelText [of Public] by simp
  then show "authorize OWNER_AGENT_GRANT demo_item = Inr Allow"
    by (simp add: authorize_def OWNER_AGENT_GRANT_def demo_item_def sensitivityLabel_def
        classDenied_def typeInScope_def subjectInScope_def authorizeTime_def)
qed

end
