(* ===== verification/Ulid.thy ===== *)
theory Ulid
  imports Kizuki_Prelude "HOL-Library.Word"
begin

unbundle bit_operations_syntax

text \<open>
  \<open>packages/core/src/util/ulid.ts\<close>: identifiers whose text order is their creation order.

  The module variables \<open>lastTime\<close> and \<open>lastRandom\<close> are a record passed along.  The clock
  reading and the sixteen bytes of \<open>crypto.getRandomValues\<close> are arguments of a call; a
  clock reading is an integer, and the bytes keep their width.
\<close>

definition ENCODING :: string where
  "ENCODING = ''0123456789ABCDEFGHJKMNPQRSTVWXYZ''"

abbreviation TIME_LEN :: nat where "TIME_LEN \<equiv> 10"
abbreviation RANDOM_LEN :: nat where "RANDOM_LEN \<equiv> 16"

definition MAX_TIME :: int where
  "MAX_TIME = 281474976710655"

definition ULID_CLASS :: string where
  "ULID_CLASS = ''0123456789ABCDEFGHJKMNPQRSTVWXYZ''"

definition isUlid :: "string \<Rightarrow> bool" where
  "isUlid s \<longleftrightarrow>
     length s = 26 \<and> in_range (CHR ''0'') (CHR ''7'') (s ! 0) \<and>
     list_all (\<lambda>c. c \<in> set ULID_CLASS) (tl s)"

record UlidState =
  lastTime :: int
  lastRandom :: "nat list"

definition ulidInit :: UlidState where
  "ulidInit = \<lparr>lastTime = -1, lastRandom = replicate RANDOM_LEN 0\<rparr>"

text \<open>\<open>ENCODING.charAt(d)\<close>: the empty string out of range.\<close>

definition encodingCharAt :: "nat \<Rightarrow> string" where
  "encodingCharAt d = (if d < length ENCODING then [ENCODING ! d] else [])"

fun encodeTimeLoop :: "nat \<Rightarrow> nat \<Rightarrow> string \<Rightarrow> string" where
  "encodeTimeLoop 0 rest out = out"
| "encodeTimeLoop (Suc i) rest out =
     encodeTimeLoop i (rest div 32) (encodingCharAt (rest mod 32) @ out)"

definition encodeTime :: "int \<Rightarrow> string" where
  "encodeTime time = encodeTimeLoop TIME_LEN (nat time) []"

definition fillRandom :: "8 word list \<Rightarrow> nat list" where
  "fillRandom bytes =
     map (\<lambda>i. unat ((if i < length bytes then bytes ! i else 0) AND 31)) [0..<RANDOM_LEN]"

text \<open>The loop from the last index down; \<open>None\<close> is the exhausted randomness.\<close>

fun incrementRandom :: "nat \<Rightarrow> nat list \<Rightarrow> nat list option" where
  "incrementRandom 0 target = None"
| "incrementRandom (Suc i) target =
     (let digit = (if i < length target then target ! i else 0)
      in if digit < 31 then Some (target[i := digit + 1])
         else incrementRandom i (target[i := 0]))"

datatype UlidError = TimestampExceedsRange | TimestampNotNatural | RandomnessExhausted

definition ulid :: "UlidState \<Rightarrow> int \<times> 8 word list \<Rightarrow> UlidState \<times> (UlidError + string)" where
  "ulid st input =
     (case input of (now, bytes) \<Rightarrow>
        if now > MAX_TIME then (st, Inl TimestampExceedsRange)
        else if \<bar>now\<bar> > 9007199254740991 \<or> now < 0 then (st, Inl TimestampNotNatural)
        else
          (case (if now > lastTime st then Some (fillRandom bytes)
                 else incrementRandom RANDOM_LEN (lastRandom st)) of
             None \<Rightarrow> (st, Inl RandomnessExhausted)
           | Some nextRandom \<Rightarrow>
               (let time = max now (lastTime st)
                in (\<lparr>lastTime = time, lastRandom = nextRandom\<rparr>,
                    Inr (encodeTime time @
                         concat (map (\<lambda>i. encodingCharAt
                            (if i < length nextRandom then nextRandom ! i else 0))
                           [0..<RANDOM_LEN]))))))"

section \<open>Digits in base 32\<close>

fun val32 :: "nat list \<Rightarrow> nat" where
  "val32 [] = 0"
| "val32 (d # ds) = d * 32 ^ length ds + val32 ds"

definition digits32 :: "nat \<Rightarrow> nat list \<Rightarrow> bool" where
  "digits32 n ds \<longleftrightarrow> length ds = n \<and> (\<forall>d\<in>set ds. d < 32)"

lemma val32_bound: "\<forall>d\<in>set ds. d < 32 \<Longrightarrow> val32 ds < 32 ^ length ds"
proof (induction ds)
  case (Cons d ds)
  then have "d * 32 ^ length ds \<le> 31 * 32 ^ length ds" and "val32 ds < 32 ^ length ds"
    by (auto intro: mult_right_mono)
  then have "d * 32 ^ length ds + val32 ds < 32 * 32 ^ length ds" by linarith
  then show ?case by simp
qed simp

lemma val32_append: "val32 (xs @ ys) = val32 xs * 32 ^ length ys + val32 ys"
  by (induction xs) (simp_all add: power_add algebra_simps)

lemma val32_update:
  "i < length ds \<Longrightarrow> val32 (ds[i := d]) + ds ! i * 32 ^ (length ds - Suc i) =
    val32 ds + d * 32 ^ (length ds - Suc i)"
  by (induction ds arbitrary: i) (auto split: nat.split)

lemma val32_less_iff:
  assumes "digits32 n ds" "digits32 n es"
  shows "map ((!) ENCODING) ds < map ((!) ENCODING) es \<longleftrightarrow> val32 ds < val32 es"
  using assms
proof (induction ds arbitrary: es n)
  case (Cons d ds)
  obtain e es' where es: "es = e # es'" "length es' = length ds"
    using Cons.prems by (cases es) (auto simp: digits32_def)
  have bound: "val32 ds < 32 ^ length ds" "val32 es' < 32 ^ length ds" "d < 32" "e < 32"
    using Cons.prems val32_bound [of ds] val32_bound [of es'] by (auto simp: es digits32_def)
  have enc: "ENCODING ! d < ENCODING ! e \<longleftrightarrow> d < e"
  proof -
    have "sorted_wrt (<) ENCODING" and "length ENCODING = 32"
      by (simp_all add: ENCODING_def)
    then show ?thesis
      using bound(3,4) by (metis less_asym' less_irrefl linorder_neqE_nat sorted_wrt_iff_nth_less)
  qed
  have inj: "ENCODING ! d = ENCODING ! e \<longleftrightarrow> d = e"
  proof -
    have "distinct ENCODING" and "length ENCODING = 32" by (simp_all add: ENCODING_def)
    then show ?thesis using bound(3,4) by (simp add: nth_eq_iff_index_eq)
  qed
  have "(d + 1) * 32 ^ length ds \<le> e * 32 ^ length ds" if "d < e"
    using that by (intro mult_right_mono) auto
  moreover have "(e + 1) * 32 ^ length ds \<le> d * 32 ^ length ds" if "e < d"
    using that by (intro mult_right_mono) auto
  moreover have "map ((!) ENCODING) ds < map ((!) ENCODING) es' \<longleftrightarrow> val32 ds < val32 es'"
    using Cons.prems by (intro Cons.IH [of "length ds"]) (auto simp: es digits32_def)
  ultimately show ?case
    using bound es(2) by (cases d e rule: linorder_cases) (auto simp: es(1) enc inj)
qed (simp add: digits32_def)

text \<open>The digits of a time, most significant first.\<close>

fun timeDigits :: "nat \<Rightarrow> nat \<Rightarrow> nat list" where
  "timeDigits 0 t = []"
| "timeDigits (Suc i) t = timeDigits i (t div 32) @ [t mod 32]"

lemma length_timeDigits [simp]: "length (timeDigits n t) = n"
  by (induction n arbitrary: t) auto

lemma timeDigits_less: "\<forall>d\<in>set (timeDigits n t). d < 32"
  by (induction n arbitrary: t) auto

lemma val32_timeDigits: "val32 (timeDigits n t) = t mod 32 ^ n"
proof (induction n arbitrary: t)
  case (Suc n)
  have "t mod 32 ^ Suc n = 32 * (t div 32 mod 32 ^ n) + t mod 32"
    by (simp add: mod_mult2_eq)
  with Suc show ?case by (simp add: val32_append)
qed simp

lemma length_ENCODING [simp]: "length ENCODING = 32"
  by (simp add: ENCODING_def)

lemma encodeTimeLoop_digits:
  "encodeTimeLoop n t out = map ((!) ENCODING) (timeDigits n t) @ out"
  by (induction n arbitrary: t out) (auto simp: encodingCharAt_def)

definition ulidDigits :: "UlidState \<Rightarrow> nat list" where
  "ulidDigits st = timeDigits TIME_LEN (nat (lastTime st)) @ lastRandom st"

definition ulidInv :: "UlidState \<Rightarrow> bool" where
  "ulidInv st \<longleftrightarrow> -1 \<le> lastTime st \<and> lastTime st \<le> MAX_TIME \<and> digits32 RANDOM_LEN (lastRandom st)"

text \<open>The number a state stands for; before the first identifier it is negative.\<close>

definition ulidValue :: "UlidState \<Rightarrow> int" where
  "ulidValue st = lastTime st * 32 ^ 16 + int (val32 (lastRandom st))"

lemma fillRandom_digits: "digits32 RANDOM_LEN (fillRandom bytes)"
proof -
  have "unat (w AND 31) < 32" for w :: "8 word"
  proof -
    have "w AND 31 = take_bit 5 w" by (simp add: take_bit_eq_mask mask_eq_exp_minus_1)
    moreover have "unat (take_bit 5 w) = take_bit 5 (unat w)"
      by (rule unsigned_take_bit_eq)
    ultimately show ?thesis using take_bit_nat_less_exp [of 5 "unat w"] by simp
  qed
  then show ?thesis by (auto simp: digits32_def fillRandom_def)
qed

text \<open>Stepping the random field adds one to its number, or it was all 31s.\<close>

lemma incrementRandom_adds:
  assumes "incrementRandom i ds = Some ds'" "i \<le> length ds" "\<forall>d\<in>set ds. d < 32"
  shows "length ds' = length ds \<and> (\<forall>d\<in>set ds'. d < 32) \<and>
    val32 ds' = val32 ds + 32 ^ (length ds - i)"
  using assms
proof (induction i arbitrary: ds)
  case (Suc i)
  then have i: "i < length ds" by simp
  have exp: "length ds - i = Suc (length ds - Suc i)" using i by simp
  have low: "length ds - Suc i = length ds - Suc i" ..
  show ?case
  proof (cases "ds ! i < 31")
    case True
    then have "ds' = ds[i := ds ! i + 1]" using Suc.prems(1) i by (simp add: Let_def)
    with True Suc.prems(3) val32_update [OF i, of "ds ! i + 1"] show ?thesis
      by (auto simp: algebra_simps dest!: subsetD [OF set_update_subset_insert])
  next
    case False
    then have d: "ds ! i = 31" using Suc.prems(3) i nth_mem [OF i] by fastforce
    have "incrementRandom i (ds[i := 0]) = Some ds'"
      using Suc.prems(1) False i by (simp add: Let_def)
    moreover have "\<forall>d\<in>set (ds[i := 0]). d < 32"
      using Suc.prems(3) by (auto dest!: subsetD [OF set_update_subset_insert])
    ultimately have "length ds' = length (ds[i := 0]) \<and> (\<forall>d\<in>set ds'. d < 32) \<and>
        val32 ds' = val32 (ds[i := 0]) + 32 ^ (length (ds[i := 0]) - i)"
      using i by (intro Suc.IH) auto
    with val32_update [OF i, of 0] show ?thesis by (simp add: d exp)
  qed
qed simp

section \<open>One call\<close>

lemma ulid_cases:
  assumes "ulidInv st" "ulid st input = (st', r)"
  obtains (error) e where "st' = st" "r = Inl e"
  | (id) "ulidInv st'" "0 \<le> lastTime st'" "ulidValue st < ulidValue st'"
      "r = Inr (map ((!) ENCODING) (ulidDigits st'))"
      "if fst input \<le> lastTime st then lastTime st' = lastTime st \<and> ulidValue st' = ulidValue st + 1
       else lastTime st' = fst input"
proof -
  obtain now bytes where input: "input = (now, bytes)" by (cases input)
  show ?thesis
  proof (cases "now > MAX_TIME \<or> \<bar>now\<bar> > 9007199254740991 \<or> now < 0")
    case True
    then show ?thesis using assms(2) error by (auto simp: ulid_def input split: if_splits)
  next
    case False
    define nxt where "nxt = (if now > lastTime st then Some (fillRandom bytes)
        else incrementRandom RANDOM_LEN (lastRandom st))"
    show ?thesis
    proof (cases nxt)
      case None
      then show ?thesis
        using False assms(2) error by (auto simp: ulid_def input nxt_def [symmetric])
    next
      case (Some ds)
      let ?st = "\<lparr>lastTime = max now (lastTime st), lastRandom = ds\<rparr>"
      have inv: "digits32 RANDOM_LEN (lastRandom st)" using assms(1) by (simp add: ulidInv_def)
      have ds: "digits32 RANDOM_LEN ds \<and>
          (now \<le> lastTime st \<longrightarrow> val32 ds = val32 (lastRandom st) + 1)"
      proof (cases "now > lastTime st")
        case True
        then show ?thesis using Some fillRandom_digits by (auto simp: nxt_def)
      next
        case False
        then show ?thesis
          using Some inv incrementRandom_adds [of RANDOM_LEN "lastRandom st" ds]
          by (auto simp: nxt_def digits32_def)
      qed
      have "val32 (lastRandom st) < 32 ^ RANDOM_LEN"
        using inv val32_bound [of "lastRandom st"] by (simp add: digits32_def)
      then have "ulidValue st < ulidValue ?st"
          "if now \<le> lastTime st then lastTime ?st = lastTime st \<and> ulidValue ?st = ulidValue st + 1
           else lastTime ?st = now"
        using ds by (auto simp: ulidValue_def max_def)
      moreover have "ulidInv ?st" "0 \<le> lastTime ?st"
        using False assms(1) ds by (auto simp: ulidInv_def)
      moreover have "concat (map (\<lambda>i. encodingCharAt (if i < length ds then ds ! i else 0))
          [0..<RANDOM_LEN]) = map ((!) ENCODING) ds"
      proof -
        have "length ds = RANDOM_LEN" and small: "\<And>i. i < length ds \<Longrightarrow> ds ! i < 32"
          using ds by (auto simp: digits32_def)
        then have "map (\<lambda>i. encodingCharAt (if i < length ds then ds ! i else 0)) [0..<RANDOM_LEN] =
            map (\<lambda>i. [ENCODING ! (ds ! i)]) [0..<length ds]"
          by (intro map_cong) (auto simp: encodingCharAt_def)
        also have "concat \<dots> = map ((!) ENCODING) (map ((!) ds) [0..<length ds])"
          by (simp add: concat_map_singleton comp_def)
        finally show ?thesis by (simp add: map_nth)
      qed
      moreover have "ulid st input = (?st, Inr (encodeTime (max now (lastTime st)) @
          concat (map (\<lambda>i. encodingCharAt (if i < length ds then ds ! i else 0)) [0..<RANDOM_LEN])))"
        using False Some by (auto simp: ulid_def input nxt_def [symmetric] Let_def)
      ultimately show ?thesis
        using assms(2) id [unfolded input fst_conv] unfolding input
        by (auto simp: encodeTime_def encodeTimeLoop_digits ulidDigits_def)
    qed
  qed
qed

lemma ulidDigits_valid:
  assumes "ulidInv st" "0 \<le> lastTime st"
  shows "digits32 26 (ulidDigits st)" "int (val32 (ulidDigits st)) = ulidValue st"
proof -
  show "digits32 26 (ulidDigits st)"
    using assms timeDigits_less by (auto simp: ulidInv_def ulidDigits_def digits32_def)
  have "nat (lastTime st) < 32 ^ TIME_LEN"
    using assms by (simp add: ulidInv_def MAX_TIME_def nat_less_iff)
  then show "int (val32 (ulidDigits st)) = ulidValue st"
    using assms by (simp add: ulidInv_def ulidDigits_def ulidValue_def val32_append
        val32_timeDigits digits32_def)
qed

lemma isUlid_digits:
  assumes "ulidInv st" "0 \<le> lastTime st"
  shows "isUlid (map ((!) ENCODING) (ulidDigits st))"
proof -
  note v = ulidDigits_valid [OF assms]
  obtain d ds where d: "ulidDigits st = d # ds"
    using v(1) by (cases "ulidDigits st") (auto simp: digits32_def)
  have "nat (lastTime st) \<le> 281474976710655"
    using assms by (simp add: ulidInv_def MAX_TIME_def nat_le_iff)
  then have "val32 (timeDigits TIME_LEN (nat (lastTime st))) \<le> 281474976710655"
    unfolding val32_timeDigits by (rule le_trans [OF mod_less_eq_dividend])
  moreover obtain ts where ts: "timeDigits TIME_LEN (nat (lastTime st)) = d # ts" "length ts = 9"
    using d length_timeDigits [of TIME_LEN "nat (lastTime st)"]
    by (cases "timeDigits TIME_LEN (nat (lastTime st))") (auto simp: ulidDigits_def)
  ultimately have "d * 32 ^ 9 \<le> 281474976710655" by simp
  then have "d \<le> 7" by simp
  then have "d = 0 \<or> d = 1 \<or> d = 2 \<or> d = 3 \<or> d = 4 \<or> d = 5 \<or> d = 6 \<or> d = 7" by presburger
  then have "in_range (CHR ''0'') (CHR ''7'') (ENCODING ! d)"
    by (elim disjE) (simp_all add: ENCODING_def in_range_def)
  moreover have "set (map ((!) ENCODING) ds) \<subseteq> set ULID_CLASS"
  proof -
    have "\<forall>x\<in>set ds. x < length ENCODING" using v(1) d by (simp add: digits32_def)
    then have "set (map ((!) ENCODING) ds) \<subseteq> set ENCODING" by auto
    then show ?thesis by (simp add: ENCODING_def ULID_CLASS_def)
  qed
  ultimately show ?thesis
    using v(1) by (auto simp: isUlid_def d digits32_def list_all_iff)
qed

lemma ulid_texts_ordered:
  assumes "ulidInv s" "0 \<le> lastTime s" "ulidInv t" "0 \<le> lastTime t" "ulidValue s < ulidValue t"
  shows "map ((!) ENCODING) (ulidDigits s) < map ((!) ENCODING) (ulidDigits t)"
  using assms ulidDigits_valid [OF assms(1,2)] ulidDigits_valid [OF assms(3,4)]
    val32_less_iff [of 26 "ulidDigits s" "ulidDigits t"] by simp

section \<open>Sequences of calls\<close>

definition ulidStep :: "UlidState \<Rightarrow> int \<times> 8 word list \<Rightarrow> UlidState" where
  "ulidStep st input = fst (ulid st input)"

interpretation ulid_module: machine ulidStep every ulidInv "\<lambda>s t. ulidValue s \<le> ulidValue t"
proof
  fix st input assume inv: "ulidInv st"
  obtain st' r where u: "ulid st input = (st', r)" by (cases "ulid st input")
  show "ulidInv (ulidStep st input)"
    using ulid_cases [OF inv u] inv by cases (auto simp: ulidStep_def u)
  show "ulidValue st \<le> ulidValue (ulidStep st input)"
    using ulid_cases [OF inv u] by cases (auto simp: ulidStep_def u)
qed auto

text \<open>The identifiers a run hands out, failed calls left out.\<close>

fun ulidRun :: "UlidState \<Rightarrow> (int \<times> 8 word list) list \<Rightarrow> string list" where
  "ulidRun st [] = []"
| "ulidRun st (input # inputs) =
     (case ulid st input of
        (st', Inl e) \<Rightarrow> ulidRun st' inputs
      | (st', Inr s) \<Rightarrow> s # ulidRun st' inputs)"

lemma ulidInit_inv: "ulidInv ulidInit"
  by (auto simp: ulidInv_def ulidInit_def MAX_TIME_def digits32_def)

lemma ulidRun_sorted:
  assumes "ulidInv st"
  shows "sorted_wrt (<) (ulidRun st inputs) \<and> (\<forall>s\<in>set (ulidRun st inputs). isUlid s \<and>
    (\<exists>st'. ulidInv st' \<and> 0 \<le> lastTime st' \<and> ulidValue st < ulidValue st' \<and>
       s = map ((!) ENCODING) (ulidDigits st')))"
  using assms
proof (induction inputs arbitrary: st)
  case (Cons input inputs)
  obtain st' r where u: "ulid st input = (st', r)" by (cases "ulid st input")
  from Cons.prems u show ?case
  proof (cases rule: ulid_cases)
    case (error e)
    with Cons show ?thesis by (simp add: u)
  next
    case id
    note IH = Cons.IH [OF id(1)]
    have "\<forall>s\<in>set (ulidRun st' inputs). map ((!) ENCODING) (ulidDigits st') < s"
      using IH id(1,2) ulid_texts_ordered by metis
    moreover have "\<forall>s\<in>set (ulidRun st' inputs). isUlid s \<and>
        (\<exists>st''. ulidInv st'' \<and> 0 \<le> lastTime st'' \<and> ulidValue st < ulidValue st'' \<and>
          s = map ((!) ENCODING) (ulidDigits st''))"
      using IH id(3) by (meson less_trans)
    ultimately show ?thesis
      using IH id isUlid_digits [OF id(1,2)] by (auto simp: u)
  qed
qed simp

section \<open>Properties\<close>

text \<open>C17: whatever the clock and the randomness do - a stalled clock, one that steps
  back, exhausted random fields, readings out of range - the identifiers one process hands
  out are well formed and strictly increasing as text, so they are all distinct.\<close>

theorem ulids_strictly_increase:
  "sorted_wrt (<) (ulidRun ulidInit inputs) \<and> list_all isUlid (ulidRun ulidInit inputs)"
  using ulidRun_sorted [OF ulidInit_inv] by (simp add: list_all_iff)

text \<open>After any calls, a call that fails leaves the module state as it was; one that
  succeeds at or before the stored millisecond keeps it and adds exactly one to the random
  field, and one in a later millisecond takes that millisecond.\<close>

theorem ulid_call_effect:
  "let st = foldl ulidStep ulidInit earlier
   in case ulid st (now, bytes) of
        (st', Inl e) \<Rightarrow> st' = st
      | (st', Inr s) \<Rightarrow>
          if now \<le> lastTime st then lastTime st' = lastTime st \<and> ulidValue st' = ulidValue st + 1
          else lastTime st' = now"
proof -
  define st where "st = foldl ulidStep ulidInit earlier"
  have inv: "ulidInv st" unfolding st_def by (rule ulid_module.run_inv [OF list_all_every ulidInit_inv])
  obtain st' r where u: "ulid st (now, bytes) = (st', r)" by (cases "ulid st (now, bytes)")
  from inv u show ?thesis
    by (cases rule: ulid_cases) (simp_all add: u st_def [symmetric])
qed

end
