(* ===== verification/Lease.thy ===== *)
theory Lease
  imports Kizuki_Prelude
begin

text \<open>
  \<open>packages/core/src/serve/leases.ts\<close>: the writer lease, the one row that says which
  process may write.

  The \<open>leases\<close> table is a map from its primary key, \<open>None\<close> while the table does not
  exist.  A process is its pid, its boot identity and its view of which pids are alive;
  each reading of its clock is an argument of the operation that makes it, and
  \<open>Date.parse\<close> (whose accepted spellings the language leaves to the host) is the argument
  \<open>dateParse\<close>, in milliseconds.  An operation is one transaction: an error leaves the table
  as it was.
\<close>

definition HEARTBEAT_SECONDS :: int where "HEARTBEAT_SECONDS = 10"

definition LEASE_RECLAIM_HEARTBEATS :: int where "LEASE_RECLAIM_HEARTBEATS = 3"

record LeaseRow =
  lease_name :: string
  holder_pid :: int
  holder_boot_id :: string
  acquired_at :: string
  heartbeat_at :: string
  ttl_s :: int

record LeaseProcess =
  pid :: int
  boot_id :: string
  isAlive :: "int \<Rightarrow> bool"

datatype LeaseState = HeldLease | FreeLease | BusyLease

datatype AcquireReason = AcquiredLease | BusyReason | ReclaimedLease | MissingTable

record LeaseAcquireResult =
  acquired :: bool
  lease :: "LeaseRow option"
  reason :: AcquireReason

datatype LeaseError = LeaseIsBusy | LeaseMissing | ConstraintFailed

type_synonym LeaseDb = "(string \<Rightarrow> LeaseRow option) option"
type_synonym date_parse = "string \<Rightarrow> int option"

definition readLease :: "LeaseDb \<Rightarrow> string \<Rightarrow> LeaseRow option" where
  "readLease db name = (case db of None \<Rightarrow> None | Some leases \<Rightarrow> leases name)"

definition ageSeconds :: "date_parse \<Rightarrow> string \<Rightarrow> string \<Rightarrow> int" where
  "ageSeconds dateParse from' to =
     (case (dateParse from', dateParse to) of
        (Some start, Some end') \<Rightarrow> (end' - start) div 1000
      | _ \<Rightarrow> 0)"

definition ownLease :: "LeaseRow \<Rightarrow> LeaseProcess \<Rightarrow> bool" where
  "ownLease row p \<longleftrightarrow> holder_pid row = pid p \<and> holder_boot_id row = boot_id p"

text \<open>A boot identity that names the boot, rather than standing in for one.\<close>

definition otherBoot :: "LeaseRow \<Rightarrow> LeaseProcess \<Rightarrow> bool" where
  "otherBoot row p \<longleftrightarrow>
     holder_boot_id row \<noteq> boot_id p \<and>
     length (holder_boot_id row) > 0 \<and> length (boot_id p) > 0 \<and>
     \<not> startsWith (holder_boot_id row) ''pid:'' \<and> \<not> startsWith (boot_id p) ''pid:''"

definition isBusy :: "date_parse \<Rightarrow> LeaseRow \<Rightarrow> LeaseProcess \<Rightarrow> string \<Rightarrow> bool" where
  "isBusy dateParse row p now =
     (if ownLease row p then False
      else if otherBoot row p then False
      else if isAlive p (holder_pid row) then True
      else ageSeconds dateParse (heartbeat_at row) now
             < HEARTBEAT_SECONDS * LEASE_RECLAIM_HEARTBEATS)"

definition leaseState :: "date_parse \<Rightarrow> LeaseDb \<Rightarrow> LeaseProcess \<Rightarrow> string \<Rightarrow> string \<Rightarrow> LeaseState" where
  "leaseState dateParse db p now name =
     (case readLease db name of
        None \<Rightarrow> FreeLease
      | Some existing \<Rightarrow>
          if ownLease existing p then HeldLease
          else if isBusy dateParse existing p now then BusyLease else FreeLease)"

text \<open>\<open>DELETE\<close>, and \<open>INSERT\<close> under the table's primary key.\<close>

definition deleteLease :: "LeaseDb \<Rightarrow> string \<Rightarrow> LeaseDb" where
  "deleteLease db name = map_option (\<lambda>leases. leases(name := None)) db"

definition insertLease ::
  "LeaseDb \<Rightarrow> string \<Rightarrow> LeaseProcess \<Rightarrow> string \<Rightarrow> int \<Rightarrow> LeaseError + LeaseDb \<times> LeaseRow" where
  "insertLease db name p now ttl =
     (case db of
        None \<Rightarrow> Inl ConstraintFailed
      | Some leases \<Rightarrow>
          if leases name \<noteq> None then Inl ConstraintFailed
          else
            (let row = \<lparr>lease_name = name, holder_pid = pid p, holder_boot_id = boot_id p,
                        acquired_at = now, heartbeat_at = now, ttl_s = ttl\<rparr>
             in Inr (Some (leases(name := Some row)), row)))"

definition reclaimDeadLease ::
  "date_parse \<Rightarrow> LeaseDb \<Rightarrow> string \<Rightarrow> LeaseProcess \<Rightarrow> string \<Rightarrow> LeaseError + LeaseDb \<times> LeaseRow option" where
  "reclaimDeadLease dateParse db name p now =
     (case readLease db name of
        None \<Rightarrow> Inr (db, None)
      | Some existing \<Rightarrow>
          if isBusy dateParse existing p now then Inl LeaseIsBusy
          else if isAlive p (holder_pid existing) \<and> holder_boot_id existing = boot_id p
          then Inr (db, None)
          else Inr (deleteLease db name, Some existing))"

definition heartbeatLease ::
  "LeaseDb \<Rightarrow> LeaseProcess \<Rightarrow> string \<Rightarrow> string \<Rightarrow> LeaseError + LeaseDb" where
  "heartbeatLease db p now name =
     (case readLease db name of
        None \<Rightarrow> Inl LeaseMissing
      | Some existing \<Rightarrow>
          if holder_pid existing \<noteq> pid p \<or> holder_boot_id existing \<noteq> boot_id p
          then Inl LeaseIsBusy
          else Inr (map_option
                 (\<lambda>leases. leases(name := Some (existing\<lparr>heartbeat_at := now\<rparr>))) db))"

definition releaseLease :: "LeaseDb \<Rightarrow> LeaseProcess \<Rightarrow> string \<Rightarrow> LeaseError + LeaseDb" where
  "releaseLease db p name =
     (case readLease db name of
        None \<Rightarrow> Inr db
      | Some existing \<Rightarrow>
          if holder_pid existing \<noteq> pid p \<or> holder_boot_id existing \<noteq> boot_id p
          then Inl LeaseIsBusy
          else Inr (deleteLease db name))"

text \<open>The clock is read once for the decision and again by the heartbeat or reclaim.\<close>

definition acquireLease ::
  "date_parse \<Rightarrow> LeaseDb \<Rightarrow> LeaseProcess \<Rightarrow> string \<Rightarrow> string \<Rightarrow> string \<Rightarrow> int
   \<Rightarrow> LeaseError + LeaseDb \<times> LeaseAcquireResult" where
  "acquireLease dateParse db p now later name ttl =
     (if db = None
      then Inr (db, \<lparr>acquired = False, lease = None, reason = MissingTable\<rparr>)
      else
        (case readLease db name of
           Some existing \<Rightarrow>
             if holder_pid existing = pid p \<and> holder_boot_id existing = boot_id p
             then
               andThen (heartbeatLease db p later name) (\<lambda>db'.
                 Inr (db', \<lparr>acquired = True, lease = readLease db' name, reason = AcquiredLease\<rparr>))
             else if isBusy dateParse existing p now
             then Inr (db, \<lparr>acquired = False, lease = Some existing, reason = BusyReason\<rparr>)
             else
               andThen (reclaimDeadLease dateParse db name p later) (\<lambda>(db', _).
               andThen (insertLease db' name p now ttl) (\<lambda>(db'', after).
                 Inr (db'', \<lparr>acquired = True, lease = Some after, reason = ReclaimedLease\<rparr>)))
         | None \<Rightarrow>
             andThen (insertLease db name p now ttl) (\<lambda>(db', row).
               Inr (db', \<lparr>acquired = True, lease = Some row, reason = AcquiredLease\<rparr>))))"

section \<open>One operation\<close>

datatype LeaseOp =
    AcquireOp LeaseProcess string string int
  | ReclaimOp LeaseProcess string
  | HeartbeatOp LeaseProcess string
  | ReleaseOp LeaseProcess

fun opProcess :: "LeaseOp \<Rightarrow> LeaseProcess" where
  "opProcess (AcquireOp p now later ttl) = p"
| "opProcess (ReclaimOp p now) = p"
| "opProcess (HeartbeatOp p now) = p"
| "opProcess (ReleaseOp p) = p"

text \<open>The table after an operation; a transaction that threw is rolled back.\<close>

definition committed :: "LeaseDb \<Rightarrow> LeaseError + LeaseDb \<times> 'a \<Rightarrow> LeaseDb" where
  "committed db r = (case r of Inl e \<Rightarrow> db | Inr (db', _) \<Rightarrow> db')"

fun leaseStep :: "date_parse \<Rightarrow> string \<Rightarrow> LeaseDb \<Rightarrow> LeaseOp \<Rightarrow> LeaseDb" where
  "leaseStep dateParse name db (AcquireOp p now later ttl) =
     committed db (acquireLease dateParse db p now later name ttl)"
| "leaseStep dateParse name db (ReclaimOp p now) =
     committed db (reclaimDeadLease dateParse db name p now)"
| "leaseStep dateParse name db (HeartbeatOp p now) =
     (case heartbeatLease db p now name of Inl e \<Rightarrow> db | Inr db' \<Rightarrow> db')"
| "leaseStep dateParse name db (ReleaseOp p) =
     (case releaseLease db p name of Inl e \<Rightarrow> db | Inr db' \<Rightarrow> db')"

definition holds :: "LeaseDb \<Rightarrow> string \<Rightarrow> LeaseProcess \<Rightarrow> bool" where
  "holds db name p \<longleftrightarrow> (\<exists>row. readLease db name = Some row \<and> ownLease row p)"

text \<open>The other processes on the holder's boot, while the holder is alive.\<close>

definition leavesHolder :: "LeaseProcess \<Rightarrow> LeaseOp \<Rightarrow> bool" where
  "leavesHolder h op \<longleftrightarrow>
     (let p = opProcess op
      in if pid p = pid h \<and> boot_id p = boot_id h
         then (case op of ReleaseOp _ \<Rightarrow> False | ReclaimOp _ _ \<Rightarrow> isAlive p (pid p) | _ \<Rightarrow> True)
         else isAlive p (pid h) \<and>
              (boot_id p = boot_id h \<or> startsWith (boot_id p) ''pid:'' \<or>
               startsWith (boot_id h) ''pid:''))"

lemma read_insert:
  assumes "insertLease db name p now ttl = Inr (db', row)"
  shows "readLease db name = None" "readLease db' name = Some row" "ownLease row p"
  using assms by (auto simp: insertLease_def readLease_def ownLease_def Let_def
      split: option.splits if_splits)

lemma busy_when_alive:
  assumes "\<not> ownLease row p" "isAlive p (holder_pid row)"
    and "boot_id p = holder_boot_id row \<or> startsWith (boot_id p) ''pid:'' \<or>
      startsWith (holder_boot_id row) ''pid:''"
  shows "isBusy dateParse row p now"
  using assms by (auto simp: isBusy_def otherBoot_def)

lemma heartbeat_own:
  assumes "readLease db name = Some row" "ownLease row p"
  shows "\<exists>db'. heartbeatLease db p now name = Inr db' \<and>
    readLease db' name = Some (row\<lparr>heartbeat_at := now\<rparr>)"
  using assms by (auto simp: heartbeatLease_def readLease_def ownLease_def split: option.splits)

lemma holds_step:
  assumes "leavesHolder h op" "holds db name h"
  shows "holds (leaseStep dateParse name db op) name h"
proof -
  obtain row where row: "readLease db name = Some row" "ownLease row h"
    using assms(2) by (auto simp: holds_def)
  have db: "db \<noteq> None" using row by (auto simp: readLease_def split: option.splits)
  let ?p = "opProcess op"
  show ?thesis
  proof (cases "ownLease row ?p")
    case True
    then have hb: "heartbeatLease db ?p now name =
        Inr (map_option (\<lambda>leases. leases(name := Some (row\<lparr>heartbeat_at := now\<rparr>))) db)" for now
      using row by (auto simp: heartbeatLease_def ownLease_def)
    have hb': "holds (map_option (\<lambda>leases. leases(name := Some (row\<lparr>heartbeat_at := now\<rparr>))) db) name h" for now
      using row db by (auto simp: holds_def readLease_def ownLease_def)
    show ?thesis
      using assms True row db hb hb'
      by (cases op) (auto simp: leavesHolder_def acquireLease_def reclaimDeadLease_def isBusy_def
          committed_def ownLease_def Let_def)
  next
    case False
    then have busy: "isBusy dateParse row ?p now" for now
      using assms(1) row(2) by (intro busy_when_alive) (auto simp: leavesHolder_def Let_def ownLease_def)
    then show ?thesis
      using assms(2) False row db
      by (cases op) (auto simp: acquireLease_def reclaimDeadLease_def heartbeatLease_def
          releaseLease_def committed_def ownLease_def)
  qed
qed

interpretation writer_lease: machine "leaseStep dateParse name" "leavesHolder h"
    "\<lambda>db. holds db name h" "\<lambda>db db'. holds db name h \<longrightarrow> holds db' name h"
  by unfold_locales (auto intro: holds_step)

section \<open>Acquiring\<close>

lemma reclaim_not_busy:
  assumes "readLease db name = Some row" "\<not> ownLease row p" "\<not> isBusy dateParse row p now"
  shows "reclaimDeadLease dateParse db name p now = Inr (deleteLease db name, Some row)"
proof -
  have "\<not> (isAlive p (holder_pid row) \<and> holder_boot_id row = boot_id p)"
    using assms(2,3) by (auto simp: isBusy_def otherBoot_def)
  then show ?thesis using assms by (auto simp: reclaimDeadLease_def)
qed

lemma insert_free:
  assumes "db \<noteq> None" "readLease db name = None"
  shows "\<exists>db' row. insertLease db name p now ttl = Inr (db', row) \<and> holds db' name p"
  using assms by (auto simp: insertLease_def readLease_def holds_def ownLease_def Let_def)

lemma deleteLease_read [simp]:
  "readLease (deleteLease db name) name = None" "deleteLease db name = None \<longleftrightarrow> db = None"
  by (auto simp: deleteLease_def readLease_def split: option.split)

lemma acquire_by_state:
  assumes "db \<noteq> None"
  shows "\<exists>db' r. acquireLease dateParse db p now now name ttl = Inr (db', r) \<and>
    (if leaseState dateParse db p now name = BusyLease
     then \<not> acquired r \<and> db' = db
     else acquired r \<and> holds db' name p)"
proof (cases "readLease db name")
  case None
  then show ?thesis
    using insert_free [OF assms None, of p now ttl] assms
    by (auto simp: acquireLease_def leaseState_def)
next
  case (Some row)
  show ?thesis
  proof (cases "ownLease row p")
    case True
    then obtain db' where "heartbeatLease db p now name = Inr db'"
        "readLease db' name = Some (row\<lparr>heartbeat_at := now\<rparr>)"
      using heartbeat_own [OF Some True] by blast
    then show ?thesis
      using assms Some True by (auto simp: acquireLease_def leaseState_def holds_def ownLease_def)
  next
    case False
    show ?thesis
    proof (cases "isBusy dateParse row p now")
      case True
      then show ?thesis
        using assms Some False by (auto simp: acquireLease_def leaseState_def ownLease_def)
    next
      case free: False
      obtain db' r where "insertLease (deleteLease db name) name p now ttl = Inr (db', r)"
          "holds db' name p"
        using insert_free [of "deleteLease db name" name p now ttl] assms by auto
      then show ?thesis
        using assms Some False free reclaim_not_busy [OF Some False free]
        by (auto simp: acquireLease_def leaseState_def ownLease_def)
    qed
  qed
qed

section \<open>Properties\<close>

text \<open>C18: while a live holder does not release it, its lease stays its own under every
  interleaving of acquire, reclaim, heartbeat and release calls of processes that can see
  the holder is alive and share its boot (or have no boot identity of their own): a live
  writer is never robbed, not even by a stale heartbeat or a parse failure of a timestamp.\<close>

theorem live_lease_never_stolen:
  assumes "list_all (leavesHolder h) ops" and "holds db name h"
  shows "holds (foldl (leaseStep dateParse name) db ops) name h"
  using writer_lease.run_inv [OF assms] .

theorem live_lease_never_stolen_witness:
  "let h = \<lparr>pid = 1, boot_id = ''b'', isAlive = \<lambda>_. True\<rparr>;
       p = \<lparr>pid = 2, boot_id = ''b'', isAlive = \<lambda>_. True\<rparr>;
       db = Some [''writer'' \<mapsto> \<lparr>lease_name = ''writer'', holder_pid = 1, holder_boot_id = ''b'',
              acquired_at = ''a'', heartbeat_at = ''a'', ttl_s = 30\<rparr>]
   in holds (foldl (leaseStep (\<lambda>_. None) ''writer'') db
        [AcquireOp p ''t'' ''t'' 30, ReclaimOp p ''t'', HeartbeatOp h ''t'', ReleaseOp p]) ''writer'' h"
  unfolding Let_def
  by (rule live_lease_never_stolen)
    (simp_all add: leavesHolder_def holds_def readLease_def ownLease_def)

text \<open>acquiring never fails with an error and answers what the read-only status
  answers at the same moment: refused, leaving the table alone, exactly when the status
  is busy, and otherwise acquired with the caller as the holder.\<close>

theorem acquire_matches_state:
  "\<exists>db' r. acquireLease dateParse (Some leases) p now now name ttl = Inr (db', r) \<and>
    (if leaseState dateParse (Some leases) p now name = BusyLease
     then \<not> acquired r \<and> db' = Some leases
     else acquired r \<and> holds db' name p)"
  by (rule acquire_by_state) simp

end
