(* ===== verification/Claim_Contract.thy ===== *)
theory Claim_Contract
  imports Sensitivity Rfc3339
begin

text \<open>
  \<open>packages/core/src/contracts/proposal.ts\<close>: the claim envelope and its validator.

  An envelope arrives as a value of unknown type (\<open>js\<close>) and leaves as a record.  A
  nullable property is an option; a frontmatter value stays the \<open>js\<close> value it was, since
  the validator only checks its shape.
\<close>

section \<open>Vocabulary\<close>

datatype ClaimKind = EntityKind | ClaimClaim | EditKind | MergeKind | DeletionKind | PurgeReviewKind

fun claimKindText :: "ClaimKind \<Rightarrow> string" where
  "claimKindText EntityKind = ''entity''"
| "claimKindText ClaimClaim = ''claim''"
| "claimKindText EditKind = ''edit''"
| "claimKindText MergeKind = ''merge''"
| "claimKindText DeletionKind = ''deletion''"
| "claimKindText PurgeReviewKind = ''purge_review''"

definition CLAIM_KINDS :: "ClaimKind list" where
  "CLAIM_KINDS = [EntityKind, ClaimClaim, EditKind, MergeKind, DeletionKind, PurgeReviewKind]"

datatype AuthorityTier = OwnerCorrection | OwnerAuthored | ConnectorEvidence | ModelInference

fun AUTHORITY_TIERS :: "AuthorityTier \<Rightarrow> nat" where
  "AUTHORITY_TIERS OwnerCorrection = 4"
| "AUTHORITY_TIERS OwnerAuthored = 3"
| "AUTHORITY_TIERS ConnectorEvidence = 2"
| "AUTHORITY_TIERS ModelInference = 1"

fun authorityText :: "AuthorityTier \<Rightarrow> string" where
  "authorityText OwnerCorrection = ''owner_correction''"
| "authorityText OwnerAuthored = ''owner_authored''"
| "authorityText ConnectorEvidence = ''connector_evidence''"
| "authorityText ModelInference = ''model_inference''"

datatype ClaimStatus = Live | Superseded | Reverted | Purged | ProvenanceReduced | Skipped

fun claimStatusText :: "ClaimStatus \<Rightarrow> string" where
  "claimStatusText Live = ''live''"
| "claimStatusText Superseded = ''superseded''"
| "claimStatusText Reverted = ''reverted''"
| "claimStatusText Purged = ''purged''"
| "claimStatusText ProvenanceReduced = ''provenance_reduced''"
| "claimStatusText Skipped = ''skipped''"

definition CLAIM_STATUSES :: "ClaimStatus list" where
  "CLAIM_STATUSES = [Live, Superseded, Reverted, Purged, ProvenanceReduced, Skipped]"

datatype Producer = Deterministic | Llm | Model | Owner | Agent string

fun producerText :: "Producer \<Rightarrow> string" where
  "producerText Deterministic = ''deterministic''"
| "producerText Llm = ''llm''"
| "producerText Model = ''model''"
| "producerText Owner = ''owner''"
| "producerText (Agent i) = ''agent:'' @ i"

datatype ClaimPolarity = Positive | Negative

fun polarityText :: "ClaimPolarity \<Rightarrow> string" where
  "polarityText Positive = ''positive''"
| "polarityText Negative = ''negative''"

datatype ClaimTaint = CleanTaint | QuotedTaint

fun taintText :: "ClaimTaint \<Rightarrow> string" where
  "taintText CleanTaint = ''clean''"
| "taintText QuotedTaint = ''quoted''"

text \<open>\<open>/^[A-Za-z0-9][A-Za-z0-9._-]*$/\<close>\<close>

definition AGENT_ID :: "string \<Rightarrow> bool" where
  "AGENT_ID s \<longleftrightarrow>
     (case s of [] \<Rightarrow> False
      | c # cs \<Rightarrow> isAlnum c \<and> list_all (\<lambda>d. isAlnum d \<or> d \<in> set ''._-'') cs)"

text \<open>\<open>/^[0-9a-f]{64}$/\<close>\<close>

definition SHA256_HEX :: "string \<Rightarrow> bool" where
  "SHA256_HEX s \<longleftrightarrow>
     length s = 64 \<and> list_all (\<lambda>c. isDigit c \<or> in_range (CHR ''a'') (CHR ''f'') c) s"

definition SENSITIVITIES :: "string list" where
  "SENSITIVITIES = [''public'', ''personal'', ''private'']"

text \<open>Which of the enumerated values a text is: the reading behind \<open>includes\<close>.\<close>

definition pick :: "('a \<Rightarrow> string) \<Rightarrow> 'a list \<Rightarrow> js \<Rightarrow> 'a option" where
  "pick show options v =
     (case v of Str s \<Rightarrow> find (\<lambda>x. show x = s) options | _ \<Rightarrow> None)"

definition isProducer :: "js \<Rightarrow> bool" where
  "isProducer v \<longleftrightarrow>
     (case v of
        Str s \<Rightarrow>
          if s = ''deterministic'' \<or> s = ''llm'' \<or> s = ''model'' \<or> s = ''owner'' then True
          else if \<not> startsWith s ''agent:'' then False
          else AGENT_ID (drop 6 s)
      | _ \<Rightarrow> False)"

definition canonicalizeProducer :: "Producer \<Rightarrow> Producer" where
  "canonicalizeProducer v = (if v = Llm then Model else v)"

definition isAuthorityTier :: "js \<Rightarrow> bool" where
  "isAuthorityTier v \<longleftrightarrow>
     pick authorityText [OwnerCorrection, OwnerAuthored, ConnectorEvidence, ModelInference] v \<noteq> None"

definition isClaimKind :: "js \<Rightarrow> bool" where
  "isClaimKind v \<longleftrightarrow> pick claimKindText CLAIM_KINDS v \<noteq> None"

definition isClaimStatus :: "js \<Rightarrow> bool" where
  "isClaimStatus v \<longleftrightarrow> pick claimStatusText CLAIM_STATUSES v \<noteq> None"

fun isScalar :: "js \<Rightarrow> bool" where
  "isScalar (Str s) = True"
| "isScalar (Num q) = True"
| "isScalar NaN = True"
| "isScalar (Infinite neg) = True"
| "isScalar (Boolean b) = True"
| "isScalar v = False"

definition isFrontmatterValue :: "js \<Rightarrow> bool" where
  "isFrontmatterValue v \<longleftrightarrow>
     isScalar v \<or> (case v of Arr vs \<Rightarrow> list_all isScalar vs | _ \<Rightarrow> False)"

record Claim =
  claim_id :: string
  kind :: ClaimKind
  target :: "string option"
  subject :: "string option"
  predicate :: "string option"
  object :: "string option"
  polarity :: ClaimPolarity
  claim_key :: "string option"
  body :: string
  frontmatter :: "(string \<times> js) list"
  provenance :: "string list"
  subjects :: "string list"
  producer :: Producer
  model_ref :: "string option"
  authority :: AuthorityTier
  confidence :: rat
  claim_sensitivity :: Sensitivity
  taint :: ClaimTaint
  valid_from :: string
  valid_to :: "string option"
  asserted_at :: string
  retracted_at :: "string option"
  status :: ClaimStatus
  superseded_by :: "string option"
  receipt_id :: "string option"
  body_hash :: string
  created_at :: string
  corroboration :: int
  last_confirmed_at :: "string option"

section \<open>The validator\<close>

definition CLAIM_SCHEMA :: string where
  "CLAIM_SCHEMA = ''kizuki.claim/v1''"

text \<open>\<open>if (!ok) errors.push(message)\<close>\<close>

definition must :: "bool \<Rightarrow> string \<Rightarrow> string list" where
  "must ok message = (if ok then [] else [message])"

definition nullOr :: "(js \<Rightarrow> bool) \<Rightarrow> js \<Rightarrow> bool" where
  "nullOr ok v \<longleftrightarrow> v = Null \<or> ok v"

definition hexString :: "js \<Rightarrow> bool" where
  "hexString v \<longleftrightarrow> (case v of Str s \<Rightarrow> SHA256_HEX s | _ \<Rightarrow> False)"

definition stringArray :: "js \<Rightarrow> bool" where
  "stringArray v \<longleftrightarrow> (case v of Arr vs \<Rightarrow> list_all isString vs | _ \<Rightarrow> False)"

definition provenanceErrors :: "js \<Rightarrow> string list" where
  "provenanceErrors v =
     (case v of
        Arr vs \<Rightarrow>
          if vs = [] then [''provenance: must name at least one event_id'']
          else must (list_all isNonEmptyString vs) ''provenance: every entry must be a non-empty string''
      | _ \<Rightarrow> [''provenance: must be an array of event_ids''])"

definition frontmatterErrors :: "js \<Rightarrow> string list" where
  "frontmatterErrors v =
     (case v of
        Obj entries \<Rightarrow>
          must (list_all isFrontmatterValue (map snd entries))
            ''frontmatter: values must be scalars or scalar arrays''
      | _ \<Rightarrow> [''frontmatter: must be a plain object''])"

definition corroborationOk :: "js \<Rightarrow> bool" where
  "corroborationOk v \<longleftrightarrow> isSafeInteger v \<and> (case v of Num q \<Rightarrow> q \<ge> 1 | _ \<Rightarrow> False)"

definition claimErrors :: "(string \<times> js) list \<Rightarrow> string list" where
  "claimErrors i =
     must (field i ''schema'' = Str CLAIM_SCHEMA) ''schema: must be \"kizuki.claim/v1\"'' @
     must (isNonEmptyString (field i ''claim_id'')) ''claim_id: must be a non-empty string'' @
     must (isClaimKind (field i ''kind''))
       ''kind: must be one of entity | claim | edit | merge | deletion | purge_review'' @
     must (nullOr isNonEmptyString (field i ''target'')) ''target: must be null or a non-empty string'' @
     must (nullOr isNonEmptyString (field i ''subject'')) ''subject: must be null or a non-empty string'' @
     must (nullOr isNonEmptyString (field i ''predicate'')) ''predicate: must be null or a non-empty string'' @
     must (nullOr isString (field i ''object'')) ''object: must be null or a string'' @
     must (pick polarityText [Positive, Negative] (field i ''polarity'') \<noteq> None)
       ''polarity: must be \"positive\" or \"negative\"'' @
     must (nullOr hexString (field i ''claim_key''))
       ''claim_key: must be null or 64 lowercase hex characters'' @
     must (isString (field i ''body'')) ''body: must be a string'' @
     frontmatterErrors (field i ''frontmatter'') @
     provenanceErrors (field i ''provenance'') @
     must (stringArray (field i ''subjects'')) ''subjects: must be a string array'' @
     must (isProducer (field i ''producer'') \<and> field i ''producer'' \<noteq> Str ''llm'')
       ''producer: must be \"deterministic\", \"model\", \"owner\", or \"agent:<id>\"'' @
     must (nullOr isNonEmptyString (field i ''model_ref'')) ''model_ref: must be null or a non-empty string'' @
     must (isAuthorityTier (field i ''authority''))
       ''authority: must be one of owner_correction | owner_authored | connector_evidence | model_inference'' @
     must (isUnitNumber (field i ''confidence'')) ''confidence: must be a number in [0, 1]'' @
     must (case field i ''sensitivity'' of Str s \<Rightarrow> s \<in> set SENSITIVITIES | _ \<Rightarrow> False)
       ''sensitivity: must be \"public\", \"personal\", or \"private\"'' @
     must (pick taintText [CleanTaint, QuotedTaint] (field i ''taint'') \<noteq> None)
       ''taint: must be \"clean\" or \"quoted\"'' @
     must (isRfc3339 (field i ''valid_from'')) ''valid_from: must be an RFC3339 timestamp'' @
     must (nullOr isRfc3339 (field i ''valid_to'')) ''valid_to: must be null or an RFC3339 timestamp'' @
     must (isRfc3339 (field i ''asserted_at'')) ''asserted_at: must be an RFC3339 timestamp'' @
     must (nullOr isRfc3339 (field i ''retracted_at''))
       ''retracted_at: must be null or an RFC3339 timestamp'' @
     must (isClaimStatus (field i ''status''))
       ''status: must be one of live | superseded | reverted | purged | provenance_reduced | skipped'' @
     must (nullOr isNonEmptyString (field i ''superseded_by''))
       ''superseded_by: must be null or a non-empty string'' @
     must (nullOr isNonEmptyString (field i ''receipt_id''))
       ''receipt_id: must be null or a non-empty string'' @
     must (hexString (field i ''body_hash'')) ''body_hash: must be 64 lowercase hex characters'' @
     must (isRfc3339 (field i ''created_at'')) ''created_at: must be an RFC3339 timestamp'' @
     must (corroborationOk (field i ''corroboration'')) ''corroboration: must be an integer >= 1'' @
     must (nullOr isRfc3339 (field i ''last_confirmed_at''))
       ''last_confirmed_at: must be null or an RFC3339 timestamp''"

text \<open>The casts of the value the validator returns, each guarded by its check.\<close>

fun asText :: "js \<Rightarrow> string" where
  "asText (Str s) = s"
| "asText v = []"

fun asNullable :: "js \<Rightarrow> string option" where
  "asNullable (Str s) = Some s"
| "asNullable v = None"

fun asTexts :: "js \<Rightarrow> string list" where
  "asTexts (Arr vs) = map asText vs"
| "asTexts v = []"

fun asEntries :: "js \<Rightarrow> (string \<times> js) list" where
  "asEntries (Obj entries) = entries"
| "asEntries v = []"

fun asNumber :: "js \<Rightarrow> rat" where
  "asNumber (Num q) = q"
| "asNumber v = 0"

definition asProducer :: "js \<Rightarrow> Producer" where
  "asProducer v =
     (let s = asText v
      in if s = ''deterministic'' then Deterministic
         else if s = ''llm'' then Llm
         else if s = ''model'' then Model
         else if s = ''owner'' then Owner
         else Agent (drop 6 s))"

definition claimValue :: "(string \<times> js) list \<Rightarrow> Claim" where
  "claimValue i =
     \<lparr>claim_id = asText (field i ''claim_id''),
      kind = the (pick claimKindText CLAIM_KINDS (field i ''kind'')),
      target = asNullable (field i ''target''),
      subject = asNullable (field i ''subject''),
      predicate = asNullable (field i ''predicate''),
      object = asNullable (field i ''object''),
      polarity = the (pick polarityText [Positive, Negative] (field i ''polarity'')),
      claim_key = asNullable (field i ''claim_key''),
      body = asText (field i ''body''),
      frontmatter = asEntries (field i ''frontmatter''),
      provenance = asTexts (field i ''provenance''),
      subjects = asTexts (field i ''subjects''),
      producer = asProducer (field i ''producer''),
      model_ref = asNullable (field i ''model_ref''),
      authority = the (pick authorityText
        [OwnerCorrection, OwnerAuthored, ConnectorEvidence, ModelInference] (field i ''authority'')),
      confidence = asNumber (field i ''confidence''),
      claim_sensitivity = the (parseSensitivity (field i ''sensitivity'')),
      taint = the (pick taintText [CleanTaint, QuotedTaint] (field i ''taint'')),
      valid_from = asText (field i ''valid_from''),
      valid_to = asNullable (field i ''valid_to''),
      asserted_at = asText (field i ''asserted_at''),
      retracted_at = asNullable (field i ''retracted_at''),
      status = the (pick claimStatusText CLAIM_STATUSES (field i ''status'')),
      superseded_by = asNullable (field i ''superseded_by''),
      receipt_id = asNullable (field i ''receipt_id''),
      body_hash = asText (field i ''body_hash''),
      created_at = asText (field i ''created_at''),
      corroboration = \<lfloor>asNumber (field i ''corroboration'')\<rfloor>,
      last_confirmed_at = asNullable (field i ''last_confirmed_at'')\<rparr>"

definition validateClaim :: "js \<Rightarrow> string list + Claim" where
  "validateClaim input =
     (case input of
        Obj i \<Rightarrow> (if claimErrors i \<noteq> [] then Inl (claimErrors i) else Inr (claimValue i))
      | _ \<Rightarrow> Inl [''claim: must be a plain object''])"

section \<open>Envelopes of claims\<close>

definition nullable :: "string option \<Rightarrow> js" where
  "nullable v = (case v of None \<Rightarrow> Null | Some s \<Rightarrow> Str s)"

text \<open>The envelope a claim is written as.\<close>

definition claimFields :: "Claim \<Rightarrow> (string \<times> js) list" where
  "claimFields c =
     [(''schema'', Str CLAIM_SCHEMA),
      (''claim_id'', Str (claim_id c)),
      (''kind'', Str (claimKindText (kind c))),
      (''target'', nullable (target c)),
      (''subject'', nullable (subject c)),
      (''predicate'', nullable (predicate c)),
      (''object'', nullable (object c)),
      (''polarity'', Str (polarityText (polarity c))),
      (''claim_key'', nullable (claim_key c)),
      (''body'', Str (body c)),
      (''frontmatter'', Obj (frontmatter c)),
      (''provenance'', Arr (map Str (provenance c))),
      (''subjects'', Arr (map Str (subjects c))),
      (''producer'', Str (producerText (producer c))),
      (''model_ref'', nullable (model_ref c)),
      (''authority'', Str (authorityText (authority c))),
      (''confidence'', Num (confidence c)),
      (''sensitivity'', Str (labelText (claim_sensitivity c))),
      (''taint'', Str (taintText (taint c))),
      (''valid_from'', Str (valid_from c)),
      (''valid_to'', nullable (valid_to c)),
      (''asserted_at'', Str (asserted_at c)),
      (''retracted_at'', nullable (retracted_at c)),
      (''status'', Str (claimStatusText (status c))),
      (''superseded_by'', nullable (superseded_by c)),
      (''receipt_id'', nullable (receipt_id c)),
      (''body_hash'', Str (body_hash c)),
      (''created_at'', Str (created_at c)),
      (''corroboration'', Num (of_int (corroboration c))),
      (''last_confirmed_at'', nullable (last_confirmed_at c))]"

definition unlessNone :: "('a \<Rightarrow> bool) \<Rightarrow> 'a option \<Rightarrow> bool" where
  "unlessNone ok v \<longleftrightarrow> (case v of None \<Rightarrow> True | Some x \<Rightarrow> ok x)"

fun producerOk :: "Producer \<Rightarrow> bool" where
  "producerOk Llm = False"
| "producerOk (Agent i) = AGENT_ID i"
| "producerOk p = True"

abbreviation timestamp :: "string \<Rightarrow> bool" where "timestamp s \<equiv> isRfc3339 (Str s)"

definition wellFormedClaim :: "Claim \<Rightarrow> bool" where
  "wellFormedClaim c \<longleftrightarrow>
     claim_id c \<noteq> [] \<and>
     unlessNone (\<lambda>s. s \<noteq> []) (target c) \<and> unlessNone (\<lambda>s. s \<noteq> []) (subject c) \<and>
     unlessNone (\<lambda>s. s \<noteq> []) (predicate c) \<and> unlessNone SHA256_HEX (claim_key c) \<and>
     list_all isFrontmatterValue (map snd (frontmatter c)) \<and>
     provenance c \<noteq> [] \<and> list_all (\<lambda>s. s \<noteq> []) (provenance c) \<and>
     producerOk (producer c) \<and> unlessNone (\<lambda>s. s \<noteq> []) (model_ref c) \<and>
     0 \<le> confidence c \<and> confidence c \<le> 1 \<and>
     timestamp (valid_from c) \<and> unlessNone timestamp (valid_to c) \<and>
     timestamp (asserted_at c) \<and> unlessNone timestamp (retracted_at c) \<and>
     unlessNone (\<lambda>s. s \<noteq> []) (superseded_by c) \<and> unlessNone (\<lambda>s. s \<noteq> []) (receipt_id c) \<and>
     SHA256_HEX (body_hash c) \<and> timestamp (created_at c) \<and>
     1 \<le> corroboration c \<and> corroboration c \<le> MAX_SAFE_INTEGER \<and>
     unlessNone timestamp (last_confirmed_at c)"

text \<open>Reading one property of an envelope.\<close>

lemma field_nth:
  "distinct (map fst kvs) \<Longrightarrow> n < length kvs \<Longrightarrow> kvs ! n = (k, v) \<Longrightarrow> field kvs k = v"
  by (metis field_def map_of_is_SomeI nth_mem option.simps(5))

definition claimKeys :: "string list" where
  "claimKeys =
     [''schema'', ''claim_id'', ''kind'', ''target'', ''subject'', ''predicate'', ''object'',
      ''polarity'', ''claim_key'', ''body'', ''frontmatter'', ''provenance'', ''subjects'',
      ''producer'', ''model_ref'', ''authority'', ''confidence'', ''sensitivity'', ''taint'',
      ''valid_from'', ''valid_to'', ''asserted_at'', ''retracted_at'', ''status'',
      ''superseded_by'', ''receipt_id'', ''body_hash'', ''created_at'', ''corroboration'',
      ''last_confirmed_at'']"

lemma claimKeys_distinct: "distinct claimKeys"
  by code_simp

lemma claimFields_keys: "map fst (claimFields c) = claimKeys"
  by (simp add: claimFields_def claimKeys_def)

lemma claimField:
  assumes "claimFields c ! n = (k, v)" "n < 30"
  shows "field (claimFields c) k = v"
proof (rule field_nth [OF _ _ assms(1)])
  show "distinct (map fst (claimFields c))"
    by (simp add: claimFields_keys claimKeys_distinct)
  show "n < length (claimFields c)"
    using assms(2) by (simp add: claimFields_def)
qed

lemma field_claimFields:
  "field (claimFields c) ''schema'' = Str CLAIM_SCHEMA"
  "field (claimFields c) ''claim_id'' = Str (claim_id c)"
  "field (claimFields c) ''kind'' = Str (claimKindText (kind c))"
  "field (claimFields c) ''target'' = nullable (target c)"
  "field (claimFields c) ''subject'' = nullable (subject c)"
  "field (claimFields c) ''predicate'' = nullable (predicate c)"
  "field (claimFields c) ''object'' = nullable (object c)"
  "field (claimFields c) ''polarity'' = Str (polarityText (polarity c))"
  "field (claimFields c) ''claim_key'' = nullable (claim_key c)"
  "field (claimFields c) ''body'' = Str (body c)"
  "field (claimFields c) ''frontmatter'' = Obj (frontmatter c)"
  "field (claimFields c) ''provenance'' = Arr (map Str (provenance c))"
  "field (claimFields c) ''subjects'' = Arr (map Str (subjects c))"
  "field (claimFields c) ''producer'' = Str (producerText (producer c))"
  "field (claimFields c) ''model_ref'' = nullable (model_ref c)"
  "field (claimFields c) ''authority'' = Str (authorityText (authority c))"
  "field (claimFields c) ''confidence'' = Num (confidence c)"
  "field (claimFields c) ''sensitivity'' = Str (labelText (claim_sensitivity c))"
  "field (claimFields c) ''taint'' = Str (taintText (taint c))"
  "field (claimFields c) ''valid_from'' = Str (valid_from c)"
  "field (claimFields c) ''valid_to'' = nullable (valid_to c)"
  "field (claimFields c) ''asserted_at'' = Str (asserted_at c)"
  "field (claimFields c) ''retracted_at'' = nullable (retracted_at c)"
  "field (claimFields c) ''status'' = Str (claimStatusText (status c))"
  "field (claimFields c) ''superseded_by'' = nullable (superseded_by c)"
  "field (claimFields c) ''receipt_id'' = nullable (receipt_id c)"
  "field (claimFields c) ''body_hash'' = Str (body_hash c)"
  "field (claimFields c) ''created_at'' = Str (created_at c)"
  "field (claimFields c) ''corroboration'' = Num (of_int (corroboration c))"
  "field (claimFields c) ''last_confirmed_at'' = nullable (last_confirmed_at c)"
proof -
  show "field (claimFields c) ''schema'' = Str CLAIM_SCHEMA"
    by (rule claimField [of c 0]) (simp_all add: claimFields_def)
  show "field (claimFields c) ''claim_id'' = Str (claim_id c)"
    by (rule claimField [of c 1]) (simp_all add: claimFields_def)
  show "field (claimFields c) ''kind'' = Str (claimKindText (kind c))"
    by (rule claimField [of c 2]) (simp_all add: claimFields_def)
  show "field (claimFields c) ''target'' = nullable (target c)"
    by (rule claimField [of c 3]) (simp_all add: claimFields_def)
  show "field (claimFields c) ''subject'' = nullable (subject c)"
    by (rule claimField [of c 4]) (simp_all add: claimFields_def)
  show "field (claimFields c) ''predicate'' = nullable (predicate c)"
    by (rule claimField [of c 5]) (simp_all add: claimFields_def)
  show "field (claimFields c) ''object'' = nullable (object c)"
    by (rule claimField [of c 6]) (simp_all add: claimFields_def)
  show "field (claimFields c) ''polarity'' = Str (polarityText (polarity c))"
    by (rule claimField [of c 7]) (simp_all add: claimFields_def)
  show "field (claimFields c) ''claim_key'' = nullable (claim_key c)"
    by (rule claimField [of c 8]) (simp_all add: claimFields_def)
  show "field (claimFields c) ''body'' = Str (body c)"
    by (rule claimField [of c 9]) (simp_all add: claimFields_def)
  show "field (claimFields c) ''frontmatter'' = Obj (frontmatter c)"
    by (rule claimField [of c 10]) (simp_all add: claimFields_def)
  show "field (claimFields c) ''provenance'' = Arr (map Str (provenance c))"
    by (rule claimField [of c 11]) (simp_all add: claimFields_def)
  show "field (claimFields c) ''subjects'' = Arr (map Str (subjects c))"
    by (rule claimField [of c 12]) (simp_all add: claimFields_def)
  show "field (claimFields c) ''producer'' = Str (producerText (producer c))"
    by (rule claimField [of c 13]) (simp_all add: claimFields_def)
  show "field (claimFields c) ''model_ref'' = nullable (model_ref c)"
    by (rule claimField [of c 14]) (simp_all add: claimFields_def)
  show "field (claimFields c) ''authority'' = Str (authorityText (authority c))"
    by (rule claimField [of c 15]) (simp_all add: claimFields_def)
  show "field (claimFields c) ''confidence'' = Num (confidence c)"
    by (rule claimField [of c 16]) (simp_all add: claimFields_def)
  show "field (claimFields c) ''sensitivity'' = Str (labelText (claim_sensitivity c))"
    by (rule claimField [of c 17]) (simp_all add: claimFields_def)
  show "field (claimFields c) ''taint'' = Str (taintText (taint c))"
    by (rule claimField [of c 18]) (simp_all add: claimFields_def)
  show "field (claimFields c) ''valid_from'' = Str (valid_from c)"
    by (rule claimField [of c 19]) (simp_all add: claimFields_def)
  show "field (claimFields c) ''valid_to'' = nullable (valid_to c)"
    by (rule claimField [of c 20]) (simp_all add: claimFields_def)
  show "field (claimFields c) ''asserted_at'' = Str (asserted_at c)"
    by (rule claimField [of c 21]) (simp_all add: claimFields_def)
  show "field (claimFields c) ''retracted_at'' = nullable (retracted_at c)"
    by (rule claimField [of c 22]) (simp_all add: claimFields_def)
  show "field (claimFields c) ''status'' = Str (claimStatusText (status c))"
    by (rule claimField [of c 23]) (simp_all add: claimFields_def)
  show "field (claimFields c) ''superseded_by'' = nullable (superseded_by c)"
    by (rule claimField [of c 24]) (simp_all add: claimFields_def)
  show "field (claimFields c) ''receipt_id'' = nullable (receipt_id c)"
    by (rule claimField [of c 25]) (simp_all add: claimFields_def)
  show "field (claimFields c) ''body_hash'' = Str (body_hash c)"
    by (rule claimField [of c 26]) (simp_all add: claimFields_def)
  show "field (claimFields c) ''created_at'' = Str (created_at c)"
    by (rule claimField [of c 27]) (simp_all add: claimFields_def)
  show "field (claimFields c) ''corroboration'' = Num (of_int (corroboration c))"
    by (rule claimField [of c 28]) (simp_all add: claimFields_def)
  show "field (claimFields c) ''last_confirmed_at'' = nullable (last_confirmed_at c)"
    by (rule claimField [of c 29]) (simp_all add: claimFields_def)
qed

lemma must_Nil [simp]: "must ok m = [] \<longleftrightarrow> ok"
  by (simp add: must_def)

lemma pick_texts [simp]:
  "pick claimKindText CLAIM_KINDS (Str (claimKindText k)) = Some k"
  "pick polarityText [Positive, Negative] (Str (polarityText p)) = Some p"
  "pick authorityText [OwnerCorrection, OwnerAuthored, ConnectorEvidence, ModelInference]
     (Str (authorityText a)) = Some a"
  "pick taintText [CleanTaint, QuotedTaint] (Str (taintText t)) = Some t"
  "pick claimStatusText CLAIM_STATUSES (Str (claimStatusText st)) = Some st"
proof -
  show "pick claimKindText CLAIM_KINDS (Str (claimKindText k)) = Some k"
    by (cases k) (simp_all add: pick_def CLAIM_KINDS_def)
  show "pick polarityText [Positive, Negative] (Str (polarityText p)) = Some p"
    by (cases p) (simp_all add: pick_def)
  show "pick authorityText [OwnerCorrection, OwnerAuthored, ConnectorEvidence, ModelInference]
     (Str (authorityText a)) = Some a"
    by (cases a) (simp_all add: pick_def)
  show "pick taintText [CleanTaint, QuotedTaint] (Str (taintText t)) = Some t"
    by (cases t) (simp_all add: pick_def)
  show "pick claimStatusText CLAIM_STATUSES (Str (claimStatusText st)) = Some st"
    by (cases st) (simp_all add: pick_def CLAIM_STATUSES_def)
qed

lemma enumerated_texts [simp]:
  "isClaimKind (Str (claimKindText k))" "isAuthorityTier (Str (authorityText a))"
  "isClaimStatus (Str (claimStatusText st))"
  by (simp_all add: isClaimKind_def isAuthorityTier_def isClaimStatus_def)

lemma pick_Some: "pick show options v = Some x \<Longrightarrow> v = Str (show x)"
  by (auto simp: pick_def find_Some_iff split: js.splits)

lemma nullOr_nullable [simp]:
  "nullOr ok (nullable v) \<longleftrightarrow> unlessNone (\<lambda>s. ok (Str s)) v" if "\<not> ok Null"
  by (auto simp: nullOr_def nullable_def unlessNone_def split: option.split)

lemma producer_text:
  "isProducer (Str (producerText p)) \<longleftrightarrow> producerOk p \<or> p = Llm"
  "producerText p = ''llm'' \<longleftrightarrow> p = Llm"
  "asProducer (Str (producerText p)) = p"
proof -
  show "isProducer (Str (producerText p)) \<longleftrightarrow> producerOk p \<or> p = Llm"
    by (cases p) (simp_all add: isProducer_def startsWith_def)
  show "producerText p = ''llm'' \<longleftrightarrow> p = Llm"
    by (cases p) simp_all
  show "asProducer (Str (producerText p)) = p"
    by (cases p) (simp_all add: asProducer_def)
qed

lemma unlessNone_every [simp]: "unlessNone every v"
  by (simp add: unlessNone_def split: option.split)

lemma as_nullable [simp]: "asNullable (nullable v) = v"
  by (simp add: nullable_def split: option.split)

lemma as_texts [simp]: "asTexts (Arr (map Str ws)) = ws"
  by (simp add: comp_def)

lemma label_listed [simp]: "labelText l \<in> set SENSITIVITIES"
  by (cases l) (simp_all add: SENSITIVITIES_def)

lemma isString_map [simp]: "list_all isString (map Str ws)"
  by (simp add: list_all_iff)

lemma corroboration_text:
  "corroborationOk (Num (of_int n)) \<longleftrightarrow> 1 \<le> n \<and> n \<le> MAX_SAFE_INTEGER"
  by (auto simp: corroborationOk_def MAX_SAFE_INTEGER_def)

lemma nonEmpty_map [simp]: "list_all isNonEmptyString (map Str ws) \<longleftrightarrow> list_all (\<lambda>s. s \<noteq> []) ws"
  by (simp add: list_all_iff)

lemma hexString_Str [simp]: "hexString (Str s) = SHA256_HEX s" "\<not> hexString Null"
  by (simp_all add: hexString_def)

lemma claimErrors_Nil: "claimErrors (claimFields c) = [] \<longleftrightarrow> wellFormedClaim c"
  unfolding claimErrors_def field_claimFields append_is_Nil_conv must_Nil
    provenanceErrors_def frontmatterErrors_def js.simps wellFormedClaim_def
  by (cases "producer c = Llm"; cases "provenance c = []")
    (simp_all add: stringArray_def corroboration_text producer_text)

lemma claimValue_claimFields: "claimValue (claimFields c) = c"
  unfolding claimValue_def field_claimFields pick_texts producer_text as_nullable as_texts
  by simp

text \<open>What each check gives for the cast it guards.\<close>

lemma checked_text: "isNonEmptyString v \<Longrightarrow> asText v \<noteq> []"
  by (cases v) auto

lemma checked_nullable:
  "nullOr isNonEmptyString v \<Longrightarrow> unlessNone (\<lambda>s. s \<noteq> []) (asNullable v)"
  "nullOr hexString v \<Longrightarrow> unlessNone SHA256_HEX (asNullable v)"
  "nullOr isRfc3339 v \<Longrightarrow> unlessNone timestamp (asNullable v)"
  by (cases v; auto simp: nullOr_def unlessNone_def hexString_def)+

lemma checked_provenance:
  "provenanceErrors v = [] \<Longrightarrow> asTexts v \<noteq> [] \<and> list_all (\<lambda>s. s \<noteq> []) (asTexts v)"
  by (cases v) (auto simp: provenanceErrors_def list_all_iff checked_text split: if_splits)

lemma checked_frontmatter:
  "frontmatterErrors v = [] \<Longrightarrow> list_all isFrontmatterValue (map snd (asEntries v))"
  by (cases v) (auto simp: frontmatterErrors_def)

lemma checked_producer: "isProducer v \<Longrightarrow> v \<noteq> Str ''llm'' \<Longrightarrow> producerOk (asProducer v)"
  by (cases v) (auto simp: isProducer_def asProducer_def Let_def split: if_splits)

lemma checked_number: "isUnitNumber v \<Longrightarrow> 0 \<le> asNumber v \<and> asNumber v \<le> 1"
  by (cases v) auto

lemma checked_timestamp: "isRfc3339 v \<Longrightarrow> timestamp (asText v)"
  by (cases v) auto

lemma checked_hex: "hexString v \<Longrightarrow> SHA256_HEX (asText v)"
  by (cases v) (auto simp: hexString_def)

lemma checked_corroboration:
  "corroborationOk v \<Longrightarrow> 1 \<le> asNumber v \<and> \<lfloor>asNumber v\<rfloor> \<le> MAX_SAFE_INTEGER"
  by (cases v) (auto simp: corroborationOk_def le_floor_iff)

lemmas checked = checked_text checked_nullable checked_provenance checked_frontmatter
  checked_producer checked_number checked_timestamp checked_hex checked_corroboration

lemma claimErrors_wellFormed:
  assumes "claimErrors i = []"
  shows "wellFormedClaim (claimValue i)"
  using assms unfolding claimErrors_def append_is_Nil_conv must_Nil
  by (simp add: wellFormedClaim_def claimValue_def checked)

section \<open>Properties\<close>


end
