(* ===== verification/Js_Number.thy ===== *)
theory Js_Number
  imports Js_Value
begin

text \<open>
  Arithmetic on the numbers of the language.  A finite number is the rational its double
  denotes; every operation rounds the exact result to the nearest double, ties to even.
  The operands of the modelled code are far below the largest double, so the overflow to
  an infinity is left out; subnormal results are rounded to their coarser grid.
\<close>

definition pow2 :: "int \<Rightarrow> rat" where
  "pow2 e = (if 0 \<le> e then 2 ^ nat e else 1 / 2 ^ nat (- e))"

fun bitLength :: "int \<Rightarrow> int" where
  "bitLength n = (if n \<le> 0 then 0 else 1 + bitLength (n div 2))"

declare bitLength.simps [simp del]

text \<open>The exponent of a positive rational: the largest \<open>e\<close> with \<open>2 ^ e \<le> x\<close>.\<close>

definition exponentOf :: "rat \<Rightarrow> int" where
  "exponentOf x =
     (let (p, q) = quotient_of x;
          e = bitLength p - bitLength q
      in if pow2 e \<le> x then e else e - 1)"

definition roundHalfEven :: "rat \<Rightarrow> int" where
  "roundHalfEven x =
     (let f = \<lfloor>x\<rfloor>; d = x - of_int f
      in if d < 1 / 2 then f
         else if d > 1 / 2 then f + 1
         else if even f then f else f + 1)"

definition toDouble :: "rat \<Rightarrow> rat" where
  "toDouble x =
     (if x = 0 then 0
      else
        (let unit = pow2 (max (exponentOf \<bar>x\<bar>) (-1022) - 52)
         in of_int (roundHalfEven (x / unit)) * unit))"

definition subDouble :: "rat \<Rightarrow> rat \<Rightarrow> rat" where
  "subDouble x y = toDouble (x - y)"

definition addDouble :: "rat \<Rightarrow> rat \<Rightarrow> rat" where
  "addDouble x y = toDouble (x + y)"

definition mulDouble :: "rat \<Rightarrow> rat \<Rightarrow> rat" where
  "mulDouble x y = toDouble (x * y)"

lemma toDouble_zero [simp]: "toDouble 0 = 0"
  by (simp add: toDouble_def)

section \<open>Rounding is exact on doubles\<close>

lemma pow2_powi: "pow2 e = 2 powi e"
  by (simp add: pow2_def power_int_def inverse_eq_divide power_one_over)

lemma bitLength_bounds:
  assumes "0 < n"
  shows "2 powi (bitLength n - 1) \<le> (of_int n :: rat) \<and> of_int n < (2 :: rat) powi bitLength n"
  using assms
proof (induction n rule: bitLength.induct)
  case (1 n)
  have unfold: "bitLength n = 1 + bitLength (n div 2)" using 1(2) by (subst bitLength.simps) simp
  show ?case
  proof (cases "n = 1")
    case True
    then have "bitLength n = 1" using unfold bitLength.simps [of 0] by simp
    then show ?thesis using True by simp
  next
    case False
    then have half: "0 < n div 2" using 1(2) by simp
    let ?b = "bitLength (n div 2)"
    have ih: "2 powi (?b - 1) \<le> (of_int (n div 2) :: rat)" "(of_int (n div 2) :: rat) < 2 powi ?b"
      using 1(1) 1(2) half by simp_all
    have "(2 :: rat) powi ?b = 2 * 2 powi (?b - 1)" by (simp add: power_int_diff)
    moreover have "(2 :: rat) powi (1 + ?b) = 2 * 2 powi ?b" by (simp add: power_int_add)
    moreover have "0 \<le> ?b"
    proof (rule ccontr)
      assume "\<not> 0 \<le> ?b"
      then have "(2 :: rat) powi ?b \<le> 1" by (simp add: power_int_def power_le_one)
      moreover have "(1 :: rat) \<le> of_int (n div 2)" using half by simp
      ultimately show False using ih(2) by simp
    qed
    then have "(2 :: rat) powi ?b = of_int (2 ^ nat ?b)" by (simp add: power_int_def)
    then have "n div 2 < 2 ^ nat ?b" using ih(2) by (simp only: of_int_less_iff)
    then have "n div 2 + 1 \<le> 2 ^ nat ?b" by simp
    then have "(of_int (n div 2 + 1) :: rat) \<le> of_int (2 ^ nat ?b)" by (simp only: of_int_le_iff)
    then have top: "(of_int (n div 2) :: rat) + 1 \<le> 2 powi ?b"
      using \<open>(2 :: rat) powi ?b = of_int (2 ^ nat ?b)\<close> by simp
    have "(of_int n :: rat) = 2 * of_int (n div 2) + of_int (n mod 2)"
      by (metis mult_div_mod_eq of_int_add of_int_mult of_int_numeral)
    moreover have "(0 :: rat) \<le> of_int (n mod 2)" "(of_int (n mod 2) :: rat) \<le> 1" by simp_all
    moreover have "bitLength n - 1 = ?b" "bitLength n = 1 + ?b" using unfold by simp_all
    ultimately show ?thesis using ih top by (simp only:) linarith
  qed
qed

lemma exponentOf_bounds:
  assumes "0 < x"
  shows "2 powi exponentOf x \<le> x \<and> x < 2 powi (exponentOf x + 1)"
proof -
  obtain p q where pq: "quotient_of x = (p, q)" by fastforce
  then have q: "0 < q" and x: "x = of_int p / of_int q"
    using quotient_of_denom_pos quotient_of_div by blast+
  then have p: "0 < p" using assms by (simp add: zero_less_divide_iff)
  let ?a = "bitLength p" and ?b = "bitLength q"
  note a = bitLength_bounds [OF p] and b = bitLength_bounds [OF q]
  have q': "(0 :: rat) < of_int q" using q by simp
  have "x < 2 powi (?a - ?b + 1)"
  proof -
    have "x < 2 powi ?a / of_int q" using a q' by (simp add: x divide_strict_right_mono)
    also have "\<dots> \<le> 2 powi ?a / 2 powi (?b - 1)" using b q' by (intro divide_left_mono mult_pos_pos) simp_all
    also have "\<dots> = 2 powi (?a - ?b + 1)" by (simp add: power_int_diff power_int_add)
    finally show ?thesis .
  qed
  moreover have "2 powi (?a - ?b - 1) \<le> x"
  proof -
    have "2 powi (?a - ?b - 1) = 2 powi (?a - 1) / (2 powi ?b :: rat)" by (simp add: power_int_diff)
    also have "\<dots> \<le> 2 powi (?a - 1) / of_int q" using b q' by (intro divide_left_mono mult_pos_pos) simp_all
    also have "\<dots> \<le> x" using a q' by (simp add: x divide_right_mono)
    finally show ?thesis .
  qed
  ultimately show ?thesis by (simp add: exponentOf_def pq Let_def pow2_powi)
qed

lemma roundHalfEven_int [simp]: "roundHalfEven (of_int n) = n"
  by (simp add: roundHalfEven_def)

lemma roundHalfEven_cases:
  "roundHalfEven x = \<lfloor>x\<rfloor> \<or> (roundHalfEven x = \<lfloor>x\<rfloor> + 1 \<and> of_int \<lfloor>x\<rfloor> < x)"
  by (auto simp: roundHalfEven_def Let_def not_less_iff_gr_or_eq)

lemma roundHalfEven_le:
  assumes "x \<le> of_int n"
  shows "roundHalfEven x \<le> n"
proof -
  have "\<lfloor>x\<rfloor> \<le> n" using assms by (simp add: floor_le_iff)
  moreover have "\<lfloor>x\<rfloor> < n" if "of_int \<lfloor>x\<rfloor> < x"
    using that assms by (metis of_int_less_iff order_less_le_trans)
  ultimately show ?thesis using roundHalfEven_cases [of x] by auto
qed

lemma roundHalfEven_ge:
  assumes "of_int n \<le> x"
  shows "n \<le> roundHalfEven x"
proof -
  have "n \<le> \<lfloor>x\<rfloor>" using assms by (simp add: le_floor_iff)
  then show ?thesis using roundHalfEven_cases [of x] by auto
qed

lemma powi_shift: "(2 :: rat) powi (u + int n) = 2 ^ n * 2 powi u"
  by (simp add: power_int_add)

lemma powi_multiple:
  assumes "u \<le> j"
  shows "of_int m * 2 powi j / 2 powi u = (of_int (m * 2 ^ nat (j - u)) :: rat)"
  using powi_shift [of u "nat (j - u)"] assms by simp

text \<open>A rounded number is a double, and a double is not changed by rounding.\<close>

lemma toDouble_form:
  obtains m j where "toDouble x = of_int m * 2 powi j" "\<bar>m\<bar> \<le> 2 ^ 53" "- 1074 \<le> j"
proof (cases "x = 0")
  case True
  then show ?thesis by (intro that [of 0 0]) simp_all
next
  case False
  let ?u = "max (exponentOf \<bar>x\<bar>) (- 1022) - 52"
  let ?m = "roundHalfEven (x / 2 powi ?u)"
  have "\<bar>x\<bar> < 2 powi (exponentOf \<bar>x\<bar> + 1)" using exponentOf_bounds [of "\<bar>x\<bar>"] False by simp
  also have "\<dots> \<le> 2 powi (?u + 53)" by (intro power_int_increasing) simp_all
  also have "\<dots> = 2 ^ 53 * 2 powi ?u" using powi_shift [of ?u 53] by simp
  finally have "\<bar>x / 2 powi ?u\<bar> \<le> of_int (2 ^ 53)" by (simp add: divide_le_eq)
  from abs_le_D1 [OF this] abs_le_D2 [OF this]
  have "x / 2 powi ?u \<le> of_int (2 ^ 53)" "of_int (- (2 ^ 53)) \<le> x / 2 powi ?u" by simp_all
  then have "\<bar>?m\<bar> \<le> 2 ^ 53" using roundHalfEven_le roundHalfEven_ge by (simp only: abs_le_iff) fastforce
  moreover have "toDouble x = of_int ?m * 2 powi ?u"
    using False by (simp add: toDouble_def Let_def pow2_powi)
  moreover have "- 1074 \<le> ?u" by linarith
  ultimately show ?thesis by (intro that [of ?m ?u])
qed

lemma toDouble_exact:
  assumes "x / 2 powi (max (exponentOf \<bar>x\<bar>) (- 1022) - 52) = of_int n"
  shows "toDouble x = x"
proof -
  have "x = of_int n * 2 powi (max (exponentOf \<bar>x\<bar>) (- 1022) - 52)"
    using assms by (simp add: divide_eq_eq)
  then show ?thesis using assms by (auto simp: toDouble_def Let_def pow2_powi)
qed

lemma toDouble_double:
  assumes "\<bar>m\<bar> \<le> 2 ^ 53" "- 1074 \<le> j"
  shows "toDouble (of_int m * 2 powi j) = of_int m * 2 powi j"
proof (cases "m = 0")
  case False
  let ?y = "of_int m * 2 powi j :: rat"
  let ?e = "exponentOf \<bar>?y\<bar>"
  let ?u = "max ?e (- 1022) - 52"
  have e: "2 powi ?e \<le> \<bar>?y\<bar>" using exponentOf_bounds [of "\<bar>?y\<bar>"] False by simp
  show ?thesis
  proof (cases "?u \<le> j")
    case True
    then have "?y / 2 powi ?u = of_int (m * 2 ^ nat (j - ?u))" by (rule powi_multiple)
    then show ?thesis by (rule toDouble_exact)
  next
    case False
    then have up: "j + 53 \<le> ?e" using assms(2) by simp
    have size: "\<bar>?y\<bar> = of_int \<bar>m\<bar> * 2 powi j" by (simp add: abs_mult)
    have "of_int \<bar>m\<bar> \<le> (2 ^ 53 :: rat)" using assms(1) by (metis of_int_le_iff of_int_numeral of_int_power)
    then have "\<bar>?y\<bar> \<le> 2 ^ 53 * 2 powi j" unfolding size by (intro mult_right_mono) simp_all
    also have "\<dots> = 2 powi (j + 53)" by (simp add: power_int_add)
    finally have top: "\<bar>?y\<bar> \<le> 2 powi (j + 53)" .
    have "2 powi (j + 53) \<le> (2 :: rat) powi ?e" using up by (intro power_int_increasing) simp_all
    then have "(2 :: rat) powi ?e = 2 powi (j + 53)" "\<bar>?y\<bar> = 2 powi (j + 53)" using e top by simp_all
    then have "\<not> j + 53 < ?e" using power_int_strict_increasing [of "j + 53" ?e "2 :: rat"] by auto
    then have ej: "?e = j + 53" using up by simp
    have "\<bar>m\<bar> = 2 ^ 53"
    proof -
      have "of_int \<bar>m\<bar> * 2 powi j = 2 ^ 53 * (2 powi j :: rat)"
        using \<open>\<bar>?y\<bar> = 2 powi (j + 53)\<close> size by (simp add: power_int_add)
      then have "of_int \<bar>m\<bar> = (of_int (2 ^ 53) :: rat)" by simp
      then show ?thesis by (simp only: of_int_eq_iff)
    qed
    moreover have "?u = j + 1" using ej assms(2) by simp
    ultimately have "?y / 2 powi ?u = of_int (sgn m * 2 ^ 52)"
      by (cases "0 \<le> m") (auto simp: power_int_add sgn_if abs_if split: if_splits)
    then show ?thesis by (rule toDouble_exact)
  qed
qed simp

lemma toDouble_idem [simp]: "toDouble (toDouble x) = toDouble x"
  by (rule toDouble_form [of x]) (simp add: toDouble_double)

end
