(* ===== verification/Conflict.thy ===== *)
theory Conflict
  imports Claim_Contract Js_Number
begin

text \<open>
  \<open>packages/core/src/claims/predicates.ts\<close>, the object comparison of
  \<open>packages/core/src/claims/hash.ts\<close> and \<open>packages/core/src/claims/conflict.ts\<close>:
  when two claims conflict and which of them survives.

  A confidence is the rational its double denotes; the one arithmetic step on
  confidences, a subtraction, rounds to the nearest double with ties to even, as the
  language does.
\<close>

section \<open>Predicates\<close>

datatype PredicateCardinality = SingleValued | MultiValued

record PredicateSpec =
  predicate_id :: string
  cardinality :: PredicateCardinality
  subject_kinds :: "string list"

abbreviation spec :: "string \<Rightarrow> PredicateCardinality \<Rightarrow> string list \<Rightarrow> PredicateSpec" where
  "spec i c ks \<equiv> \<lparr>predicate_id = i, cardinality = c, subject_kinds = ks\<rparr>"

definition PREDICATE_REGISTRY :: "PredicateSpec list" where
  "PREDICATE_REGISTRY =
    [spec ''identity.display_name'' SingleValued [''person'', ''org''],
     spec ''identity.handle_on'' MultiValued [''person'', ''org''],
     spec ''identity.same_as'' MultiValued [''person'', ''org'', ''project''],
     spec ''contact.email'' MultiValued [''person'', ''org''],
     spec ''contact.phone'' MultiValued [''person'', ''org''],
     spec ''location.based_in'' SingleValued [''person'', ''org''],
     spec ''employment.works_at'' SingleValued [''person''],
     spec ''employment.role'' SingleValued [''person''],
     spec ''project.owns'' MultiValued [''person'', ''org''],
     spec ''project.works_on'' MultiValued [''person''],
     spec ''project.status'' SingleValued [''project''],
     spec ''commitment.owes'' MultiValued [''person''],
     spec ''commitment.due'' SingleValued [''person'', ''project''],
     spec ''relation.knows'' MultiValued [''person''],
     spec ''relation.reports_to'' SingleValued [''person''],
     spec ''preference.prefers'' MultiValued [''person''],
     spec ''preference.avoids'' MultiValued [''person''],
     spec ''taste.likes_style'' MultiValued [''person''],
     spec ''decision.decided'' MultiValued [''person''],
     spec ''decision.rejected'' MultiValued [''person''],
     spec ''tool.uses'' MultiValued [''person''],
     spec ''tool.abandoned'' MultiValued [''person''],
     spec ''skill.has'' MultiValued [''person''],
     spec ''health.metric'' MultiValued [''person''],
     spec ''outcome.reached'' MultiValued [''person'', ''project''],
     spec ''outcome.missed'' MultiValued [''person'', ''project''],
     spec ''outcome.self_report'' MultiValued [''person'', ''project'', ''procedure''],
     spec ''outcome.provider_ack'' MultiValued [''person'', ''project'', ''procedure''],
     spec ''outcome.observation'' MultiValued [''person'', ''project'', ''procedure''],
     spec ''outcome.review'' MultiValued [''person'', ''project'', ''procedure'']]"

definition predicateIds :: "string list" where
  "predicateIds = map predicate_id PREDICATE_REGISTRY"

text \<open>\<open>new Map(entries).get\<close>: a later entry of the same id would win.\<close>

definition getPredicate :: "string \<Rightarrow> PredicateSpec option" where
  "getPredicate i = map_of (rev (map (\<lambda>e. (predicate_id e, e)) PREDICATE_REGISTRY)) i"

definition isRegisteredPredicate :: "string \<Rightarrow> bool" where
  "isRegisteredPredicate i \<longleftrightarrow> getPredicate i \<noteq> None"

definition isSingleValuedPredicate :: "string \<Rightarrow> bool" where
  "isSingleValuedPredicate i \<longleftrightarrow>
     (case getPredicate i of None \<Rightarrow> False | Some e \<Rightarrow> cardinality e = SingleValued)"

section \<open>Objects\<close>

text \<open>\<open>toLocaleLowerCase("en-US")\<close> on the code units below 256.\<close>

definition lowerChar :: "char \<Rightarrow> char" where
  "lowerChar c =
     (let n = of_char c :: nat
      in if isUpper c \<or> (192 \<le> n \<and> n \<le> 222 \<and> n \<noteq> 215) then char_of (n + 32) else c)"

text \<open>\<open>[\p{P}\p{S}]\<close> on the code units below 256.\<close>

definition isPunctuationOrSymbol :: "char \<Rightarrow> bool" where
  "isPunctuationOrSymbol c \<longleftrightarrow>
     (let n = of_char c :: nat
      in (33 \<le> n \<and> n \<le> 47) \<or> (58 \<le> n \<and> n \<le> 64) \<or> (91 \<le> n \<and> n \<le> 96) \<or>
         (123 \<le> n \<and> n \<le> 126) \<or> (161 \<le> n \<and> n \<le> 169) \<or> n = 171 \<or> n = 172 \<or>
         (174 \<le> n \<and> n \<le> 177) \<or> n = 180 \<or> n = 182 \<or> n = 183 \<or> n = 184 \<or> n = 187 \<or>
         n = 191 \<or> n = 215 \<or> n = 247)"

text \<open>\<open>replace(/\s+/g, " ")\<close>\<close>

function collapseSpaces :: "string \<Rightarrow> string" where
  "collapseSpaces [] = []"
| "collapseSpaces (c # cs) =
     (if isSpace c then CHR '' '' # collapseSpaces (dropWhile isSpace cs)
      else c # collapseSpaces cs)"
  by pat_completeness auto
termination
  by (relation "measure length") (auto simp: le_imp_less_Suc length_dropWhile_le)

definition normalizeObject :: "string \<Rightarrow> string" where
  "normalizeObject v =
     trim (rev (dropWhile isPunctuationOrSymbol
       (rev (trim (collapseSpaces (map lowerChar v))))))"

definition objectsMatch :: "string option \<Rightarrow> string option \<Rightarrow> bool" where
  "objectsMatch left right \<longleftrightarrow>
     (case (left, right) of
        (Some l, Some r) \<Rightarrow> normalizeObject l = normalizeObject r
      | _ \<Rightarrow> left = right)"

definition polaritiesConflict :: "ClaimPolarity \<Rightarrow> ClaimPolarity \<Rightarrow> bool" where
  "polaritiesConflict left right \<longleftrightarrow> left \<noteq> right"

section \<open>Conflicts\<close>

definition CONFLICT_MARGIN :: rat where
  "CONFLICT_MARGIN = toDouble (15 / 100)"

definition EPSILON :: rat where
  "EPSILON = 1 / 2 ^ 52"

datatype ConflictRule = R1 | R2 | R3 | R4 | R5 | R6

datatype Side = Incoming | LiveSide

datatype Resolution =
    Supersede Side ConflictRule
  | SkipBelowAuthority ConflictRule
  | Contested

record ConflictClaim =
  cc_claim_id :: string
  cc_claim_key :: "string option"
  cc_polarity :: ClaimPolarity
  cc_object :: "string option"
  cc_predicate :: "string option"
  cc_authority :: AuthorityTier
  cc_confidence :: rat
  cc_valid_from :: string
  cc_valid_to :: "string option"
  cc_status :: ClaimStatus
  cc_purged :: bool

definition startsBeforeEnd :: "string \<Rightarrow> string option \<Rightarrow> TimeError + bool" where
  "startsBeforeEnd from' end' =
     (case end' of
        None \<Rightarrow> Inr True
      | Some e \<Rightarrow> andThen (compareRfc3339 from' ''valid_from'' e ''valid_to'') (\<lambda>c. Inr (c < 0)))"

definition validityOverlaps :: "ConflictClaim \<Rightarrow> ConflictClaim \<Rightarrow> TimeError + bool" where
  "validityOverlaps left right =
     andThen (startsBeforeEnd (cc_valid_from left) (cc_valid_to right)) (\<lambda>l.
     andThen (startsBeforeEnd (cc_valid_from right) (cc_valid_to left)) (\<lambda>r. Inr (l \<and> r)))"

definition claimsConflict :: "ConflictClaim \<Rightarrow> ConflictClaim \<Rightarrow> TimeError + bool" where
  "claimsConflict left right =
     (if cc_claim_key left = None \<or> cc_claim_key left \<noteq> cc_claim_key right then Inr False
      else
        andThen (validityOverlaps left right) (\<lambda>overlaps.
          if \<not> overlaps then Inr False
          else if polaritiesConflict (cc_polarity left) (cc_polarity right) then Inr True
          else
            Inr (case cc_predicate left of
                   None \<Rightarrow> False
                 | Some p \<Rightarrow>
                     isSingleValuedPredicate p \<and> \<not> objectsMatch (cc_object left) (cc_object right))))"

definition laterWins :: "ConflictClaim \<Rightarrow> ConflictClaim \<Rightarrow> TimeError + Side" where
  "laterWins incoming live =
     andThen (compareRfc3339 (cc_valid_from incoming) ''valid_from''
        (cc_valid_from live) ''valid_from'') (\<lambda>recency.
       Inr (if recency \<noteq> 0 then (if recency > 0 then Incoming else LiveSide)
            else if cc_confidence incoming \<noteq> cc_confidence live
              then (if cc_confidence incoming > cc_confidence live then Incoming else LiveSide)
            else if cc_claim_id incoming > cc_claim_id live then Incoming else LiveSide))"

definition sameTierResolution ::
  "ConflictClaim \<Rightarrow> ConflictClaim \<Rightarrow> bool \<Rightarrow> TimeError + Resolution" where
  "sameTierResolution incoming live allowMargin =
     andThen (laterWins incoming live) (\<lambda>winner.
       let loser = (if winner = Incoming then live else incoming);
           winnerClaim = (if winner = Incoming then incoming else live);
           margin = subDouble (cc_confidence winnerClaim) (cc_confidence loser)
       in if allowMargin \<and> AUTHORITY_TIERS (cc_authority incoming) \<le> 2 \<and>
             AUTHORITY_TIERS (cc_authority live) \<le> 2 \<and>
             margin < subDouble CONFLICT_MARGIN EPSILON
          then Inr Contested
          else Inr (Supersede winner R3))"

definition resolveConflict :: "ConflictClaim \<Rightarrow> ConflictClaim \<Rightarrow> TimeError + Resolution" where
  "resolveConflict incoming live =
     (if cc_status live = Purged \<or> cc_purged live then Inr (Supersede Incoming R6)
      else if cc_authority incoming = OwnerCorrection
      then (if cc_authority live = OwnerCorrection then sameTierResolution incoming live False
            else Inr (Supersede Incoming R5))
      else if cc_authority live = OwnerCorrection then Inr (SkipBelowAuthority R1)
      else if cc_authority incoming = ModelInference \<and> AUTHORITY_TIERS (cc_authority live) \<ge> 2
      then Inr (SkipBelowAuthority R2)
      else if AUTHORITY_TIERS (cc_authority incoming) > AUTHORITY_TIERS (cc_authority live)
      then Inr (Supersede Incoming R1)
      else if AUTHORITY_TIERS (cc_authority incoming) < AUTHORITY_TIERS (cc_authority live)
      then Inr (SkipBelowAuthority R1)
      else sameTierResolution incoming live True)"

section \<open>The order of claims\<close>

text \<open>What \<open>laterWins\<close> compares: the instant, then the confidence, then the identity.\<close>

definition claimRank :: "ConflictClaim \<Rightarrow> int \<times> rat \<times> string" where
  "claimRank c = (nanosOf (cc_valid_from c), cc_confidence c, cc_claim_id c)"

definition readable :: "ConflictClaim \<Rightarrow> bool" where
  "readable c \<longleftrightarrow> isRfc3339 (Str (cc_valid_from c))"

definition gone :: "ConflictClaim \<Rightarrow> bool" where
  "gone c \<longleftrightarrow> cc_status c = Purged \<or> cc_purged c"

lemma laterWins_rank:
  assumes "readable a" "readable b"
  shows "laterWins a b = Inr (if claimRank b < claimRank a then Incoming else LiveSide)"
  using assms
  by (auto simp: laterWins_def claimRank_def readable_def compareRfc3339_nanos)

text \<open>What is left of two conflicting claims.\<close>

fun survivors :: "ConflictClaim \<Rightarrow> ConflictClaim \<Rightarrow> Resolution \<Rightarrow> ConflictClaim set" where
  "survivors incoming live (Supersede Incoming r) = {incoming}"
| "survivors incoming live (Supersede LiveSide r) = {live}"
| "survivors incoming live (SkipBelowAuthority r) = {live}"
| "survivors incoming live Contested = {incoming, live}"

definition outcome :: "ConflictClaim \<Rightarrow> ConflictClaim \<Rightarrow> TimeError + ConflictClaim set" where
  "outcome incoming live =
     andThen (resolveConflict incoming live) (\<lambda>r. Inr (survivors incoming live r))"

lemma tier_cases:
  "(AUTHORITY_TIERS t = 4 \<longleftrightarrow> t = OwnerCorrection) \<and> (AUTHORITY_TIERS t = 1 \<longleftrightarrow> t = ModelInference) \<and>
   1 \<le> AUTHORITY_TIERS t \<and> AUTHORITY_TIERS t \<le> 4"
  by (cases t) simp_all

lemma tier_inj: "AUTHORITY_TIERS s = AUTHORITY_TIERS t \<longleftrightarrow> s = t"
  by (cases s; cases t) simp_all

text \<open>The closed form of the rules for a live claim that is not gone.\<close>

definition closeCall :: "ConflictClaim \<Rightarrow> ConflictClaim \<Rightarrow> bool" where
  "closeCall winner loser \<longleftrightarrow>
     AUTHORITY_TIERS (cc_authority winner) \<le> 2 \<and>
     subDouble (cc_confidence winner) (cc_confidence loser) < subDouble CONFLICT_MARGIN EPSILON"

definition settled :: "ConflictClaim \<Rightarrow> ConflictClaim \<Rightarrow> ConflictClaim set" where
  "settled a b =
     (if AUTHORITY_TIERS (cc_authority a) > AUTHORITY_TIERS (cc_authority b) then {a}
      else if AUTHORITY_TIERS (cc_authority a) < AUTHORITY_TIERS (cc_authority b) then {b}
      else if claimRank b < claimRank a then (if closeCall a b then {a, b} else {a})
      else (if closeCall b a then {a, b} else {b}))"

lemma sameTier_settled:
  assumes "readable a" "readable b" "cc_authority a = cc_authority b"
    and "allow = (cc_authority a \<noteq> OwnerCorrection)"
  shows "andThen (sameTierResolution a b allow) (\<lambda>r. Inr (survivors a b r)) = Inr (settled a b)"
proof -
  have "cc_authority a = OwnerCorrection \<Longrightarrow> \<not> AUTHORITY_TIERS (cc_authority a) \<le> 2" by simp
  then show ?thesis
    using assms(3,4)
    by (auto simp: sameTierResolution_def laterWins_rank [OF assms(1,2)] settled_def closeCall_def Let_def)
qed

lemma outcome_settled:
  assumes "readable a" "readable b" "\<not> gone b"
  shows "outcome a b = Inr (settled a b)"
proof -
  consider "cc_authority a = cc_authority b" | "cc_authority a \<noteq> cc_authority b" by blast
  then show ?thesis
  proof cases
    case 1
    then have "resolveConflict a b = sameTierResolution a b (cc_authority a \<noteq> OwnerCorrection)"
      using assms(3) by (auto simp: resolveConflict_def gone_def)
    with sameTier_settled [OF assms(1,2) 1 refl] show ?thesis by (simp add: outcome_def)
  next
    case 2
    then show ?thesis
      using assms(3)
      by (cases "cc_authority a"; cases "cc_authority b")
        (simp_all add: outcome_def resolveConflict_def gone_def settled_def)
  qed
qed

lemma settled_commute:
  assumes "claimRank a \<noteq> claimRank b"
  shows "settled a b = settled b a"
  using assms by (auto simp: settled_def dest: less_asym)

lemma rank_differs: "cc_claim_id a \<noteq> cc_claim_id b \<Longrightarrow> claimRank a \<noteq> claimRank b"
  by (simp add: claimRank_def)

section \<open>Corrections of the owner\<close>

definition correction :: "ConflictClaim \<Rightarrow> bool" where
  "correction c \<longleftrightarrow> readable c \<and> \<not> gone c \<and> cc_authority c = OwnerCorrection"

text \<open>The one survivor of a conflict of two corrections.\<close>

definition keepCorrection :: "ConflictClaim \<Rightarrow> ConflictClaim \<Rightarrow> ConflictClaim" where
  "keepCorrection incoming live =
     (case resolveConflict incoming live of
        Inr (Supersede Incoming r) \<Rightarrow> incoming
      | _ \<Rightarrow> live)"

lemma keepCorrection_rank:
  assumes "correction a" "correction b"
  shows "keepCorrection a b = (if claimRank b < claimRank a then a else b)"
  using assms
  by (auto simp: keepCorrection_def resolveConflict_def correction_def gone_def
      sameTierResolution_def laterWins_rank Let_def)

interpretation corrections: ranked_choice claimRank correction keepCorrection
  by unfold_locales (rule keepCorrection_rank)

definition demoClaim :: "string \<Rightarrow> AuthorityTier \<Rightarrow> rat \<Rightarrow> ConflictClaim" where
  "demoClaim i tier conf =
     \<lparr>cc_claim_id = i, cc_claim_key = Some ''k'', cc_polarity = Positive, cc_object = Some i,
      cc_predicate = Some ''employment.role'', cc_authority = tier, cc_confidence = conf,
      cc_valid_from = ''2024-01-01T00:00:00Z'', cc_valid_to = None, cc_status = Live,
      cc_purged = False\<rparr>"

lemma demo_timestamp: "isRfc3339 (Str ''2024-01-01T00:00:00Z'')"
  by code_simp

lemma demoClaim_facts [simp]:
  "readable (demoClaim i t c)" "\<not> gone (demoClaim i t c)" "cc_claim_id (demoClaim i t c) = i"
  "cc_authority (demoClaim i t c) = t" "cc_confidence (demoClaim i t c) = c"
  by (simp_all add: demoClaim_def readable_def gone_def demo_timestamp)

lemma demoClaim_rank:
  "claimRank (demoClaim i t c) < claimRank (demoClaim j t' d) \<longleftrightarrow> c < d \<or> (c = d \<and> i < j)"
  by (auto simp: claimRank_def demoClaim_def)

section \<open>Properties\<close>

text \<open>C20: which of two conflicting claims survive (one, or both when contested) does not
  depend on which of them arrived first, and resolving them never fails.\<close>

theorem conflict_order_independent:
  assumes "readable a" "readable b" "\<not> gone a" "\<not> gone b" "cc_claim_id a \<noteq> cc_claim_id b"
  shows "outcome a b = outcome b a \<and> (\<exists>s. outcome a b = Inr s \<and> s \<noteq> {} \<and> s \<subseteq> {a, b})"
  using assms outcome_settled settled_commute [OF rank_differs [OF assms(5)]]
  by (auto simp: settled_def)

theorem conflict_order_independent_witness:
  "outcome (demoClaim ''a'' OwnerAuthored (1 / 2)) (demoClaim ''b'' OwnerAuthored (3 / 4)) =
   outcome (demoClaim ''b'' OwnerAuthored (3 / 4)) (demoClaim ''a'' OwnerAuthored (1 / 2))"
  using conflict_order_independent [of "demoClaim ''a'' OwnerAuthored (1 / 2)"
      "demoClaim ''b'' OwnerAuthored (3 / 4)"] by simp

text \<open>C21: a live owner correction is displaced only by another owner correction that is
  later, or as recent and more confident, or tied with a larger identity; a claim of any
  other authority leaves it the only survivor, whichever of the two came first.\<close>

theorem owner_correction_stands:
  assumes "readable a" "readable b" "\<not> gone a" "\<not> gone b" "cc_claim_id a \<noteq> cc_claim_id b"
    and "cc_authority b = OwnerCorrection"
  shows "outcome a b =
    Inr (if cc_authority a = OwnerCorrection \<and> claimRank b < claimRank a then {a} else {b})"
  using assms tier_cases [of "cc_authority a"] tier_inj
  by (auto simp: outcome_settled settled_def closeCall_def)

theorem owner_correction_stands_witness:
  "outcome (demoClaim ''a'' ConnectorEvidence 1) (demoClaim ''b'' OwnerCorrection (1 / 2)) =
   Inr {demoClaim ''b'' OwnerCorrection (1 / 2)}"
  using owner_correction_stands [of "demoClaim ''a'' ConnectorEvidence 1"
      "demoClaim ''b'' OwnerCorrection (1 / 2)"] by simp

text \<open>processing any number of owner corrections of one key leaves the one of highest
  rank (latest instant, then confidence, then identity) in every order of arrival.\<close>

theorem corrections_any_order:
  assumes "list_all correction (a # xs)" "distinct (map cc_claim_id (a # xs))"
    and "mset (a # xs) = mset (b # ys)"
  shows "foldl (\<lambda>live incoming. keepCorrection incoming live) a xs =
      foldl (\<lambda>live incoming. keepCorrection incoming live) b ys \<and>
    (\<forall>c\<in>set (a # xs). claimRank c \<le>
      claimRank (foldl (\<lambda>live incoming. keepCorrection incoming live) a xs))"
proof -
  have "map cc_claim_id (a # xs) = map (snd \<circ> snd) (map claimRank (a # xs))"
    by (simp add: claimRank_def)
  then have d: "distinct (map claimRank (a # xs))"
    using assms(2) by (metis distinct_map)
  have v: "correction a" "list_all correction xs" using assms(1) by simp_all
  show ?thesis
    using corrections.keep_any_order [OF assms(1) d assms(3)] corrections.keep_fold [OF v d] by blast
qed

theorem corrections_any_order_witness:
  "foldl (\<lambda>live incoming. keepCorrection incoming live) (demoClaim ''a'' OwnerCorrection 1)
     [demoClaim ''b'' OwnerCorrection (1 / 2)] =
   foldl (\<lambda>live incoming. keepCorrection incoming live) (demoClaim ''b'' OwnerCorrection (1 / 2))
     [demoClaim ''a'' OwnerCorrection 1]"
  using corrections_any_order [of "demoClaim ''a'' OwnerCorrection 1"
      "[demoClaim ''b'' OwnerCorrection (1 / 2)]" "demoClaim ''b'' OwnerCorrection (1 / 2)"
      "[demoClaim ''a'' OwnerCorrection 1]"]
  by (simp add: correction_def add_mset_commute)

end
