(* ===== verification/Claim_Authority.thy ===== *)
theory Claim_Authority
  imports Claim_Contract
begin

text \<open>
  \<open>packages/core/src/claims/authority.ts\<close>: which authority tier a draft earns from who
  produced it and from the events it cites.

  \<open>authorityFor\<close> first builds one draft from the claim and the caller's extras; the model
  takes the draft it built (\<open>AuthorityDraft\<close>) and the extras that are read after it.
\<close>

definition SINGLE_SOURCE_CAP :: rat where
  "SINGLE_SOURCE_CAP = 1 / 2"

datatype EventTaint = Untrusted | OwnerTaint

datatype Intent = ProposeIntent | CorrectIntent

record EventFacts =
  ef_event_id :: string
  ef_connector_id :: string
  ef_taint :: EventTaint
  ef_text :: string

record AuthorityDraft =
  ad_producer :: Producer
  ad_taint :: ClaimTaint
  ad_body :: string
  ad_provenance :: "string list"
  ad_confidence :: rat
  ad_intent :: "Intent option"

record AuthorityExtras =
  ae_producer :: Producer
  ae_hasCorroboration :: bool
  ae_relayCeiling :: "AuthorityTier option"

record AuthorityAssignment =
  aa_authority :: AuthorityTier
  aa_confidence :: rat
  aa_relayed_by :: "string option"

datatype AuthorityError = RequiresProvenance

section \<open>Quotations\<close>

text \<open>\<open>s.includes(t)\<close>\<close>

fun containsText :: "string \<Rightarrow> string \<Rightarrow> bool" where
  "containsText [] t = (t = [])"
| "containsText (c # cs) t = (startsWith (c # cs) t \<or> containsText cs t)"

text \<open>\<open>split(/\r?\n/)\<close>: a carriage return right before a line feed belongs to the break.\<close>

definition dropReturn :: "string \<Rightarrow> string" where
  "dropReturn line = (if line \<noteq> [] \<and> last line = CHR 0x0D then butlast line else line)"

definition splitLines :: "string \<Rightarrow> string list" where
  "splitLines s =
     (let parts = split_on (CHR 0x0A) s
      in map dropReturn (butlast parts) @ [last parts])"

definition unquote :: "string \<Rightarrow> string" where
  "unquote line =
     (if startsWith line ''> '' then drop 2 line
      else if startsWith line ''>'' then drop 1 line
      else line)"

definition isVerbatimQuote :: "AuthorityDraft \<Rightarrow> EventFacts list \<Rightarrow> bool" where
  "isVerbatimQuote draft events =
     (if ad_taint draft \<noteq> QuotedTaint then False
      else
        (let body = trim (ad_body draft)
         in if \<not> startsWith body ''>'' then False
            else
              (let quoted = trim (join_with [CHR 0x0A] (map unquote (splitLines body)))
               in if quoted = [] then False
                  else list_ex (\<lambda>event. containsText (ef_text event) quoted \<or>
                         containsText quoted (trim (ef_text event))) events)))"

section \<open>The tier\<close>

definition baseAuthority :: "Producer \<Rightarrow> AuthorityDraft \<Rightarrow> EventFacts list \<Rightarrow> AuthorityTier" where
  "baseAuthority who draft events =
     (if ad_intent draft = Some CorrectIntent then OwnerCorrection
      else if who = Owner then OwnerAuthored
      else if who = Model
        then (if isVerbatimQuote draft events then ConnectorEvidence else ModelInference)
      else if length events > 0 \<and> list_all (\<lambda>event. ef_taint event = OwnerTaint) events
        then OwnerAuthored
      else ConnectorEvidence)"

definition clampAtMost :: "AuthorityTier \<Rightarrow> AuthorityTier \<Rightarrow> AuthorityTier" where
  "clampAtMost current highest =
     (if AUTHORITY_TIERS current \<le> AUTHORITY_TIERS highest then current else highest)"

definition singleUntrusted ::
  "AuthorityDraft \<Rightarrow> EventFacts list \<Rightarrow> AuthorityExtras \<Rightarrow> AuthorityTier \<Rightarrow> bool" where
  "singleUntrusted draft ev extras current \<longleftrightarrow>
     length ev = 1 \<and>
     ef_taint (ev ! 0) = Untrusted \<and>
     \<not> ae_hasCorroboration extras \<and>
     length (remdups (map ef_connector_id ev)) \<le> 1 \<and>
     ad_intent draft \<noteq> Some CorrectIntent \<and>
     current \<noteq> OwnerCorrection \<and>
     current \<noteq> OwnerAuthored"

definition authorityFor ::
  "AuthorityDraft \<Rightarrow> EventFacts list \<Rightarrow> AuthorityExtras \<Rightarrow> AuthorityError + AuthorityAssignment" where
  "authorityFor draft ev extras =
     (let who = canonicalizeProducer (ae_producer extras)
      in if length (ad_provenance draft) = 0 then Inl RequiresProvenance
         else
           (let base = baseAuthority who draft ev;
                authority1 = (if who = Model \<and> \<not> isVerbatimQuote draft ev
                              then clampAtMost base ModelInference else base);
                single = singleUntrusted draft ev extras authority1;
                authority2 = (if single then ModelInference else authority1);
                conf = (if single then min (ad_confidence draft) SINGLE_SOURCE_CAP
                              else ad_confidence draft)
            in case ae_producer extras of
                 Agent i \<Rightarrow>
                   Inr \<lparr>aa_authority =
                          (if ad_intent draft = Some CorrectIntent
                           then clampAtMost OwnerCorrection
                                  (case ae_relayCeiling extras of
                                     None \<Rightarrow> OwnerCorrection | Some t \<Rightarrow> t)
                           else clampAtMost authority2 ConnectorEvidence),
                        aa_confidence = conf,
                        aa_relayed_by = Some (''agent:'' @ i)\<rparr>
               | _ \<Rightarrow>
                   Inr \<lparr>aa_authority = authority2, aa_confidence = conf,
                        aa_relayed_by = None\<rparr>))"

section \<open>Bounds on the tier\<close>

abbreviation tier :: "AuthorityTier \<Rightarrow> nat" where "tier \<equiv> AUTHORITY_TIERS"

lemma tier_clampAtMost: "tier (clampAtMost a b) = min (tier a) (tier b)"
  by (simp add: clampAtMost_def)

lemma clamp_correction: "clampAtMost OwnerCorrection t = t"
  by (cases t) (simp_all add: clampAtMost_def)

lemma tier_range: "1 \<le> tier t" "tier t \<le> 4"
  by (cases t; simp)+

lemma authorityFor_parts:
  assumes "authorityFor draft ev extras = Inr r"
  defines "p \<equiv> canonicalizeProducer (ae_producer extras)"
  defines "base \<equiv> (if p = Model \<and> \<not> isVerbatimQuote draft ev
    then clampAtMost (baseAuthority p draft ev) ModelInference else baseAuthority p draft ev)"
  shows "ad_provenance draft \<noteq> []"
    and "case ae_producer extras of
        Agent i \<Rightarrow> aa_relayed_by r = Some (''agent:'' @ i) \<and>
          aa_authority r =
            (if ad_intent draft = Some CorrectIntent
             then clampAtMost OwnerCorrection
               (case ae_relayCeiling extras of None \<Rightarrow> OwnerCorrection | Some t \<Rightarrow> t)
             else clampAtMost (if singleUntrusted draft ev extras base then ModelInference else base)
               ConnectorEvidence)
      | _ \<Rightarrow> aa_relayed_by r = None \<and>
          aa_authority r = (if singleUntrusted draft ev extras base then ModelInference else base)"
    and "aa_confidence r = (if singleUntrusted draft ev extras base
      then min (ad_confidence draft) SINGLE_SOURCE_CAP else ad_confidence draft)"
  using assms
  by (auto simp: authorityFor_def Let_def split: if_splits Producer.splits)

section \<open>Properties\<close>

text \<open>Authority is never above what the producer may claim.  Only an intent to correct
  earns the owner's correction tier, and through an agent never above the relay ceiling; an
  agent without that intent never exceeds connector evidence; a model never does either
  unless the draft quotes its events verbatim, and otherwise stays at inference.\<close>

theorem authority_ceilings:
  assumes "authorityFor draft ev extras = Inr r"
  shows "(if ad_intent draft = Some CorrectIntent
      then (case (ae_producer extras, ae_relayCeiling extras) of
              (Agent i, Some highest) \<Rightarrow> aa_authority r = highest
            | (Agent i, None) \<Rightarrow> aa_authority r = OwnerCorrection
            | (p, _) \<Rightarrow> tier (aa_authority r) =
                (if p \<in> {Llm, Model} \<and> \<not> isVerbatimQuote draft ev then 1 else 4))
      else aa_authority r \<noteq> OwnerCorrection \<and>
        (case ae_producer extras of
           Owner \<Rightarrow> aa_authority r = OwnerAuthored
         | Deterministic \<Rightarrow> tier (aa_authority r) \<le> 3
         | Agent i \<Rightarrow> tier (aa_authority r) \<le> 2
         | _ \<Rightarrow> tier (aa_authority r) \<le> (if isVerbatimQuote draft ev then 2 else 1)))"
proof (cases "ae_producer extras")
  case (Agent i)
  show ?thesis
  proof (cases "ad_intent draft = Some CorrectIntent")
    case True
    then show ?thesis
      using Agent authorityFor_parts(2) [OF assms] by (auto simp: clamp_correction split: option.splits)
  next
    case False
    then have "tier (aa_authority r) \<le> 2"
      using Agent authorityFor_parts(2) [OF assms] by (auto simp: tier_clampAtMost)
    then show ?thesis using Agent False by auto
  qed
qed (use authorityFor_parts [OF assms] in
    \<open>auto simp: canonicalizeProducer_def baseAuthority_def clampAtMost_def singleUntrusted_def
      split: if_splits\<close>)

definition demo_draft :: AuthorityDraft where
  "demo_draft = \<lparr>ad_producer = Agent ''a'', ad_taint = CleanTaint, ad_body = ''b'',
     ad_provenance = [''e1''], ad_confidence = 9 / 10, ad_intent = Some CorrectIntent\<rparr>"

definition demo_event :: EventFacts where
  "demo_event = \<lparr>ef_event_id = ''e1'', ef_connector_id = ''c'', ef_taint = Untrusted, ef_text = ''t''\<rparr>"

theorem authority_ceilings_witness:
  "authorityFor demo_draft [demo_event]
      \<lparr>ae_producer = Agent ''a'', ae_hasCorroboration = False, ae_relayCeiling = Some OwnerAuthored\<rparr> =
    Inr \<lparr>aa_authority = OwnerAuthored, aa_confidence = 9 / 10, aa_relayed_by = Some ''agent:a''\<rparr>"
proof -
  let ?x = "\<lparr>ae_producer = Agent ''a'', ae_hasCorroboration = False, ae_relayCeiling = Some OwnerAuthored\<rparr>"
  obtain r where r: "authorityFor demo_draft [demo_event] ?x = Inr r"
    by (simp add: authorityFor_def demo_draft_def Let_def)
  from authority_ceilings [OF r] have "aa_authority r = OwnerAuthored"
    by (simp add: demo_draft_def)
  moreover have "aa_confidence r = 9 / 10" "aa_relayed_by r = Some ''agent:a''"
    using authorityFor_parts [OF r]
    by (auto simp: demo_draft_def singleUntrusted_def)
  ultimately show ?thesis using r by simp
qed

text \<open>One untrusted event that nothing corroborates supports at most an inference of
  confidence one half, unless the draft is a correction or the owner's own.\<close>

theorem single_source_capped:
  assumes "authorityFor draft [e] extras = Inr r" and "ef_taint e = Untrusted"
    and "\<not> ae_hasCorroboration extras" and "ad_intent draft \<noteq> Some CorrectIntent"
    and "ae_producer extras \<noteq> Owner"
  shows "aa_authority r = ModelInference \<and> aa_confidence r \<le> 1 / 2 \<and>
    aa_confidence r \<le> ad_confidence draft"
proof -
  have "singleUntrusted draft [e] extras t"
    if "t \<noteq> OwnerCorrection" "t \<noteq> OwnerAuthored" for t
    using that assms by (simp add: singleUntrusted_def)
  moreover have "baseAuthority (canonicalizeProducer (ae_producer extras)) draft [e]
      \<notin> {OwnerCorrection, OwnerAuthored}"
    using assms by (auto simp: baseAuthority_def canonicalizeProducer_def split: if_splits)
  then have "(if b then clampAtMost (baseAuthority (canonicalizeProducer (ae_producer extras)) draft [e])
        ModelInference
      else baseAuthority (canonicalizeProducer (ae_producer extras)) draft [e])
      \<notin> {OwnerCorrection, OwnerAuthored}" for b
    by (auto simp: clampAtMost_def)
  ultimately have single: "singleUntrusted draft [e] extras
      (if b then clampAtMost (baseAuthority (canonicalizeProducer (ae_producer extras)) draft [e])
        ModelInference
      else baseAuthority (canonicalizeProducer (ae_producer extras)) draft [e])" for b
    by blast
  have "clampAtMost ModelInference ConnectorEvidence = ModelInference" by (simp add: clampAtMost_def)
  then have "aa_authority r = ModelInference"
    using authorityFor_parts(2) [OF assms(1)] assms(4) unfolding if_P [OF single]
    by (simp split: Producer.splits)
  moreover have "aa_confidence r = min (ad_confidence draft) SINGLE_SOURCE_CAP"
    using authorityFor_parts(3) [OF assms(1)] unfolding if_P [OF single] .
  ultimately show ?thesis by (simp add: SINGLE_SOURCE_CAP_def)
qed

theorem single_source_capped_witness:
  "\<exists>r. authorityFor (demo_draft\<lparr>ad_intent := None\<rparr>) [demo_event]
      \<lparr>ae_producer = Deterministic, ae_hasCorroboration = False, ae_relayCeiling = None\<rparr> = Inr r \<and>
    aa_authority r = ModelInference \<and> aa_confidence r \<le> 1 / 2"
proof -
  let ?x = "\<lparr>ae_producer = Deterministic, ae_hasCorroboration = False, ae_relayCeiling = None\<rparr>"
  obtain r where r: "authorityFor (demo_draft\<lparr>ad_intent := None\<rparr>) [demo_event] ?x = Inr r"
    by (simp add: authorityFor_def demo_draft_def Let_def)
  have "ef_taint demo_event = Untrusted" by (simp add: demo_event_def)
  from single_source_capped [OF r this] r show ?thesis by simp
qed

end
