(* ===== verification/Page_Path.thy ===== *)
theory Page_Path
  imports Js_Value
begin

text \<open>
  \<open>packages/core/src/canon/paths.ts\<close>: the paths the canon writer accepts.  Every function
  returns or throws one error code, so it is a check that returns \<open>unit\<close> or that code.
\<close>

datatype PathError = TargetInvalid

definition PATH_SEGMENT :: "string \<Rightarrow> bool" where
  "PATH_SEGMENT s \<longleftrightarrow>
     (case s of [] \<Rightarrow> False
      | c # cs \<Rightarrow> isAlnum c \<and> list_all (\<lambda>d. isAlnum d \<or> d \<in> set ''._-'') cs)"

definition MAX_SEGMENTS :: nat where "MAX_SEGMENTS = 8"

definition MAX_SEGMENT_LENGTH :: nat where "MAX_SEGMENT_LENGTH = 64"

fun segmentsOk :: "string list \<Rightarrow> bool" where
  "segmentsOk [] = True"
| "segmentsOk (seg # rest) =
     (let limit = (if rest = [] then MAX_SEGMENT_LENGTH + 3 else MAX_SEGMENT_LENGTH)
      in \<not> (length seg > limit \<or> \<not> PATH_SEGMENT seg) \<and> segmentsOk rest)"

definition assertPageRelPath :: "js \<Rightarrow> PathError + unit" where
  "assertPageRelPath relPath =
     (case relPath of
        Str path \<Rightarrow>
          (let segments = split_on (CHR ''/'') path;
               final = last segments
           in if length segments > MAX_SEGMENTS \<or> \<not> endsWith final ''.md'' \<or> length final \<le> 3 \<or>
                 segments ! 0 = ''archive'' \<or>
                 (length segments = 1 \<and> (final = ''CANON.md'' \<or> final = ''SCHEMA.md''))
              then Inl TargetInvalid
              else if segmentsOk segments then Inr () else Inl TargetInvalid)
      | _ \<Rightarrow> Inl TargetInvalid)"

text \<open>\<open>/^archive\/[A-Za-z0-9][A-Za-z0-9._-]*\.md$/\<close>: the class of the middle part holds
  every character of the suffix, so the match is the split at the last three.\<close>

definition assertArchiveRelPath :: "js \<Rightarrow> PathError + unit" where
  "assertArchiveRelPath path =
     (case path of
        Str s \<Rightarrow>
          (let name = drop 8 s
           in if startsWith s ''archive/'' \<and> endsWith name ''.md'' \<and>
                 PATH_SEGMENT (take (length name - 3) name)
              then Inr () else Inl TargetInvalid)
      | _ \<Rightarrow> Inl TargetInvalid)"

definition assertStoredPageRelPath :: "js \<Rightarrow> PathError + unit" where
  "assertStoredPageRelPath path =
     (case path of
        Str s \<Rightarrow> (if startsWith s ''archive/'' then assertArchiveRelPath path
                  else assertPageRelPath path)
      | _ \<Rightarrow> assertPageRelPath path)"

definition assertReceiptPaths :: "js \<Rightarrow> js \<Rightarrow> PathError + unit" where
  "assertReceiptPaths page_path archive_path =
     (if \<not> isString page_path \<or> (archive_path \<noteq> Null \<and> \<not> isString archive_path)
      then Inl TargetInvalid
      else if page_path = Str []
      then (if archive_path \<noteq> Null then Inl TargetInvalid else Inr ())
      else
        andThen (assertStoredPageRelPath page_path) (\<lambda>_.
          if archive_path \<noteq> Null then assertArchiveRelPath archive_path else Inr ()))"

section \<open>Containment\<close>

text \<open>A path that stays under the directory it is joined to: relative, and no segment is
  empty or made of dots alone, and none has a character that is special to a path.\<close>

definition contained :: "string \<Rightarrow> bool" where
  "contained path \<longleftrightarrow>
     (\<forall>seg\<in>set (split_on (CHR ''/'') path).
        seg \<noteq> [] \<and> seg \<noteq> ''.'' \<and> seg \<noteq> ''..'' \<and>
        set seg \<inter> {CHR ''/'', CHR 0x5C, CHR '':'', CHR 0x00} = {})"

lemma alnum_special [simp]:
  "\<not> isAlnum (CHR ''/'')" "\<not> isAlnum (CHR 0x5C)" "\<not> isAlnum (CHR '':'')" "\<not> isAlnum (CHR 0x00)"
  "\<not> isAlnum (CHR ''.'')"
  by (simp_all add: isAlnum_def isDigit_def isUpper_def isLower_def in_range_def)

lemma PATH_SEGMENT_contained:
  assumes "PATH_SEGMENT seg"
  shows "seg \<noteq> [] \<and> seg \<noteq> ''.'' \<and> seg \<noteq> ''..'' \<and>
    set seg \<inter> {CHR ''/'', CHR 0x5C, CHR '':'', CHR 0x00} = {}"
  using assms by (auto simp: PATH_SEGMENT_def list_all_iff split: list.splits)

lemma segmentsOk_all: "segmentsOk segs \<Longrightarrow> seg \<in> set segs \<Longrightarrow> PATH_SEGMENT seg"
  by (induction segs) (auto simp: Let_def)

lemma page_path_facts:
  assumes "assertPageRelPath (Str p) = Inr ()"
  shows "contained p" "split_on (CHR ''/'') p ! 0 \<noteq> ''archive''"
    "endsWith (last (split_on (CHR ''/'') p)) ''.md''"
    "p \<noteq> ''CANON.md'' \<and> p \<noteq> ''SCHEMA.md''"
proof -
  note a = assms[unfolded assertPageRelPath_def js.case Let_def]
  have ok: "segmentsOk (split_on (CHR ''/'') p)" using a by (simp split: if_splits)
  show "contained p"
    using segmentsOk_all [OF ok] PATH_SEGMENT_contained unfolding contained_def by blast
  show "split_on (CHR ''/'') p ! 0 \<noteq> ''archive''"
    "endsWith (last (split_on (CHR ''/'') p)) ''.md''"
    using a by (simp_all split: if_splits)
  have "p \<noteq> q" if "split_on (CHR ''/'') q = [q]" "q = ''CANON.md'' \<or> q = ''SCHEMA.md''" for q
    using a that by (auto split: if_splits)
  then show "p \<noteq> ''CANON.md'' \<and> p \<noteq> ''SCHEMA.md''" by simp
qed

lemma split_archive: "split_on (CHR ''/'') (''archive/'' @ name) = ''archive'' # split_on (CHR ''/'') name"
  using split_by_append_sep [of "\<lambda>x. x = CHR ''/''" "CHR ''/''" "''archive''" name] by simp

lemma archive_path_contained:
  assumes "assertArchiveRelPath (Str p) = Inr ()"
  shows "contained p"
proof -
  define name where "name = drop 8 p"
  have a: "startsWith p ''archive/'' \<and> endsWith name ''.md'' \<and>
      PATH_SEGMENT (take (length name - 3) name)"
    using assms unfolding assertArchiveRelPath_def js.case Let_def name_def
    by (simp split: if_splits)
  then have md: "endsWith name ''.md''" and seg: "PATH_SEGMENT (take (length name - 3) name)"
    by simp_all
  have "take 8 p = ''archive/''" using a by (simp add: startsWith_def numeral_eq_Suc)
  then have p: "p = ''archive/'' @ name"
    unfolding name_def by (metis append_take_drop_id)
  define base where "base = take (length name - 3) name"
  have "drop (length name - 3) name = ''.md''" using md by (simp add: endsWith_def numeral_eq_Suc)
  then have n: "name = base @ ''.md''"
    unfolding base_def by (metis append_take_drop_id)
  have base: "PATH_SEGMENT base" using seg by (simp add: base_def)
  have "\<forall>c\<in>set name. c \<noteq> CHR ''/''"
    using PATH_SEGMENT_contained [OF base] by (auto simp: n)
  then have "split_on (CHR ''/'') name = [name]" by (rule split_by_none)
  moreover have "PATH_SEGMENT name" using base
    by (auto simp: n PATH_SEGMENT_def isAlnum_def isLower_def in_range_def split: list.splits)
  ultimately show ?thesis
    using PATH_SEGMENT_contained by (auto simp: contained_def p split_archive)
qed

section \<open>Properties\<close>

text \<open>C22: a page path the writer accepts stays inside the vault (no empty, dot or dot-dot
  segment, no separator or drive character inside one), is Markdown, and is neither in the
  archive nor a doctrine file; the paths of an accepted receipt stay inside it too.\<close>

theorem accepted_paths_contained:
  "(case assertPageRelPath (Str p) of
      Inl e \<Rightarrow> True
    | Inr _ \<Rightarrow> contained p \<and> split_on (CHR ''/'') p ! 0 \<noteq> ''archive'' \<and>
        endsWith (last (split_on (CHR ''/'') p)) ''.md'' \<and> p \<noteq> ''CANON.md'' \<and> p \<noteq> ''SCHEMA.md'') \<and>
   (case assertReceiptPaths (Str p) (Str q) of
      Inl e \<Rightarrow> True
    | Inr _ \<Rightarrow> contained p \<and> contained q)"
proof -
  have "contained r" if "assertStoredPageRelPath (Str r) = Inr ()" for r
    using that page_path_facts(1) archive_path_contained
    by (auto simp: assertStoredPageRelPath_def split: if_splits)
  then have "contained p \<and> contained q" if "assertReceiptPaths (Str p) (Str q) = Inr ()"
    using that archive_path_contained
    by (auto simp: assertReceiptPaths_def result_simps split: if_splits)
  then show ?thesis
    using page_path_facts [of p] by (simp split: sum.split)
qed

end
