(* ===== verification/Budget.thy ===== *)
theory Budget
  imports Page_Path
begin

text \<open>
  \<open>packages/core/src/canon/budget.ts\<close> and \<open>packages/core/src/serve/budget-ledger.ts\<close>:
  admission of canon writes under a per-run and a per-day limit.

  A table is \<open>None\<close> while it does not exist.  \<open>budget_ledger\<close> is a map from its primary
  key; \<open>canon_write_reservations\<close> and \<open>canon_receipts\<close> are lists of rows.  The daily limit
  of the vault's configuration file is an argument, and the vault's files are a map from a
  path to the hash of its bytes, since only the hash is compared.
\<close>

datatype CanonWriteBudget = WritesPerRun | WritesPerDay

datatype BudgetError = BudgetExhausted CanonWriteBudget int | BadPath | NotANaturalNumber | NoReceiptIdentity
  | NoSuchTable

record CanonWriteCharge =
  charge_receipt_id :: string
  charge_page_path :: string
  charge_before_hash :: "string option"
  charge_at :: string

record Reservation =
  res_receipt_id :: string
  res_day :: string
  res_page_path :: string
  res_before_hash :: "string option"

record Receipt =
  rcpt_id :: string
  rcpt_ordinary :: bool
  rcpt_at :: string

record BudgetDb =
  budget_ledger :: "(string \<times> string \<Rightarrow> int option) option"
  reservations :: "Reservation list option"
  receipts :: "Receipt list option"
  write_intents :: "string list option"
  backfill_attempts :: "(string \<times> string \<times> js option) list option"
  backfill_results :: "string list"

definition budgetDay :: "string \<Rightarrow> string" where
  "budgetDay stamp = take 10 stamp"

definition rows :: "'a list option \<Rightarrow> 'a list" where
  "rows table = (case table of None \<Rightarrow> [] | Some rs \<Rightarrow> rs)"

definition reservedReceipts :: "BudgetDb \<Rightarrow> string list" where
  "reservedReceipts db = map res_receipt_id (rows (reservations db))"

definition reservedForDay :: "BudgetDb \<Rightarrow> string \<Rightarrow> int" where
  "reservedForDay db day = int (length (filter (\<lambda>r. res_day r = day) (rows (reservations db))))"

definition DAILY :: string where "DAILY = ''canon_writes_per_day''"

definition ledgerUsed :: "BudgetDb \<Rightarrow> string \<Rightarrow> int" where
  "ledgerUsed db day =
     (case budget_ledger db of
        None \<Rightarrow> 0
      | Some ledger \<Rightarrow> (case ledger (day, DAILY) of None \<Rightarrow> 0 | Some used \<Rightarrow> used))"

definition countsOn :: "string \<Rightarrow> Receipt \<Rightarrow> bool" where
  "countsOn day r \<longleftrightarrow> rcpt_ordinary r \<and> take 10 (rcpt_at r) = day"

definition ordinaryDailySettled :: "BudgetDb \<Rightarrow> string \<Rightarrow> int" where
  "ordinaryDailySettled db day =
     (let reserved = set (reservedReceipts db);
          settled = length (filter (\<lambda>r. rcpt_id r \<notin> reserved)
                      (filter (countsOn day) (rows (receipts db))))
      in max (ledgerUsed db day) (int settled))"

definition ordinaryDailyOccupancy :: "BudgetDb \<Rightarrow> string \<Rightarrow> int" where
  "ordinaryDailyOccupancy db day = ordinaryDailySettled db day + reservedForDay db day"

definition reserveCanonWrite ::
  "BudgetDb \<Rightarrow> CanonWriteCharge \<Rightarrow> string \<Rightarrow> int \<Rightarrow> BudgetError + BudgetDb" where
  "reserveCanonWrite db w day limit =
     (if assertPageRelPath (Str (charge_page_path w)) \<noteq> Inr () then Inl BadPath
      else
        (case reservations db of
           None \<Rightarrow> Inr db
         | Some rs \<Rightarrow>
             if charge_receipt_id w \<in> set (reservedReceipts db) then Inr db
             else if ordinaryDailyOccupancy db day \<ge> limit
             then Inl (BudgetExhausted WritesPerDay limit)
             else Inr (db\<lparr>reservations := Some (rs @
                    [\<lparr>res_receipt_id = charge_receipt_id w, res_day = day,
                      res_page_path = charge_page_path w,
                      res_before_hash = charge_before_hash w\<rparr>])\<rparr>)))"

section \<open>Trackers\<close>

text \<open>The two implementations of the tracker interface: in memory, and durable.\<close>

datatype BudgetTracker =
    InMemory (runLimit: int) (dayLimit: int) (runUsed: int) (dayUsed: int)
  | Durable (runLimit: int) (dayLimit: int) (runUsed: int)

definition assertLimit :: "int \<Rightarrow> bool" where
  "assertLimit v \<longleftrightarrow> \<not> (\<bar>v\<bar> > MAX_SAFE_INTEGER \<or> v < 0)"

definition createBudgetTracker :: "int \<Rightarrow> (int \<times> int) option \<Rightarrow> BudgetError + BudgetTracker" where
  "createBudgetTracker perRun day =
     (if \<not> assertLimit perRun then Inl NotANaturalNumber
      else
        (case day of
           None \<Rightarrow> Inr (InMemory perRun MAX_SAFE_INTEGER 0 0)
         | Some (limit, used) \<Rightarrow>
             if \<not> assertLimit limit then Inl NotANaturalNumber
             else if \<not> assertLimit used then Inl NotANaturalNumber
             else Inr (InMemory perRun limit 0 used)))"

definition createDurableWriteBudget :: "int \<Rightarrow> int \<Rightarrow> BudgetTracker" where
  "createDurableWriteBudget perRun perDay = Durable perRun perDay 0"

fun chargeWrite ::
  "BudgetTracker \<Rightarrow> BudgetDb \<Rightarrow> CanonWriteCharge option \<Rightarrow> BudgetError + BudgetTracker \<times> BudgetDb" where
  "chargeWrite (InMemory perRun perDay run day) db w =
     (if run \<ge> perRun then Inl (BudgetExhausted WritesPerRun perRun)
      else if day \<ge> perDay then Inl (BudgetExhausted WritesPerDay perDay)
      else Inr (InMemory perRun perDay (run + 1) (day + 1), db))"
| "chargeWrite (Durable perRun perDay run) db w =
     (case w of
        None \<Rightarrow> Inl NoReceiptIdentity
      | Some charge \<Rightarrow>
          if run \<ge> perRun then Inl (BudgetExhausted WritesPerRun perRun)
          else
            andThen (reserveCanonWrite db charge (budgetDay (charge_at charge)) perDay) (\<lambda>db'.
              Inr (Durable perRun perDay (run + 1), db')))"

text \<open>Used and limit per run and per day.\<close>

fun usage :: "BudgetTracker \<Rightarrow> BudgetDb \<Rightarrow> string \<Rightarrow> (int \<times> int) \<times> (int \<times> int)" where
  "usage (InMemory perRun perDay run day) db currentDay = ((run, perRun), (day, perDay))"
| "usage (Durable perRun perDay run) db currentDay =
     ((run, perRun), (ordinaryDailyOccupancy db (budgetDay currentDay), perDay))"

text \<open>A refusal may follow a charge of the tracker: what it left is part of the result.\<close>

definition chargeCanonWrite ::
  "BudgetDb \<Rightarrow> BudgetTracker \<Rightarrow> CanonWriteCharge \<Rightarrow> int
   \<Rightarrow> (BudgetTracker \<times> BudgetDb) \<times> (BudgetError + unit)" where
  "chargeCanonWrite db tracker w limit =
     (if assertPageRelPath (Str (charge_page_path w)) \<noteq> Inr () then ((tracker, db), Inl BadPath)
      else
        (let day = budgetDay (charge_at w)
         in if reservations db \<noteq> None
            then
              (if charge_receipt_id w \<notin> set (reservedReceipts db) \<and>
                  ordinaryDailyOccupancy db day \<ge> limit
               then ((tracker, db), Inl (BudgetExhausted WritesPerDay limit))
               else
                 (case chargeWrite tracker db (Some w) of
                    Inl e \<Rightarrow> ((tracker, db), Inl e)
                  | Inr (tracker', db') \<Rightarrow>
                      (case reserveCanonWrite db' w day limit of
                         Inl e \<Rightarrow> ((tracker', db'), Inl e)
                       | Inr db'' \<Rightarrow> ((tracker', db''), Inr ()))))
            else
              (case chargeWrite tracker db (Some w) of
                 Inl e \<Rightarrow> ((tracker, db), Inl e)
               | Inr (tracker', db') \<Rightarrow> ((tracker', db'), Inr ()))))"

section \<open>The daily ledger\<close>

text \<open>\<open>v?.k\<close> on a parsed value: only an object has the property.\<close>

fun propertyOf :: "js \<Rightarrow> string \<Rightarrow> js" where
  "propertyOf (Obj kvs) k = field kvs k"
| "propertyOf v k = Undefined"

text \<open>The ceiling a pending attempt reserves: a plan that does not parse, or names no whole
  number from 1 to 16384, reserves everything.\<close>

definition plannedTokens :: "js option \<Rightarrow> int option" where
  "plannedTokens plan =
     (case plan of
        None \<Rightarrow> None
      | Some v \<Rightarrow>
          (case propertyOf (propertyOf v ''budget'') ''max_output_tokens'' of
             Num q \<Rightarrow> if \<not> isSafeInteger (Num q) \<or> q < 1 \<or> q > 16384 then None else Some \<lfloor>q\<rfloor>
           | _ \<Rightarrow> None))"

fun sumPlanned :: "int \<Rightarrow> js option list \<Rightarrow> int option" where
  "sumPlanned reserved [] = Some reserved"
| "sumPlanned reserved (plan # plans) =
     (case plannedTokens plan of
        None \<Rightarrow> None
      | Some amount \<Rightarrow> sumPlanned (reserved + amount) plans)"

text \<open>An attempt is its operation, its creation time and its plan as \<open>JSON.parse\<close> reads it
  (\<open>None\<close> when that throws).\<close>

definition readDailyBudget :: "BudgetDb \<Rightarrow> string \<Rightarrow> string \<Rightarrow> int" where
  "readDailyBudget db day name =
     (case budget_ledger db of
        None \<Rightarrow> 0
      | Some ledger \<Rightarrow>
          (let used = (case ledger (day, name) of None \<Rightarrow> 0 | Some u \<Rightarrow> u)
           in if name \<noteq> ''model_output_tokens_per_day'' then used
              else
                (case backfill_attempts db of
                   None \<Rightarrow> used
                 | Some attempts \<Rightarrow>
                     (let pending = take 257 (map (\<lambda>(i, stamp, plan). plan)
                            (filter (\<lambda>(i, stamp, plan).
                               take 10 stamp = day \<and> i \<notin> set (backfill_results db)) attempts))
                      in if length pending > 256 then MAX_SAFE_INTEGER
                         else
                           (case sumPlanned 0 pending of
                              None \<Rightarrow> MAX_SAFE_INTEGER
                            | Some reserved \<Rightarrow>
                                if \<bar>used + reserved\<bar> \<le> MAX_SAFE_INTEGER then used + reserved
                                else MAX_SAFE_INTEGER)))))"

definition addDailyBudget ::
  "BudgetDb \<Rightarrow> string \<Rightarrow> string \<Rightarrow> int \<Rightarrow> BudgetError + BudgetDb \<times> int" where
  "addDailyBudget db day name delta =
     (case budget_ledger db of
        None \<Rightarrow> Inr (db, 0)
      | Some ledger \<Rightarrow>
          if \<bar>delta\<bar> > MAX_SAFE_INTEGER \<or> delta < 0 then Inl NotANaturalNumber
          else
            (let used = (case ledger (day, name) of None \<Rightarrow> delta | Some u \<Rightarrow> u + delta);
                 db' = db\<lparr>budget_ledger := Some (ledger((day, name) \<mapsto> used))\<rparr>
             in Inr (db', readDailyBudget db' day name)))"

section \<open>Settling\<close>

text \<open>The body of the loop for one reservation: the transaction that moves it to the ledger.\<close>

definition settleRow :: "(string \<Rightarrow> string option) \<Rightarrow> BudgetDb \<Rightarrow> Reservation \<Rightarrow> BudgetError + BudgetDb" where
  "settleRow files db row =
     (if assertPageRelPath (Str (res_page_path row)) \<noteq> Inr () then Inl BadPath
      else
        (case (receipts db, budget_ledger db) of
           (Some written, Some ledger) \<Rightarrow>
             (let current = files (res_page_path row);
                  committed = res_receipt_id row \<in> set (map rcpt_id written) \<or>
                              current \<noteq> res_before_hash row;
                  used = ordinaryDailySettled db (res_day row) + (if committed then 1 else 0)
              in Inr (db\<lparr>budget_ledger := Some (ledger((res_day row, DAILY) \<mapsto> used)),
                        reservations := map_option
                          (filter (\<lambda>r. res_receipt_id r \<noteq> res_receipt_id row)) (reservations db)\<rparr>))
         | _ \<Rightarrow> Inl NoSuchTable))"

text \<open>Rows settled before one that fails stay settled.\<close>

fun settleRows ::
  "(string \<Rightarrow> string option) \<Rightarrow> BudgetDb \<Rightarrow> Reservation list \<Rightarrow> BudgetDb \<times> (BudgetError + unit)" where
  "settleRows files db [] = (db, Inr ())"
| "settleRows files db (row # rest) =
     (case settleRow files db row of
        Inl e \<Rightarrow> (db, Inl e)
      | Inr db' \<Rightarrow> settleRows files db' rest)"

definition settleWriteReservations ::
  "(string \<Rightarrow> string option) \<Rightarrow> BudgetDb \<Rightarrow> BudgetDb \<times> (BudgetError + unit)" where
  "settleWriteReservations files db =
     (if rows (write_intents db) \<noteq> [] then (db, Inr ())
      else
        (case reservations db of
           None \<Rightarrow> (db, Inl NoSuchTable)
         | Some rs \<Rightarrow> settleRows files db rs))"

section \<open>Counting rows\<close>

lemma filter_one:
  assumes "distinct (map f xs)" "x \<in> set xs"
  shows "filter (\<lambda>y. P y \<and> f y = f x) xs = (if P x then [x] else [])"
  using assms
proof (induction xs)
  case (Cons z xs)
  show ?case
  proof (cases "z = x")
    case True
    then have "filter (\<lambda>y. P y \<and> f y = f x) xs = []"
      using Cons.prems by (auto simp: filter_empty_conv image_iff)
    with True show ?thesis by simp
  next
    case False
    with Cons show ?thesis by (auto simp: image_iff)
  qed
qed simp

lemma count_split:
  "length (filter P xs) =
    length (filter (\<lambda>x. P x \<and> f x \<noteq> i) xs) + length (filter (\<lambda>x. P x \<and> f x = i) xs)"
  by (induction xs) auto

lemma count_le_one:
  assumes "distinct (map f xs)"
  shows "length (filter (\<lambda>x. P x \<and> f x = i) xs) \<le> (if i \<in> f ` set xs then 1 else 0)"
proof (cases "i \<in> f ` set xs")
  case True
  then obtain x where "x \<in> set xs" "i = f x" by auto
  then show ?thesis using filter_one [OF assms, of x P] by simp
next
  case False
  then have "filter (\<lambda>x. P x \<and> f x = i) xs = []" by (auto simp: filter_empty_conv)
  then show ?thesis by (simp only: list.size)
qed

section \<open>Well-formed tables\<close>

text \<open>A receipt identity belongs to one UTC day: the day it was reserved for and the day
  its receipt is dated.\<close>

definition wfBudget :: "(string \<Rightarrow> string) \<Rightarrow> BudgetDb \<Rightarrow> bool" where
  "wfBudget dayOf db \<longleftrightarrow>
     distinct (map res_receipt_id (rows (reservations db))) \<and>
     distinct (map rcpt_id (rows (receipts db))) \<and>
     (\<forall>r\<in>set (rows (reservations db)). res_day r = dayOf (res_receipt_id r)) \<and>
     (\<forall>r\<in>set (rows (receipts db)). take 10 (rcpt_at r) = dayOf (rcpt_id r))"

abbreviation settledCount :: "BudgetDb \<Rightarrow> string \<Rightarrow> nat" where
  "settledCount db day \<equiv>
     length (filter (\<lambda>r. countsOn day r \<and> rcpt_id r \<notin> set (reservedReceipts db)) (rows (receipts db)))"

lemma settled_unfold:
  "ordinaryDailySettled db day = max (ledgerUsed db day) (int (settledCount db day))"
  by (simp add: ordinaryDailySettled_def Let_def conj_commute)

lemma rows_simps [simp]: "rows None = []" "rows (Some xs) = xs"
  by (simp_all add: rows_def)

lemma reservedForDay_remove:
  assumes "distinct (map res_receipt_id rs)" "row \<in> set rs"
  shows "int (length (filter (\<lambda>r. res_day r = day)
      (filter (\<lambda>r. res_receipt_id r \<noteq> res_receipt_id row) rs))) =
    int (length (filter (\<lambda>r. res_day r = day) rs)) - (if res_day row = day then 1 else 0)"
proof -
  have "filter (\<lambda>r. res_day r = day) (filter (\<lambda>r. res_receipt_id r \<noteq> res_receipt_id row) rs) =
      filter (\<lambda>r. res_day r = day \<and> res_receipt_id r \<noteq> res_receipt_id row) rs"
    unfolding filter_filter by (intro filter_cong) auto
  moreover have "length (filter (\<lambda>r. res_day r = day \<and> res_receipt_id r = res_receipt_id row) rs) =
      (if res_day row = day then 1 else 0)"
    by (subst filter_one [OF assms, of "\<lambda>r. res_day r = day"]) simp
  moreover note count_split [of "\<lambda>r. res_day r = day" rs res_receipt_id "res_receipt_id row"]
  ultimately show ?thesis by (simp only: of_nat_add) (simp split: if_split)
qed

lemma settledCount_remove:
  assumes wf: "wfBudget dayOf db" and row: "row \<in> set (rows (reservations db))"
    and reserved: "set (reservedReceipts db') = set (reservedReceipts db) - {res_receipt_id row}"
    and same: "receipts db' = receipts db"
  shows "int (settledCount db' day) = int (settledCount db day) +
    int (length (filter (\<lambda>r. countsOn day r \<and> rcpt_id r = res_receipt_id row) (rows (receipts db))))"
    and "length (filter (\<lambda>r. countsOn day r \<and> rcpt_id r = res_receipt_id row) (rows (receipts db))) \<le>
      (if res_day row = day \<and> res_receipt_id row \<in> rcpt_id ` set (rows (receipts db)) then 1 else 0)"
proof -
  let ?i = "res_receipt_id row"
  have i: "?i \<in> set (reservedReceipts db)" using row by (simp add: reservedReceipts_def)
  have "filter (\<lambda>r. (countsOn day r \<and> rcpt_id r \<notin> set (reservedReceipts db')) \<and> rcpt_id r \<noteq> ?i)
      (rows (receipts db)) =
    filter (\<lambda>r. countsOn day r \<and> rcpt_id r \<notin> set (reservedReceipts db)) (rows (receipts db))"
    by (rule filter_cong [OF refl]) (use i in \<open>auto simp: reserved\<close>)
  moreover have "filter (\<lambda>r. (countsOn day r \<and> rcpt_id r \<notin> set (reservedReceipts db')) \<and> rcpt_id r = ?i)
      (rows (receipts db)) =
    filter (\<lambda>r. countsOn day r \<and> rcpt_id r = ?i) (rows (receipts db))"
    by (rule filter_cong [OF refl]) (auto simp: reserved)
  ultimately show "int (settledCount db' day) = int (settledCount db day) +
      int (length (filter (\<lambda>r. countsOn day r \<and> rcpt_id r = ?i) (rows (receipts db))))"
    using count_split [of "\<lambda>r. countsOn day r \<and> rcpt_id r \<notin> set (reservedReceipts db')"
        "rows (receipts db)" rcpt_id ?i]
    by (simp add: same)
  have "distinct (map rcpt_id (rows (receipts db)))" using wf by (simp add: wfBudget_def)
  note le = count_le_one [OF this, of "countsOn day" ?i]
  have "filter (\<lambda>r. countsOn day r \<and> rcpt_id r = ?i) (rows (receipts db)) = []"
    if "res_day row \<noteq> day"
    using wf row that by (auto simp: wfBudget_def countsOn_def filter_empty_conv)
  with le show "length (filter (\<lambda>r. countsOn day r \<and> rcpt_id r = ?i) (rows (receipts db))) \<le>
      (if res_day row = day \<and> ?i \<in> rcpt_id ` set (rows (receipts db)) then 1 else 0)"
    by (auto split: if_splits)
qed

section \<open>One operation\<close>

definition committedRow :: "(string \<Rightarrow> string option) \<Rightarrow> BudgetDb \<Rightarrow> Reservation \<Rightarrow> bool" where
  "committedRow files db row \<longleftrightarrow>
     res_receipt_id row \<in> rcpt_id ` set (rows (receipts db)) \<or>
     files (res_page_path row) \<noteq> res_before_hash row"

lemma settleRow_occupancy:
  assumes wf: "wfBudget dayOf db" and row: "row \<in> set (rows (reservations db))"
    and step: "settleRow files db row = Inr db'"
  shows "ordinaryDailyOccupancy db' day = ordinaryDailyOccupancy db day -
      (if res_day row = day \<and> \<not> committedRow files db row then 1 else 0)"
    and "wfBudget dayOf db'"
    and "rows (reservations db') =
      filter (\<lambda>r. res_receipt_id r \<noteq> res_receipt_id row) (rows (reservations db))"
    and "receipts db' = receipts db" and "write_intents db' = write_intents db"
proof -
  obtain rs where rs: "reservations db = Some rs" using row by (cases "reservations db") auto
  obtain written ledger where tables: "receipts db = Some written" "budget_ledger db = Some ledger"
    using step by (cases "receipts db"; cases "budget_ledger db") (simp_all add: settleRow_def split: if_splits)
  note parts = rs tables
  let ?c = "if committedRow files db row then 1 else 0 :: int"
  have c: "(res_receipt_id row \<in> set (map rcpt_id written) \<or>
      files (res_page_path row) \<noteq> res_before_hash row) = committedRow files db row"
    by (simp add: committedRow_def parts)
  have db': "db' = db\<lparr>budget_ledger :=
        Some (ledger((res_day row, DAILY) \<mapsto> ordinaryDailySettled db (res_day row) + ?c)),
      reservations := Some (filter (\<lambda>r. res_receipt_id r \<noteq> res_receipt_id row) rs)\<rparr>"
    using step unfolding settleRow_def Let_def parts option.case prod.case c
    by (simp split: if_split_asm)
  show rs': "rows (reservations db') =
      filter (\<lambda>r. res_receipt_id r \<noteq> res_receipt_id row) (rows (reservations db))"
    and same: "receipts db' = receipts db" and "write_intents db' = write_intents db"
    by (simp_all add: db' parts)
  show "wfBudget dayOf db'"
    using wf by (auto simp: wfBudget_def rs' same distinct_map_filter)
  have reserved: "set (reservedReceipts db') = set (reservedReceipts db) - {res_receipt_id row}"
    by (auto simp: reservedReceipts_def rs')
  note count = settledCount_remove [OF wf row reserved same]
  have ids: "distinct (map res_receipt_id rs)" using wf by (simp add: wfBudget_def parts)
  have forDay: "reservedForDay db' day = reservedForDay db day - (if res_day row = day then 1 else 0)"
    using reservedForDay_remove [OF ids, of row day] row by (simp add: reservedForDay_def rs' parts)
  have ledger: "ledgerUsed db' day =
      (if res_day row = day then ordinaryDailySettled db day + ?c else ledgerUsed db day)"
    by (simp add: ledgerUsed_def db' parts)
  have "ordinaryDailySettled db' day =
      (if res_day row = day then ordinaryDailySettled db day + ?c else ordinaryDailySettled db day)"
  proof (cases "res_day row = day")
    case True
    have "int (settledCount db' day) \<le> int (settledCount db day) + ?c"
      using count [of day] by (auto simp: committedRow_def split: if_splits)
    also have "\<dots> \<le> ordinaryDailySettled db day + ?c" by (simp add: settled_unfold)
    finally show ?thesis using True by (simp only: settled_unfold [of db'] ledger) simp
  next
    case False
    then have "settledCount db' day = settledCount db day" using count [of day] by simp
    then show ?thesis using False by (simp only: settled_unfold ledger) simp
  qed
  then show "ordinaryDailyOccupancy db' day = ordinaryDailyOccupancy db day -
      (if res_day row = day \<and> \<not> committedRow files db row then 1 else 0)"
    by (simp add: ordinaryDailyOccupancy_def forDay)
qed

lemma reserve_cases:
  assumes "reserveCanonWrite db w day limit = Inr db'"
  obtains (same) "db' = db" "reservations db = None \<or> charge_receipt_id w \<in> set (reservedReceipts db)"
  | (new) rs where "reservations db = Some rs" "charge_receipt_id w \<notin> set (reservedReceipts db)"
      "ordinaryDailyOccupancy db day < limit"
      "db' = db\<lparr>reservations := Some (rs @
         [\<lparr>res_receipt_id = charge_receipt_id w, res_day = day, res_page_path = charge_page_path w,
           res_before_hash = charge_before_hash w\<rparr>])\<rparr>"
  using assms by (auto simp: reserveCanonWrite_def split: if_splits option.splits)

lemma reserve_occupancy:
  assumes "reserveCanonWrite db w day limit = Inr db'" "wfBudget dayOf db"
    and "day = dayOf (charge_receipt_id w)"
  shows "wfBudget dayOf db'"
    and "ordinaryDailyOccupancy db' d \<le> max (ordinaryDailyOccupancy db d) limit"
    and "reservations db' = None \<or> charge_receipt_id w \<in> set (reservedReceipts db')"
    and "charge_receipt_id w \<notin> set (reservedReceipts db) \<Longrightarrow>
      ordinaryDailyOccupancy db day < bound \<Longrightarrow>
      ordinaryDailyOccupancy db' d \<le> max (ordinaryDailyOccupancy db d) bound"
proof -
  have *: "wfBudget dayOf db' \<and> (reservations db' = None \<or> charge_receipt_id w \<in> set (reservedReceipts db')) \<and>
      (db' = db \<or> ordinaryDailyOccupancy db day < limit \<and>
        ordinaryDailyOccupancy db' d \<le> ordinaryDailyOccupancy db d + (if d = day then 1 else 0))"
    using assms(1)
  proof (cases rule: reserve_cases)
    case same
    then show ?thesis using assms(2) by auto
  next
    case (new rs)
    have res: "rows (reservations db') = rows (reservations db) @
        [\<lparr>res_receipt_id = charge_receipt_id w, res_day = day, res_page_path = charge_page_path w,
           res_before_hash = charge_before_hash w\<rparr>]"
      and same: "receipts db' = receipts db" "budget_ledger db' = budget_ledger db"
      by (simp_all add: new)
    have "wfBudget dayOf db'"
      using assms(2,3) new(2) by (auto simp: wfBudget_def res same reservedReceipts_def)
    moreover have "settledCount db' d \<le> settledCount db d"
    proof -
      have "filter (\<lambda>r. countsOn d r \<and> rcpt_id r \<notin> set (reservedReceipts db')) (rows (receipts db)) =
          filter (\<lambda>r. rcpt_id r \<noteq> charge_receipt_id w)
            (filter (\<lambda>r. countsOn d r \<and> rcpt_id r \<notin> set (reservedReceipts db)) (rows (receipts db)))"
        unfolding filter_filter by (rule filter_cong [OF refl]) (auto simp: reservedReceipts_def res)
      then show ?thesis by (simp only: same length_filter_le)
    qed
    then have "ordinaryDailySettled db' d \<le> ordinaryDailySettled db d"
      unfolding settled_unfold by (simp add: ledgerUsed_def same)
    moreover have "reservedForDay db' d = reservedForDay db d + (if d = day then 1 else 0)"
      by (simp add: reservedForDay_def res)
    moreover have "charge_receipt_id w \<in> set (reservedReceipts db')"
      by (simp add: reservedReceipts_def res)
    ultimately show ?thesis using new(3) by (auto simp: ordinaryDailyOccupancy_def)
  qed
  then show "wfBudget dayOf db'"
    and "ordinaryDailyOccupancy db' d \<le> max (ordinaryDailyOccupancy db d) limit"
    and "reservations db' = None \<or> charge_receipt_id w \<in> set (reservedReceipts db')"
    by (auto simp: max_def split: if_splits)
  show "ordinaryDailyOccupancy db' d \<le> max (ordinaryDailyOccupancy db d) bound"
    if "charge_receipt_id w \<notin> set (reservedReceipts db)" "ordinaryDailyOccupancy db day < bound"
    using * that(2) by (auto simp: max_def split: if_splits)
qed

lemma reserve_idempotent:
  assumes "reservations db = None \<or> charge_receipt_id w \<in> set (reservedReceipts db)"
    and "reserveCanonWrite db w day limit = Inr db'"
  shows "db' = db"
  using assms(2) by (cases rule: reserve_cases) (use assms(1) in auto)

lemma charge_occupancy:
  assumes "wfBudget dayOf db" "budgetDay (charge_at w) = dayOf (charge_receipt_id w)"
  shows "wfBudget dayOf (snd (fst (chargeCanonWrite db tracker w limit)))"
    and "ordinaryDailyOccupancy (snd (fst (chargeCanonWrite db tracker w limit))) d \<le>
      max (ordinaryDailyOccupancy db d) limit"
proof -
  let ?day = "budgetDay (charge_at w)"
  obtain t' db' r where c: "chargeCanonWrite db tracker w limit = ((t', db'), r)"
    by (metis prod.collapse)
  have "wfBudget dayOf db' \<and> ordinaryDailyOccupancy db' d \<le> max (ordinaryDailyOccupancy db d) limit"
  proof (cases "db' = db")
    case True
    then show ?thesis using assms(1) by simp
  next
    case changed: False
    obtain t1 db1 where tr: "chargeWrite tracker db (Some w) = Inr (t1, db1)"
      using c changed by (auto simp: chargeCanonWrite_def Let_def split: if_splits sum.splits)
    have db1: "db1 = db \<or> (\<exists>lim. reserveCanonWrite db w ?day lim = Inr db1)"
      using tr by (cases tracker) (auto simp: result_simps split: if_splits)
    show ?thesis
    proof (cases "reservations db = None")
      case True
      then have "db1 = db" using db1 reserve_idempotent by blast
      then show ?thesis
        using c changed tr True by (auto simp: chargeCanonWrite_def Let_def split: if_splits)
    next
      case table: False
      have fits: "charge_receipt_id w \<in> set (reservedReceipts db) \<or> ordinaryDailyOccupancy db ?day < limit"
        using c changed table by (auto simp: chargeCanonWrite_def Let_def split: if_splits)
      have last: "db' = db1 \<or> reserveCanonWrite db1 w ?day limit = Inr db'"
        using c table tr changed by (auto simp: chargeCanonWrite_def Let_def split: if_splits sum.splits)
      show ?thesis
      proof (cases "db1 = db")
        case True
        then show ?thesis
          using last changed reserve_occupancy [OF _ assms] by auto
      next
        case False
        then obtain lim where lim: "reserveCanonWrite db w ?day lim = Inr db1" using db1 by auto
        note ro = reserve_occupancy [OF lim assms]
        have "db' = db1" using last reserve_idempotent [OF ro(3)] by auto
        moreover have "charge_receipt_id w \<notin> set (reservedReceipts db)"
          using False lim reserve_idempotent by blast
        ultimately show ?thesis using ro(1) ro(4) fits by simp
      qed
    qed
  qed
  then show "wfBudget dayOf (snd (fst (chargeCanonWrite db tracker w limit)))"
    and "ordinaryDailyOccupancy (snd (fst (chargeCanonWrite db tracker w limit))) d \<le>
      max (ordinaryDailyOccupancy db d) limit"
    by (simp_all add: c)
qed

text \<open>A pass over rows that are still reserved: each is removed once and accounted once.\<close>

lemma settleRows_occupancy:
  assumes "wfBudget dayOf db" "set rest \<subseteq> set (rows (reservations db))"
    and "distinct (map res_receipt_id rest)" "settleRows files db rest = (db', r)"
  shows "wfBudget dayOf db' \<and> ordinaryDailyOccupancy db' d \<le> ordinaryDailyOccupancy db d \<and>
    (r = Inr () \<longrightarrow>
      rows (reservations db') = filter (\<lambda>x. res_receipt_id x \<notin> res_receipt_id ` set rest)
        (rows (reservations db)) \<and>
      ordinaryDailyOccupancy db' d = ordinaryDailyOccupancy db d -
        int (length (filter (\<lambda>x. res_day x = d \<and> \<not> committedRow files db x) rest)))"
  using assms
proof (induction rest arbitrary: db)
  case (Cons row rest)
  show ?case
  proof (cases "settleRow files db row")
    case (Inl e)
    then show ?thesis using Cons.prems by auto
  next
    case (Inr db1)
    have row: "row \<in> set (rows (reservations db))" using Cons.prems(2) by simp
    note one = settleRow_occupancy [OF Cons.prems(1) row Inr]
    have "set rest \<subseteq> set (rows (reservations db1))"
      using Cons.prems(2,3) by (auto simp: one(3) image_iff)
    then have IH: "wfBudget dayOf db' \<and> ordinaryDailyOccupancy db' d \<le> ordinaryDailyOccupancy db1 d \<and>
      (r = Inr () \<longrightarrow>
        rows (reservations db') = filter (\<lambda>x. res_receipt_id x \<notin> res_receipt_id ` set rest)
          (rows (reservations db1)) \<and>
        ordinaryDailyOccupancy db' d = ordinaryDailyOccupancy db1 d -
          int (length (filter (\<lambda>x. res_day x = d \<and> \<not> committedRow files db1 x) rest)))"
      using Cons.prems(3,4) one(2) Inr by (intro Cons.IH) auto
    have "committedRow files db1 x = committedRow files db x" for x
      by (simp add: committedRow_def one(4))
    moreover have "filter (\<lambda>x. res_receipt_id x \<notin> res_receipt_id ` set rest) (rows (reservations db1)) =
        filter (\<lambda>x. res_receipt_id x \<notin> res_receipt_id ` set (row # rest)) (rows (reservations db))"
      unfolding one(3) filter_filter by (rule filter_cong [OF refl]) auto
    ultimately show ?thesis using IH one(1) [of d] by auto
  qed
qed auto

section \<open>Sequences of operations\<close>

text \<open>Beside the operations of the two files, the writer records the receipt of a write it
  had reserved.\<close>

datatype BudgetOp =
    ChargeOp BudgetTracker CanonWriteCharge
  | RecordOp Receipt
  | SettleOp "string \<Rightarrow> string option"
  | AddOp string string int

definition recordReceipt :: "BudgetDb \<Rightarrow> Receipt \<Rightarrow> BudgetDb" where
  "recordReceipt db p =
     (if rcpt_id p \<in> set (reservedReceipts db) \<and> rcpt_id p \<notin> rcpt_id ` set (rows (receipts db))
      then db\<lparr>receipts := map_option (\<lambda>rs. rs @ [p]) (receipts db)\<rparr>
      else db)"

fun budgetStep :: "int \<Rightarrow> BudgetDb \<Rightarrow> BudgetOp \<Rightarrow> BudgetDb" where
  "budgetStep limit db (ChargeOp tracker w) = snd (fst (chargeCanonWrite db tracker w limit))"
| "budgetStep limit db (RecordOp p) = recordReceipt db p"
| "budgetStep limit db (SettleOp files) = fst (settleWriteReservations files db)"
| "budgetStep limit db (AddOp day name delta) =
     (case addDailyBudget db day name delta of Inl e \<Rightarrow> db | Inr (db', _) \<Rightarrow> db')"

fun dated :: "(string \<Rightarrow> string) \<Rightarrow> BudgetOp \<Rightarrow> bool" where
  "dated dayOf (ChargeOp tracker w) = (budgetDay (charge_at w) = dayOf (charge_receipt_id w))"
| "dated dayOf (RecordOp p) = (take 10 (rcpt_at p) = dayOf (rcpt_id p))"
| "dated dayOf (SettleOp files) = True"
| "dated dayOf (AddOp day name delta) = (name \<noteq> DAILY)"

definition withinLimit :: "int \<Rightarrow> BudgetDb \<Rightarrow> BudgetDb \<Rightarrow> bool" where
  "withinLimit limit db db' \<longleftrightarrow>
     (\<forall>day. ordinaryDailyOccupancy db' day \<le> max (ordinaryDailyOccupancy db day) limit)"

lemma record_occupancy:
  assumes "wfBudget dayOf db" "take 10 (rcpt_at p) = dayOf (rcpt_id p)"
  shows "wfBudget dayOf (recordReceipt db p)"
    and "ordinaryDailyOccupancy (recordReceipt db p) day = ordinaryDailyOccupancy db day"
proof -
  show "wfBudget dayOf (recordReceipt db p)"
    using assms by (cases "receipts db") (auto simp: wfBudget_def recordReceipt_def)
  show "ordinaryDailyOccupancy (recordReceipt db p) day = ordinaryDailyOccupancy db day"
    by (cases "receipts db")
      (auto simp: ordinaryDailyOccupancy_def settled_unfold recordReceipt_def reservedForDay_def
        ledgerUsed_def reservedReceipts_def)
qed

lemma add_occupancy:
  assumes "name \<noteq> DAILY" "addDailyBudget db day name delta = Inr (db', u)"
  shows "wfBudget dayOf db' = wfBudget dayOf db"
    and "ordinaryDailyOccupancy db' d = ordinaryDailyOccupancy db d"
proof -
  have "receipts db' = receipts db" "reservations db' = reservations db"
    and "ledgerUsed db' d = ledgerUsed db d" for d
    using assms by (auto simp: addDailyBudget_def Let_def ledgerUsed_def split: option.splits if_splits)
  then show "wfBudget dayOf db' = wfBudget dayOf db"
    and "ordinaryDailyOccupancy db' d = ordinaryDailyOccupancy db d"
    by (simp_all add: wfBudget_def ordinaryDailyOccupancy_def settled_unfold reservedForDay_def
        reservedReceipts_def)
qed

lemma settle_occupancy:
  assumes "wfBudget dayOf db"
  shows "wfBudget dayOf (fst (settleWriteReservations files db))"
    and "ordinaryDailyOccupancy (fst (settleWriteReservations files db)) d \<le> ordinaryDailyOccupancy db d"
proof -
  have "distinct (map res_receipt_id (rows (reservations db)))" using assms by (simp add: wfBudget_def)
  then have "wfBudget dayOf (fst (settleRows files db (rows (reservations db)))) \<and>
      ordinaryDailyOccupancy (fst (settleRows files db (rows (reservations db)))) d
        \<le> ordinaryDailyOccupancy db d"
    using settleRows_occupancy [OF assms order_refl _ surjective_pairing] by blast
  then show "wfBudget dayOf (fst (settleWriteReservations files db))"
    and "ordinaryDailyOccupancy (fst (settleWriteReservations files db)) d \<le> ordinaryDailyOccupancy db d"
    using assms by (cases "reservations db"; simp add: settleWriteReservations_def)+
qed

lemma budgetStep_keeps:
  assumes "dated dayOf op" "wfBudget dayOf db"
  shows "wfBudget dayOf (budgetStep limit db op) \<and> withinLimit limit db (budgetStep limit db op)"
proof (cases op)
  case (ChargeOp tracker w)
  then show ?thesis
    using assms charge_occupancy [of dayOf db w] by (simp add: withinLimit_def)
next
  case (RecordOp p)
  then show ?thesis using assms record_occupancy [of dayOf db p] by (simp add: withinLimit_def)
next
  case (SettleOp files)
  then show ?thesis
    using settle_occupancy [OF assms(2), of files] by (auto simp: withinLimit_def le_max_iff_disj)
next
  case (AddOp day name delta)
  then show ?thesis
    using assms add_occupancy [of name db day delta]
    by (auto simp: withinLimit_def le_max_iff_disj split: sum.split)
qed

interpretation daily_budget: machine "budgetStep limit" "dated dayOf" "wfBudget dayOf" "withinLimit limit"
proof
  show "withinLimit limit s u" if "withinLimit limit s t" "withinLimit limit t u" for s t u
    unfolding withinLimit_def
  proof
    fix day
    have "ordinaryDailyOccupancy u day \<le> max (ordinaryDailyOccupancy t day) limit"
      and "ordinaryDailyOccupancy t day \<le> max (ordinaryDailyOccupancy s day) limit"
      using that by (simp_all add: withinLimit_def)
    then show "ordinaryDailyOccupancy u day \<le> max (ordinaryDailyOccupancy s day) limit" by simp
  qed
qed (use budgetStep_keeps in \<open>auto simp: withinLimit_def\<close>)

lemma reserve_succeeds:
  assumes "assertPageRelPath (Str (charge_page_path w)) = Inr ()"
    and "reservations db = None \<or> charge_receipt_id w \<in> set (reservedReceipts db) \<or>
      ordinaryDailyOccupancy db day < limit"
  shows "\<exists>db'. reserveCanonWrite db w day limit = Inr db'"
  using assms by (auto simp: reserveCanonWrite_def split: option.split)

lemma reserve_reserves:
  assumes "reserveCanonWrite db w day limit = Inr db'"
  shows "reservations db' = None \<or> charge_receipt_id w \<in> set (reservedReceipts db')"
  using assms by (cases rule: reserve_cases) (auto simp: reservedReceipts_def)

lemma charge_refused:
  assumes "chargeCanonWrite db tracker w limit = ((tracker', db'), Inl e)"
  shows "tracker' = tracker \<and> db' = db"
proof (rule ccontr)
  assume changed: "\<not> (tracker' = tracker \<and> db' = db)"
  let ?day = "budgetDay (charge_at w)"
  have path: "assertPageRelPath (Str (charge_page_path w)) = Inr ()"
    using assms changed by (auto simp: chargeCanonWrite_def split: if_splits)
  have fits: "charge_receipt_id w \<in> set (reservedReceipts db) \<or> ordinaryDailyOccupancy db ?day < limit"
    and table: "reservations db \<noteq> None"
    using assms changed path
    by (auto simp: chargeCanonWrite_def Let_def split: if_splits sum.splits)
  then obtain t1 db1 where tr: "chargeWrite tracker db (Some w) = Inr (t1, db1)"
      and failed: "reserveCanonWrite db1 w ?day limit = Inl e"
    using assms changed path by (auto simp: chargeCanonWrite_def Let_def split: if_splits sum.splits)
  have "db1 = db \<or> (\<exists>lim. reserveCanonWrite db w ?day lim = Inr db1)"
    using tr by (cases tracker) (auto simp: result_simps split: if_splits)
  then have "reservations db1 = None \<or> charge_receipt_id w \<in> set (reservedReceipts db1) \<or>
      ordinaryDailyOccupancy db1 ?day < limit"
    using fits reserve_reserves by blast
  from reserve_succeeds [OF path this] failed show False by auto
qed

definition demoDb :: BudgetDb where
  "demoDb = \<lparr>budget_ledger = Some Map.empty,
     reservations = Some [\<lparr>res_receipt_id = ''r1'', res_day = ''2026-01-01'',
       res_page_path = ''p.md'', res_before_hash = None\<rparr>],
     receipts = Some [], write_intents = None, backfill_attempts = None, backfill_results = []\<rparr>"

lemma demoDb_wf: "wfBudget (\<lambda>_. ''2026-01-01'') demoDb"
  by (simp add: wfBudget_def demoDb_def)

lemma demoDb_occupancy: "ordinaryDailyOccupancy demoDb ''2026-01-01'' = 1"
  by (simp add: ordinaryDailyOccupancy_def ordinaryDailySettled_def reservedForDay_def
      reservedReceipts_def ledgerUsed_def demoDb_def)

section \<open>Properties\<close>

text \<open>C23: no sequence of charges (under any tracker), recorded receipts, settlements and
  ledger additions takes a day's occupancy - settled writes and live reservations - over
  the vault's daily limit when it starts within it.\<close>

theorem daily_limit_respected:
  assumes "wfBudget dayOf db" "list_all (dated dayOf) ops"
    and "ordinaryDailyOccupancy db day \<le> limit"
  shows "ordinaryDailyOccupancy (foldl (budgetStep limit) db ops) day \<le> limit"
  using daily_budget.run_progress [OF assms(2,1), of limit] assms(3)
  by (auto simp: withinLimit_def max_def split: if_splits dest!: spec [of _ day])

theorem daily_limit_respected_witness:
  "ordinaryDailyOccupancy (foldl (budgetStep 1) demoDb
      [ChargeOp (InMemory 5 5 0 0) \<lparr>charge_receipt_id = ''r2'', charge_page_path = ''q.md'',
         charge_before_hash = None, charge_at = ''2026-01-01T00:00:00Z''\<rparr>,
       SettleOp (\<lambda>_. None)]) ''2026-01-01'' \<le> 1"
  by (rule daily_limit_respected [OF demoDb_wf]) (simp_all add: demoDb_occupancy budgetDay_def)

text \<open>A completed settlement leaves no reservation, and accounts every day exactly:
  its occupancy drops by the reservations of that day whose write left neither a receipt
  nor a changed file, so no committed write is forgotten and none is counted twice.\<close>

theorem settlement_exact:
  assumes "wfBudget dayOf db" "rows (write_intents db) = []"
    and "settleWriteReservations files db = (db', Inr ())"
  shows "rows (reservations db') = [] \<and>
    ordinaryDailyOccupancy db' day = ordinaryDailyOccupancy db day -
      int (length (filter (\<lambda>r. res_day r = day \<and> \<not> committedRow files db r) (rows (reservations db))))"
proof -
  obtain rs where rs: "reservations db = Some rs"
    using assms(2,3) by (cases "reservations db") (simp_all add: settleWriteReservations_def)
  have "settleRows files db rs = (db', Inr ())"
    using assms(2,3) by (simp add: settleWriteReservations_def rs)
  moreover have "distinct (map res_receipt_id rs)" using assms(1) by (simp add: wfBudget_def rs)
  ultimately show ?thesis
    using settleRows_occupancy [OF assms(1), of rs files db' "Inr ()" day]
    by (auto simp: rs filter_empty_conv)
qed

theorem settlement_exact_witness:
  "ordinaryDailyOccupancy (fst (settleWriteReservations (\<lambda>_. None) demoDb)) ''2026-01-01'' = 0"
proof -
  have "assertPageRelPath (Str ''p.md'') = Inr ()" by code_simp
  then obtain db' where s: "settleWriteReservations (\<lambda>_. None) demoDb = (db', Inr ())"
    by (simp add: settleWriteReservations_def demoDb_def settleRow_def)
  have "rows (write_intents demoDb) = []" by (simp add: demoDb_def)
  from settlement_exact [OF demoDb_wf this s, of "''2026-01-01''"] show ?thesis
    by (simp add: s demoDb_occupancy committedRow_def) (simp add: demoDb_def)
qed

text \<open>a charge that is refused, for whatever reason, has no effect: neither the tracker
  nor the tables change, so a retry meets the same state.\<close>

theorem refused_charge_has_no_effect:
  assumes "chargeCanonWrite db tracker w limit = ((tracker', db'), Inl e)"
  shows "tracker' = tracker \<and> db' = db"
  using assms by (rule charge_refused)

theorem refused_charge_has_no_effect_witness:
  "let w = \<lparr>charge_receipt_id = ''r2'', charge_page_path = ''q.md'', charge_before_hash = None,
         charge_at = ''2026-01-01T00:00:00Z''\<rparr>
   in fst (chargeCanonWrite demoDb (InMemory 5 5 0 0) w 1) = (InMemory 5 5 0 0, demoDb)"
proof -
  let ?w = "\<lparr>charge_receipt_id = ''r2'', charge_page_path = ''q.md'', charge_before_hash = None,
         charge_at = ''2026-01-01T00:00:00Z''\<rparr>"
  have "assertPageRelPath (Str ''q.md'') = Inr ()" by code_simp
  then have "snd (chargeCanonWrite demoDb (InMemory 5 5 0 0) ?w 1) =
      Inl (BudgetExhausted WritesPerDay 1)"
    using demoDb_occupancy
    by (simp add: chargeCanonWrite_def Let_def budgetDay_def) (simp add: demoDb_def reservedReceipts_def)
  then obtain t d where "chargeCanonWrite demoDb (InMemory 5 5 0 0) ?w 1 =
      ((t, d), Inl (BudgetExhausted WritesPerDay 1))"
    by (metis prod.collapse)
  from this refused_charge_has_no_effect [OF this] show ?thesis by simp
qed

end
