(* ===== verification/Reflex_Input.thy ===== *)
theory Reflex_Input
  imports Rfc3339 Js_Number
begin

text \<open>
  \<open>packages/reflex/src/types.ts\<close> and \<open>packages/reflex/src/validate.ts\<close>: the snapshot of
  facts, decisions and actions an analysis is given, and the validation that copies it.

  The input is a value of unknown type; the copy is a record, so the freezing of the copy
  has nothing to model.
\<close>

datatype NodeKind = Fact | Decision | Action

datatype Effect = NeedsRevalidation | NoChangeDetected | UnknownEffect

datatype Failure =
    InvalidInput | ResourceLimit | NotConfigured | StaleSnapshot | OverBudget
  | DeadlineExceeded | HostUnavailable | InvalidResponse | AmbiguousEvidence

record SnapshotBinding =
  snapshot_id :: string
  principal_id :: string
  policy_epoch :: int
  expires_at :: string

record MemoryNode =
  node_id :: string
  node_kind :: NodeKind
  revision :: string
  statement :: string
  evidence_ids :: "string list"
  consequence :: int

record Dependency =
  prerequisite :: string
  dependent :: string
  edge_evidence :: "string list"

record Snapshot =
  binding :: SnapshotBinding
  nodes :: "MemoryNode list"
  dependencies :: "Dependency list"

record Change =
  change_id :: string
  change_statement :: string
  change_occurred_at :: string
  change_evidence :: "string list"
  target_ids :: "string list"

datatype Relation = Contradicts | Supersedes | Supports | Unrelated | UnknownRelation

datatype Reason = Failed Failure | SupportedChange | NoChangeSeen | CounterfactualAssumption

record Judgment =
  judged_target :: string
  judged_effect :: Effect
  judged_reason :: Reason
  judged_relation :: "Relation option"
  judged_confidence :: "rat option"
  judged_probability :: "rat option"
  judged_consequence :: "rat option"

record ImpactReason =
  reason_target :: string
  reason_effect :: Effect
  reason_via :: "string option"
  reason_distance :: nat

record Impact =
  impact_node :: string
  impact_kind :: NodeKind
  impact_revision :: string
  impact_effect :: Effect
  impact_consequence :: int
  impact_reasons :: "ImpactReason list"

datatype ReportStatus = Complete | Incomplete | Stale

datatype ReportMode = Observed | Counterfactual

text \<open>The constant fields of a report (schema, advisory only, no authorization) and its
  metrics are left out.\<close>

record ReflexReport =
  report_mode :: ReportMode
  report_binding :: SnapshotBinding
  report_change :: string
  report_status :: ReportStatus
  analyzed_revisions :: "(string \<times> string) list"
  judgments :: "Judgment list"
  report_impacts :: "Impact list"

datatype AdviceStatus = Revalidate | Unexamined | NoChangeAdvice

record StepAdvice =
  advice_step :: string
  advice_status :: AdviceStatus
  affected_ids :: "string list"

record Trace =
  trace_nodes :: "string list"
  trace_evidence :: "string list"
  truncated :: bool

record Limits =
  concurrency :: js
  max_requests :: js
  request_timeout_ms :: js
  total_timeout_ms :: js
  max_request_bytes :: js
  max_total_request_bytes :: js

record Thresholds =
  evidence_min :: js
  applicability_min :: js
  relation_probability_min :: js
  relation_confidence_min :: js
  counterevidence_max :: js

definition DEFAULT_LIMITS :: Limits where
  "DEFAULT_LIMITS =
     \<lparr>concurrency = Num 4, max_requests = Num 32, request_timeout_ms = Num 2000,
      total_timeout_ms = Num 10000, max_request_bytes = Num 24000,
      max_total_request_bytes = Num 256000\<rparr>"

definition DEFAULT_THRESHOLDS :: Thresholds where
  "DEFAULT_THRESHOLDS =
     \<lparr>evidence_min = Num (toDouble (85 / 100)), applicability_min = Num (toDouble (85 / 100)),
      relation_probability_min = Num (toDouble (85 / 100)), relation_confidence_min = Num (1 / 2),
      counterevidence_max = Num (toDouble (15 / 100))\<rparr>"

section \<open>Checks of one value\<close>

text \<open>\<open>object(v)\<close> and the property reads that follow it.\<close>

fun isObject :: "js \<Rightarrow> bool" where
  "isObject (Obj kvs) = True"
| "isObject v = False"

fun get :: "js \<Rightarrow> string \<Rightarrow> js" where
  "get (Obj kvs) k = field kvs k"
| "get v k = Undefined"

fun elements :: "js \<Rightarrow> js list option" where
  "elements (Arr vs) = Some vs"
| "elements v = None"

definition unit :: "js \<Rightarrow> bool" where
  "unit v \<longleftrightarrow> isUnitNumber v"

definition integer :: "js \<Rightarrow> int \<Rightarrow> int \<Rightarrow> bool" where
  "integer v lo hi \<longleftrightarrow>
     isSafeInteger v \<and> (case v of Num q \<Rightarrow> of_int lo \<le> q \<and> q \<le> of_int hi | _ \<Rightarrow> False)"

definition unsafeIds :: "string list" where
  "unsafeIds = [''__proto__'', ''prototype'', ''constructor'']"

text \<open>\<open>/^[A-Za-z0-9][A-Za-z0-9._:/@-]{0,191}$/\<close>, and none of the unsafe names.\<close>

definition idText :: "string \<Rightarrow> bool" where
  "idText s \<longleftrightarrow>
     (case s of [] \<Rightarrow> False
      | c # cs \<Rightarrow> isAlnum c \<and> length cs \<le> 191 \<and>
          list_all (\<lambda>d. isAlnum d \<or> d \<in> set ''._:/@-'') cs) \<and>
     s \<notin> set unsafeIds"

fun isId :: "js \<Rightarrow> bool" where
  "isId (Str s) = idText s"
| "isId v = False"

definition isText :: "js \<Rightarrow> int \<Rightarrow> bool" where
  "isText v limit \<longleftrightarrow> (case v of Str s \<Rightarrow> length (trim s) > 0 \<and> int (length s) \<le> limit | _ \<Rightarrow> False)"

text \<open>The pattern \<open>YYYY-MM-DDThh:mm:ss(.s{1,3})?Z\<close> of a real date and time: what surviving
  the trip through \<open>Date.parse\<close> and \<open>toISOString\<close> means.\<close>

definition timestampText :: "string \<Rightarrow> bool" where
  "timestampText s \<longleftrightarrow>
     (case RFC3339_exec s of
        None \<Rightarrow> False
      | Some m \<Rightarrow>
          s ! 10 = CHR ''T'' \<and> last s = CHR ''Z'' \<and> m_offset m = None \<and>
          length (case m_fraction m of None \<Rightarrow> [] | Some f \<Rightarrow> f) \<le> 3 \<and>
          1 \<le> number (m_month m) \<and> number (m_month m) \<le> 12 \<and>
          1 \<le> number (m_day m) \<and>
          number (m_day m) \<le> daysInMonth (number (m_year m)) (number (m_month m)) \<and>
          number (m_hour m) \<le> 23 \<and> number (m_minute m) \<le> 59 \<and> number (m_second m) \<le> 59)"

fun isTimestamp :: "js \<Rightarrow> bool" where
  "isTimestamp (Str s) = timestampText s"
| "isTimestamp v = False"

definition isIds :: "js \<Rightarrow> nat \<Rightarrow> nat \<Rightarrow> bool" where
  "isIds v lo hi \<longleftrightarrow>
     (case elements v of
        None \<Rightarrow> False
      | Some vs \<Rightarrow> lo \<le> length vs \<and> length vs \<le> hi \<and> list_all isId vs \<and> distinct vs)"

fun textOf :: "js \<Rightarrow> string" where
  "textOf (Str s) = s"
| "textOf v = []"

definition textsOf :: "js \<Rightarrow> string list" where
  "textsOf v = (case elements v of None \<Rightarrow> [] | Some vs \<Rightarrow> map textOf vs)"

fun intOf :: "js \<Rightarrow> int" where
  "intOf (Num q) = \<lfloor>q\<rfloor>"
| "intOf v = 0"

definition kindOf :: "js \<Rightarrow> NodeKind option" where
  "kindOf v =
     (if v = Str ''fact'' then Some Fact
      else if v = Str ''decision'' then Some Decision
      else if v = Str ''action'' then Some Action else None)"

section \<open>The validated copy\<close>

definition bindingOk :: "js \<Rightarrow> bool" where
  "bindingOk b \<longleftrightarrow>
     isId (get b ''snapshot_id'') \<and> isId (get b ''principal_id'') \<and>
     integer (get b ''policy_epoch'') 0 MAX_SAFE_INTEGER \<and> isTimestamp (get b ''expires_at'')"

definition nodeOk :: "js \<Rightarrow> bool" where
  "nodeOk n \<longleftrightarrow>
     isObject n \<and> isId (get n ''id'') \<and> isId (get n ''revision'') \<and>
     kindOf (get n ''kind'') \<noteq> None \<and> isText (get n ''statement'') 8192 \<and>
     isIds (get n ''evidence_ids'') 1 64 \<and> integer (get n ''consequence'') 0 4"

definition nodeOf :: "js \<Rightarrow> MemoryNode" where
  "nodeOf n =
     \<lparr>node_id = textOf (get n ''id''), node_kind = the (kindOf (get n ''kind'')),
      revision = textOf (get n ''revision''), statement = textOf (get n ''statement''),
      evidence_ids = textsOf (get n ''evidence_ids''), consequence = intOf (get n ''consequence'')\<rparr>"

definition edgeOf :: "js \<Rightarrow> Dependency" where
  "edgeOf e =
     \<lparr>prerequisite = textOf (get e ''prerequisite''), dependent = textOf (get e ''dependent''),
      edge_evidence = textsOf (get e ''evidence_ids'')\<rparr>"

definition scanNode :: "string list \<times> nat \<Rightarrow> js \<Rightarrow> Failure + string list \<times> nat" where
  "scanNode acc n =
     guard (nodeOk n) InvalidInput
       (guard (node_id (nodeOf n) \<notin> set (fst acc)) InvalidInput
         (Inr (fst acc @ [node_id (nodeOf n)], snd acc + length (statement (nodeOf n)))))"

definition scanEdge ::
  "string list \<Rightarrow> (string \<times> string) list \<Rightarrow> js \<Rightarrow> Failure + (string \<times> string) list" where
  "scanEdge seen edges e =
     guard (isObject e \<and> isId (get e ''prerequisite'') \<and> isId (get e ''dependent'') \<and>
            isIds (get e ''evidence_ids'') 1 64) InvalidInput
       (let edge = edgeOf e; key = (prerequisite edge, dependent edge)
        in guard (prerequisite edge \<in> set seen \<and> dependent edge \<in> set seen \<and>
                  prerequisite edge \<noteq> dependent edge) InvalidInput
             (guard (key \<notin> set edges) InvalidInput (Inr (edges @ [key]))))"

definition changeOk :: "js \<Rightarrow> bool" where
  "changeOk c \<longleftrightarrow>
     isObject c \<and> isId (get c ''id'') \<and> isText (get c ''statement'') 8192 \<and>
     isTimestamp (get c ''occurred_at'') \<and> isIds (get c ''evidence_ids'') 1 64 \<and>
     isIds (get c ''target_ids'') 1 64"

definition validatedInput :: "js \<Rightarrow> js \<Rightarrow> Failure + Snapshot \<times> Change" where
  "validatedInput raw changeRaw =
     guard (isObject raw \<and> isObject (get raw ''binding'') \<and>
            elements (get raw ''nodes'') \<noteq> None \<and> elements (get raw ''dependencies'') \<noteq> None) InvalidInput
       (let b = get raw ''binding'';
            ns = the (elements (get raw ''nodes''));
            es = the (elements (get raw ''dependencies''))
        in guard (bindingOk b) InvalidInput
           (guard (int (length ns) \<le> 2000 \<and> int (length es) \<le> 8000) ResourceLimit
           (andThen (foldM scanNode ([], 0) ns) (\<lambda>(seen, chars).
            guard (int chars \<le> 1000000) ResourceLimit
           (andThen (foldM (scanEdge seen) [] es) (\<lambda>edges.
            guard (changeOk changeRaw) InvalidInput
           (guard (list_all (\<lambda>t. t \<in> set seen) (textsOf (get changeRaw ''target_ids''))) InvalidInput
           (Inr (\<lparr>binding = \<lparr>snapshot_id = textOf (get b ''snapshot_id''),
                             principal_id = textOf (get b ''principal_id''),
                             policy_epoch = intOf (get b ''policy_epoch''),
                             expires_at = textOf (get b ''expires_at'')\<rparr>,
                  nodes = map nodeOf ns,
                  dependencies = map edgeOf es\<rparr>,
                 \<lparr>change_id = textOf (get changeRaw ''id''),
                  change_statement = textOf (get changeRaw ''statement''),
                  change_occurred_at = textOf (get changeRaw ''occurred_at''),
                  change_evidence = textsOf (get changeRaw ''evidence_ids''),
                  target_ids = textsOf (get changeRaw ''target_ids'')\<rparr>)))))))))"

text \<open>\<open>{ ...defaults, ...raw }\<close>: an own key of the argument replaces the default.\<close>

definition override :: "(string \<times> js) list \<Rightarrow> string \<Rightarrow> js \<Rightarrow> js" where
  "override raw k d = (case map_of raw k of None \<Rightarrow> d | Some v \<Rightarrow> v)"

definition limits :: "(string \<times> js) list \<Rightarrow> Failure + Limits" where
  "limits raw =
     (let v = \<lparr>concurrency = override raw ''concurrency'' (concurrency DEFAULT_LIMITS),
               max_requests = override raw ''max_requests'' (max_requests DEFAULT_LIMITS),
               request_timeout_ms =
                 override raw ''request_timeout_ms'' (request_timeout_ms DEFAULT_LIMITS),
               total_timeout_ms = override raw ''total_timeout_ms'' (total_timeout_ms DEFAULT_LIMITS),
               max_request_bytes =
                 override raw ''max_request_bytes'' (max_request_bytes DEFAULT_LIMITS),
               max_total_request_bytes =
                 override raw ''max_total_request_bytes'' (max_total_request_bytes DEFAULT_LIMITS)\<rparr>
      in guard (integer (concurrency v) 1 8 \<and> integer (max_requests v) 0 64 \<and>
                integer (request_timeout_ms v) 1 30000 \<and> integer (total_timeout_ms v) 1 60000 \<and>
                integer (max_request_bytes v) 1 128000 \<and>
                integer (max_total_request_bytes v) 1 4000000) InvalidInput (Inr v))"

definition atLeast :: "js \<Rightarrow> rat \<Rightarrow> bool" where
  "atLeast v q \<longleftrightarrow> (case v of Num p \<Rightarrow> q \<le> p | _ \<Rightarrow> False)"

definition above :: "js \<Rightarrow> rat \<Rightarrow> bool" where
  "above v q \<longleftrightarrow> (case v of Num p \<Rightarrow> q < p | _ \<Rightarrow> False)"

definition thresholds :: "(string \<times> js) list \<Rightarrow> Failure + Thresholds" where
  "thresholds raw =
     (let v = \<lparr>evidence_min = override raw ''evidence_min'' (evidence_min DEFAULT_THRESHOLDS),
               applicability_min =
                 override raw ''applicability_min'' (applicability_min DEFAULT_THRESHOLDS),
               relation_probability_min =
                 override raw ''relation_probability_min'' (relation_probability_min DEFAULT_THRESHOLDS),
               relation_confidence_min =
                 override raw ''relation_confidence_min'' (relation_confidence_min DEFAULT_THRESHOLDS),
               counterevidence_max =
                 override raw ''counterevidence_max'' (counterevidence_max DEFAULT_THRESHOLDS)\<rparr>
      in guard (list_all (\<lambda>e. unit (snd e)) raw \<and>
                unit (evidence_min v) \<and> unit (applicability_min v) \<and>
                unit (relation_probability_min v) \<and> unit (relation_confidence_min v) \<and>
                unit (counterevidence_max v) \<and>
                atLeast (evidence_min v) (1 / 2) \<and> atLeast (applicability_min v) (1 / 2) \<and>
                above (relation_probability_min v) (1 / 2) \<and>
                \<not> atLeast (counterevidence_max v) (1 / 2)) InvalidInput (Inr v))"

section \<open>Well-formed snapshots\<close>

definition nodeIds :: "Snapshot \<Rightarrow> string list" where
  "nodeIds s = map node_id (nodes s)"

definition edgePairs :: "Snapshot \<Rightarrow> (string \<times> string) list" where
  "edgePairs s = map (\<lambda>e. (prerequisite e, dependent e)) (dependencies s)"

definition wfSnapshot :: "Snapshot \<Rightarrow> bool" where
  "wfSnapshot s \<longleftrightarrow>
     distinct (nodeIds s) \<and> distinct (edgePairs s) \<and>
     (\<forall>(a, b)\<in>set (edgePairs s). a \<noteq> b \<and> a \<in> set (nodeIds s) \<and> b \<in> set (nodeIds s))"

definition withinBounds :: "Snapshot \<Rightarrow> bool" where
  "withinBounds s \<longleftrightarrow>
     length (nodes s) \<le> 2000 \<and> length (dependencies s) \<le> 8000 \<and>
     (\<Sum>n\<leftarrow>nodes s. length (statement n)) \<le> 1000000 \<and>
     (\<forall>n\<in>set (nodes s). 0 \<le> consequence n \<and> consequence n \<le> 4 \<and> evidence_ids n \<noteq> [] \<and>
        idText (node_id n))"

lemma scanNode_Inr:
  "scanNode acc n = Inr acc' \<longleftrightarrow>
    nodeOk n \<and> node_id (nodeOf n) \<notin> set (fst acc) \<and>
    acc' = (fst acc @ [node_id (nodeOf n)], snd acc + length (statement (nodeOf n)))"
  by (auto simp: scanNode_def result_simps)

lemma scanEdge_Inr:
  "scanEdge seen edges e = Inr edges' \<Longrightarrow>
    edges' = edges @ [(prerequisite (edgeOf e), dependent (edgeOf e))] \<and>
    (prerequisite (edgeOf e), dependent (edgeOf e)) \<notin> set edges \<and>
    prerequisite (edgeOf e) \<noteq> dependent (edgeOf e) \<and>
    prerequisite (edgeOf e) \<in> set seen \<and> dependent (edgeOf e) \<in> set seen"
  by (auto simp: scanEdge_def result_simps Let_def)

lemma scanNode_run:
  assumes "foldM scanNode (seen, chars) ns = Inr (seen', chars')" "distinct seen"
  shows "seen' = seen @ map (node_id \<circ> nodeOf) ns \<and> distinct seen' \<and>
    chars' = chars + (\<Sum>n\<leftarrow>ns. length (statement (nodeOf n))) \<and> (\<forall>n\<in>set ns. nodeOk n)"
  using assms
proof (induction ns arbitrary: seen chars)
  case (Cons n ns)
  from Cons.prems(1) obtain acc where "scanNode (seen, chars) n = Inr acc"
      and "foldM scanNode acc ns = Inr (seen', chars')"
    by (auto simp: result_simps)
  then have n: "nodeOk n" "node_id (nodeOf n) \<notin> set seen"
    and rest: "foldM scanNode (seen @ [node_id (nodeOf n)], chars + length (statement (nodeOf n))) ns =
      Inr (seen', chars')"
    by (auto simp: scanNode_Inr)
  have "distinct (seen @ [node_id (nodeOf n)])" using Cons.prems(2) n by simp
  note IH = Cons.IH [OF rest this]
  show ?case
  proof (intro conjI)
    show "distinct seen'" using IH by blast
  qed (use IH n in \<open>simp_all add: comp_def\<close>)
qed simp

lemma scanEdge_run:
  assumes "foldM (scanEdge seen) edges es = Inr edges'" "distinct edges"
    and "\<forall>(a, b)\<in>set edges. a \<noteq> b \<and> a \<in> set seen \<and> b \<in> set seen"
  shows "edges' = edges @ map (\<lambda>e. (prerequisite (edgeOf e), dependent (edgeOf e))) es \<and>
    distinct edges' \<and> (\<forall>(a, b)\<in>set edges'. a \<noteq> b \<and> a \<in> set seen \<and> b \<in> set seen)"
  using assms
proof (induction es arbitrary: edges)
  case (Cons e es)
  let ?k = "(prerequisite (edgeOf e), dependent (edgeOf e))"
  from Cons.prems(1) obtain acc where "scanEdge seen edges e = Inr acc"
      and "foldM (scanEdge seen) acc es = Inr edges'"
    by (auto simp: result_simps)
  then have e: "?k \<notin> set edges" "fst ?k \<noteq> snd ?k" "fst ?k \<in> set seen" "snd ?k \<in> set seen"
    and rest: "foldM (scanEdge seen) (edges @ [?k]) es = Inr edges'"
    by (auto dest!: scanEdge_Inr)
  have "distinct (edges @ [?k])" "\<forall>(a, b)\<in>set (edges @ [?k]). a \<noteq> b \<and> a \<in> set seen \<and> b \<in> set seen"
    using Cons.prems(2,3) e by auto
  note IH = Cons.IH [OF rest this]
  show ?case
  proof (intro conjI)
    show "distinct edges'" "\<forall>(a, b)\<in>set edges'. a \<noteq> b \<and> a \<in> set seen \<and> b \<in> set seen"
      using IH by blast+
  qed (use IH in simp)
qed simp

lemma nodeOk_facts:
  assumes "nodeOk n"
  shows "idText (node_id (nodeOf n))" "0 \<le> consequence (nodeOf n)" "consequence (nodeOf n) \<le> 4"
    "evidence_ids (nodeOf n) \<noteq> []"
proof -
  show "idText (node_id (nodeOf n))"
    using assms by (cases "get n ''id''") (auto simp: nodeOk_def nodeOf_def)
  show "0 \<le> consequence (nodeOf n)" "consequence (nodeOf n) \<le> 4"
    using assms by (cases "get n ''consequence''"; auto simp: nodeOk_def nodeOf_def integer_def floor_le_iff)+
  show "evidence_ids (nodeOf n) \<noteq> []"
    using assms by (cases "elements (get n ''evidence_ids'')")
      (auto simp: nodeOk_def nodeOf_def isIds_def textsOf_def)
qed

lemma validatedInput_facts:
  assumes "validatedInput raw changeRaw = Inr (s, c)"
  shows "wfSnapshot s" "withinBounds s" "set (target_ids c) \<subseteq> set (nodeIds s)"
proof -
  let ?ns = "the (elements (get raw ''nodes''))"
  let ?es = "the (elements (get raw ''dependencies''))"
  obtain seen chars edges where n: "foldM scanNode ([], 0) ?ns = Inr (seen, chars)"
    and e: "foldM (scanEdge seen) [] ?es = Inr edges"
    and bounds: "length ?ns \<le> 2000" "length ?es \<le> 8000" "chars \<le> 1000000"
    and t: "list_all (\<lambda>t. t \<in> set seen) (target_ids c)"
    and s: "nodes s = map nodeOf ?ns" "dependencies s = map edgeOf ?es"
    using assms by (auto simp: validatedInput_def result_simps Let_def)
  note nodes = scanNode_run [OF n] and edges = scanEdge_run [OF e]
  have ids: "nodeIds s = seen" using nodes by (simp add: nodeIds_def s comp_def)
  have pairs: "edgePairs s = edges" using edges by (simp add: edgePairs_def s comp_def)
  show "wfSnapshot s" using nodes edges by (auto simp: wfSnapshot_def ids pairs)
  show "withinBounds s"
    using nodes bounds nodeOk_facts by (auto simp: withinBounds_def s comp_def)
  show "set (target_ids c) \<subseteq> set (nodeIds s)" using t by (auto simp: ids list_all_iff)
qed

definition demoNode :: "string \<Rightarrow> string \<Rightarrow> js" where
  "demoNode n k = Obj
     [(''id'', Str n), (''kind'', Str k), (''revision'', Str ''r1''), (''statement'', Str ''text''),
      (''evidence_ids'', Arr [Str ''e1'']), (''consequence'', Num 2)]"

definition demoSnapshot :: js where
  "demoSnapshot = Obj
     [(''binding'', Obj [(''snapshot_id'', Str ''s1''), (''principal_id'', Str ''p1''),
         (''policy_epoch'', Num 1), (''expires_at'', Str ''2030-01-01T00:00:00Z'')]),
      (''nodes'', Arr [demoNode ''a'' ''fact'', demoNode ''b'' ''decision'']),
      (''dependencies'', Arr [Obj [(''prerequisite'', Str ''a''), (''dependent'', Str ''b''),
         (''evidence_ids'', Arr [Str ''e1''])]])]"

definition demoChange :: js where
  "demoChange = Obj
     [(''id'', Str ''c1''), (''statement'', Str ''text''), (''occurred_at'', Str ''2029-01-01T00:00:00Z''),
      (''evidence_ids'', Arr [Str ''e2'']), (''target_ids'', Arr [Str ''a''])]"

text \<open>What validation returns is a well-formed graph - identifiers are unique, edges are
  unique, join two different known nodes, and every target is known - within the stated
  bounds on nodes, edges, text and consequence, whatever value was handed in.\<close>

theorem validated_input_wellformed:
  assumes "validatedInput raw changeRaw = Inr (s, c)"
  shows "wfSnapshot s \<and> withinBounds s \<and> set (target_ids c) \<subseteq> set (nodeIds s)"
  using validatedInput_facts [OF assms] by blast

lemma demo_validated:
  "\<exists>s c. validatedInput demoSnapshot demoChange = Inr (s, c) \<and> nodeIds s = [''a'', ''b'']"
proof -
  have "map_sum (\<lambda>e. ()) (\<lambda>(s, c). nodeIds s) (validatedInput demoSnapshot demoChange) =
      Inr [''a'', ''b'']"
    by code_simp
  then show ?thesis by (cases "validatedInput demoSnapshot demoChange") auto
qed

theorem validated_input_wellformed_witness:
  "\<exists>s c. validatedInput demoSnapshot demoChange = Inr (s, c) \<and> wfSnapshot s \<and> nodeIds s = [''a'', ''b'']"
  using demo_validated validated_input_wellformed [of demoSnapshot demoChange] by blast

end
