(* ===== verification/Reflex_Judgment.thy ===== *)
theory Reflex_Judgment
  imports Reflex_Input
begin

text \<open>
  \<open>packages/reflex/src/systemone.ts\<close>: reading the answer of a model as a judgment.  The
  answer is of unknown type; whatever is not exactly of the expected shape is rejected.
  The text of the questions (\<open>questionRequest\<close>) is not modelled.
\<close>

definition relations :: "string list" where
  "relations = [''contradicts'', ''supersedes'', ''supports'', ''unrelated'', ''unknown'']"

definition levels :: "string list" where
  "levels = [''0'', ''1'', ''2'', ''3'', ''4'']"

fun relationOf :: "string \<Rightarrow> Relation" where
  "relationOf s =
     (if s = ''contradicts'' then Contradicts
      else if s = ''supersedes'' then Supersedes
      else if s = ''supports'' then Supports
      else if s = ''unrelated'' then Unrelated
      else UnknownRelation)"

section \<open>Shapes\<close>

definition keys :: "js \<Rightarrow> string list \<Rightarrow> bool" where
  "keys v expected \<longleftrightarrow>
     length (entriesOf v) = length expected \<and>
     list_all (\<lambda>k. k \<in> fst ` set (entriesOf v)) expected"

fun numberOf :: "js \<Rightarrow> rat" where
  "numberOf (Num q) = q"
| "numberOf v = 0"

definition total :: "js \<Rightarrow> rat" where
  "total v = foldl (\<lambda>s e. addDouble s (numberOf (snd e))) 0 (objectEntries v)"

definition distribution :: "js \<Rightarrow> string list \<Rightarrow> bool" where
  "distribution raw expected \<longleftrightarrow>
     isObject raw \<and> keys raw expected \<and> list_all (\<lambda>e. unit (snd e)) (entriesOf raw) \<and>
     \<bar>subDouble (total raw) 1\<bar> \<le> toDouble (1 / 100)"

definition unknownJudgment :: "string \<Rightarrow> Reason \<Rightarrow> Judgment" where
  "unknownJudgment target reason =
     \<lparr>judged_target = target, judged_effect = UnknownEffect, judged_reason = reason,
      judged_relation = None, judged_confidence = None, judged_probability = None,
      judged_consequence = None\<rparr>"

definition relationAnswer :: "js \<Rightarrow> bool" where
  "relationAnswer r \<longleftrightarrow>
     isObject r \<and> get r ''type'' = Str ''choice'' \<and>
     get r ''choice'' \<in> Str ` set relations \<and> unit (get r ''confidence'') \<and>
     distribution (get r ''probabilities'') relations \<and>
     list_all (\<lambda>e. numberOf (snd e)
         \<le> addDouble (numberOf (get (get r ''probabilities'') (textOf (get r ''choice''))))
             (toDouble (1 / 1000000)))
       (objectEntries (get r ''probabilities''))"

definition noulAnswer :: "js \<Rightarrow> bool" where
  "noulAnswer a \<longleftrightarrow> isObject a \<and> get a ''type'' = Str ''noul'' \<and> unit (get a ''noul'')"

definition expectedScore :: "js \<Rightarrow> rat" where
  "expectedScore probabilities =
     foldl (\<lambda>s e. addDouble s (mulDouble (of_nat (digitsVal (fst e))) (numberOf (snd e)))) 0
       (objectEntries probabilities)"

definition scoreAnswer :: "js \<Rightarrow> bool" where
  "scoreAnswer a \<longleftrightarrow>
     isObject a \<and> get a ''type'' = Str ''score'' \<and>
     (case get a ''score'' of Num q \<Rightarrow> 0 \<le> q \<and> q \<le> 4 | _ \<Rightarrow> False) \<and>
     unit (get a ''confidence'') \<and> distribution (get a ''probabilities'') levels \<and>
     isObject (get a ''legend'') \<and> keys (get a ''legend'') levels \<and>
     list_all (\<lambda>e. case snd e of Str s \<Rightarrow> 0 < length s \<and> length s \<le> 500 | _ \<Rightarrow> False)
       (objectEntries (get a ''legend'')) \<and>
     \<bar>subDouble (expectedScore (get a ''probabilities'')) (numberOf (get a ''score''))\<bar>
       \<le> toDouble (2 / 100)"

section \<open>Reading a response\<close>

record ReadResult =
  result_judgment :: Judgment
  input_tokens :: int
  output_tokens :: int

definition rejected :: "string \<Rightarrow> ReadResult" where
  "rejected target =
     \<lparr>result_judgment = unknownJudgment target (Failed InvalidResponse),
      input_tokens = 0, output_tokens = 0\<rparr>"

definition acceptable :: "js \<Rightarrow> bool" where
  "acceptable raw \<longleftrightarrow>
     (let answers = get raw ''answers''; usage = get raw ''usage''
      in isObject raw \<and> isObject answers \<and> isObject usage \<and>
         (case get raw ''model'' of Str m \<Rightarrow> 1 \<le> length m \<and> length m \<le> 256 | _ \<Rightarrow> False) \<and>
         keys answers [''relation'', ''supported'', ''applicable'', ''counterevidence'', ''consequence''] \<and>
         integer (get usage ''input_tokens'') 0 10000000 \<and>
         integer (get usage ''output_tokens'') 0 10000000 \<and>
         relationAnswer (get answers ''relation'') \<and>
         list_all noulAnswer
           [get answers ''supported'', get answers ''applicable'', get answers ''counterevidence''] \<and>
         scoreAnswer (get answers ''consequence''))"

definition noul :: "js \<Rightarrow> string \<Rightarrow> rat" where
  "noul raw question = numberOf (get (get (get raw ''answers'') question) ''noul'')"

definition chosen :: "js \<Rightarrow> string" where
  "chosen raw = textOf (get (get (get raw ''answers'') ''relation'') ''choice'')"

definition chosenProbability :: "js \<Rightarrow> rat" where
  "chosenProbability raw =
     numberOf (get (get (get (get raw ''answers'') ''relation'') ''probabilities'') (chosen raw))"

definition chosenConfidence :: "js \<Rightarrow> rat" where
  "chosenConfidence raw = numberOf (get (get (get raw ''answers'') ''relation'') ''confidence'')"

definition relationSupported :: "js \<Rightarrow> Thresholds \<Rightarrow> bool" where
  "relationSupported raw policy \<longleftrightarrow>
     noul raw ''supported'' \<ge> numberOf (evidence_min policy) \<and>
     chosenProbability raw \<ge> numberOf (relation_probability_min policy) \<and>
     chosenConfidence raw \<ge> numberOf (relation_confidence_min policy)"

definition agrees :: "js \<Rightarrow> Thresholds \<Rightarrow> bool" where
  "agrees raw policy \<longleftrightarrow>
     relationSupported raw policy \<and>
     (if chosen raw = ''unrelated''
      then noul raw ''applicable'' \<le> subDouble 1 (numberOf (applicability_min policy))
      else noul raw ''applicable'' \<ge> numberOf (applicability_min policy) \<and>
           noul raw ''counterevidence'' \<le> numberOf (counterevidence_max policy))"

definition readJudgment :: "js \<Rightarrow> string \<Rightarrow> Thresholds \<Rightarrow> ReadResult" where
  "readJudgment raw target policy =
     (if \<not> acceptable raw then rejected target
      else
        (let usage = get raw ''usage'';
             changed = chosen raw = ''contradicts'' \<or> chosen raw = ''supersedes'';
             observed = unknownJudgment target (Failed AmbiguousEvidence)
               \<lparr>judged_relation := Some (relationOf (chosen raw)),
                judged_confidence := Some (chosenConfidence raw),
                judged_probability := Some (chosenProbability raw),
                judged_consequence :=
                  Some (numberOf (get (get (get raw ''answers'') ''consequence'') ''score''))\<rparr>;
             judgment =
               (if \<not> agrees raw policy \<or> chosen raw = ''unknown'' then observed
                else if changed
                then observed\<lparr>judged_effect := NeedsRevalidation, judged_reason := SupportedChange\<rparr>
                else observed\<lparr>judged_effect := NoChangeDetected, judged_reason := NoChangeSeen\<rparr>)
         in \<lparr>result_judgment = judgment,
             input_tokens = intOf (get usage ''input_tokens''),
             output_tokens = intOf (get usage ''output_tokens'')\<rparr>))"

section \<open>What a judgment stands on\<close>

lemma acceptable_choice:
  assumes "acceptable raw"
  shows "chosen raw \<in> set relations"
  using assms by (auto simp: acceptable_def relationAnswer_def chosen_def Let_def)

lemma keys_distinct:
  assumes "keys v expected" "distinct expected"
  shows "distinct (map fst (entriesOf v))" "fst ` set (entriesOf v) = set expected"
proof -
  have sub: "set expected \<subseteq> fst ` set (entriesOf v)"
    using assms(1) by (auto simp: keys_def list_all_iff)
  have card: "card (set expected) = length (map fst (entriesOf v))"
    using assms by (simp add: keys_def distinct_card)
  then have "card (fst ` set (entriesOf v)) \<le> card (set expected)"
    using card_length [of "map fst (entriesOf v)"] by simp
  with sub have eq: "set expected = fst ` set (entriesOf v)" by (intro card_seteq) auto
  then show "fst ` set (entriesOf v) = set expected" by simp
  show "distinct (map fst (entriesOf v))" using card eq by (intro card_distinct) simp
qed

lemma readJudgment_target [simp]:
  "judged_target (result_judgment (readJudgment raw target policy)) = target"
  by (simp add: readJudgment_def rejected_def unknownJudgment_def Let_def)

lemma effect_of_response:
  "judged_effect (result_judgment (readJudgment raw target policy)) =
    (if acceptable raw \<and> agrees raw policy \<and> chosen raw \<noteq> ''unknown''
     then if chosen raw \<in> {''contradicts'', ''supersedes''} then NeedsRevalidation else NoChangeDetected
     else UnknownEffect)"
  by (simp add: readJudgment_def rejected_def unknownJudgment_def Let_def)

text \<open>The probability of the chosen relation is, up to the tolerance, the largest.\<close>

lemma chosen_is_largest:
  assumes "acceptable raw" "r \<in> set relations"
  shows "numberOf (get (get (get (get raw ''answers'') ''relation'') ''probabilities'') r)
    \<le> addDouble (chosenProbability raw) (toDouble (1 / 1000000))"
proof -
  let ?p = "get (get (get raw ''answers'') ''relation'') ''probabilities''"
  have p: "keys ?p relations" "isObject ?p"
    and le: "\<forall>e\<in>set (entriesOf ?p). numberOf (snd e) \<le> addDouble (chosenProbability raw) (toDouble (1 / 1000000))"
    using assms(1)
    by (auto simp: acceptable_def relationAnswer_def distribution_def Let_def list_all_iff
        chosenProbability_def chosen_def)
  obtain kvs where kvs: "?p = Obj kvs" using p(2) by (cases ?p) auto
  have "r \<in> fst ` set kvs" using p(1) assms(2) by (auto simp: keys_def list_all_iff kvs)
  then obtain v where "map_of kvs r = Some v" by (metis map_of_eq_None_iff not_Some_eq)
  then have "(r, v) \<in> set kvs" "get ?p r = v" by (auto dest: map_of_SomeD simp: kvs field_def)
  then show ?thesis using le by (auto simp: kvs)
qed

section \<open>Properties\<close>

lemma validated_thresholds:
  assumes "thresholds raw = Inr policy"
  shows "1 / 2 \<le> numberOf (evidence_min policy)" "1 / 2 \<le> numberOf (applicability_min policy)"
    "1 / 2 < numberOf (relation_probability_min policy)"
    "numberOf (counterevidence_max policy) < 1 / 2"
  using assms
  by (auto simp: thresholds_def Let_def result_simps atLeast_def above_def unit_def isUnitNumber_iff)


definition demoResponse :: js where
  "demoResponse = Obj
     [(''model'', Str ''m''),
      (''usage'', Obj [(''input_tokens'', Num 10), (''output_tokens'', Num 5)]),
      (''answers'', Obj
        [(''relation'', Obj [(''type'', Str ''choice''), (''choice'', Str ''contradicts''),
            (''confidence'', Num 1),
            (''probabilities'', Obj [(''contradicts'', Num (3 / 4)), (''supersedes'', Num (1 / 4)),
              (''supports'', Num 0), (''unrelated'', Num 0), (''unknown'', Num 0)])]),
         (''supported'', Obj [(''type'', Str ''noul''), (''noul'', Num 1)]),
         (''applicable'', Obj [(''type'', Str ''noul''), (''noul'', Num 1)]),
         (''counterevidence'', Obj [(''type'', Str ''noul''), (''noul'', Num 0)]),
         (''consequence'', Obj [(''type'', Str ''score''), (''score'', Num 4), (''confidence'', Num 1),
            (''probabilities'', Obj [(''0'', Num 0), (''1'', Num 0), (''2'', Num 0), (''3'', Num 0),
              (''4'', Num 1)]),
            (''legend'', Obj [(''0'', Str ''a''), (''1'', Str ''b''), (''2'', Str ''c''),
              (''3'', Str ''d''), (''4'', Str ''e'')])])])]"

definition demoPolicy :: Thresholds where
  "demoPolicy =
     \<lparr>evidence_min = Num (3 / 4), applicability_min = Num (3 / 4),
      relation_probability_min = Num (3 / 4), relation_confidence_min = Num (1 / 2),
      counterevidence_max = Num (1 / 4)\<rparr>"

lemma demoResponse_effect:
  "judged_effect (result_judgment (readJudgment demoResponse ''n1'' demoPolicy)) = NeedsRevalidation"
  by code_simp

lemma demoPolicy_ok:
  "thresholds [(''evidence_min'', Num (3 / 4)), (''applicability_min'', Num (3 / 4)),
     (''relation_probability_min'', Num (3 / 4)), (''counterevidence_max'', Num (1 / 4))] = Inr demoPolicy"
  by code_simp


end
