(* ===== verification/Reflex_Graph.thy ===== *)
theory Reflex_Graph
  imports Reflex_Input "HOL-Library.Product_Lexorder"
begin

text \<open>
  \<open>packages/reflex/src/graph.ts\<close>: what a change reaches in the dependency graph of a
  snapshot, the shortest route to each node, and the advice an external plan is given.

  The maps of the class are association lists in insertion order (their keys are distinct
  in a validated snapshot).  The queue of the traversal is the list of the keys of the map
  of found nodes, because the code pushes a node exactly when it enters it there; a state
  of the loop is that map and the queue index.
\<close>

section \<open>Traversal\<close>

datatype Route = Route (routeVia: "string option") (routeDistance: nat)

type_synonym found = "(string \<times> Route) list"

text \<open>\<open>this.next.get(current) ?? []\<close>, sorted.\<close>

definition adjacentTo :: "Dependency list \<Rightarrow> string \<Rightarrow> string list" where
  "adjacentTo deps current = sort (map dependent (filter (\<lambda>e. prerequisite e = current) deps))"

definition distanceIn :: "found \<Rightarrow> string \<Rightarrow> nat" where
  "distanceIn found n = (case map_of found n of None \<Rightarrow> 0 | Some r \<Rightarrow> routeDistance r)"

fun discover :: "string \<Rightarrow> string list \<Rightarrow> found \<Rightarrow> found" where
  "discover current [] found = found"
| "discover current (n # rest) found =
     (if n \<in> fst ` set found then discover current rest found
      else discover current rest
             (found @ [(n, Route (Some current) (distanceIn found current + 1))]))"

lemma discover_extends: "\<exists>extra. discover current ns found = found @ extra"
proof (induction current ns found rule: discover.induct)
  case (2 current n rest found)
  show ?case
  proof (cases "n \<in> fst ` set found")
    case True
    then show ?thesis using 2(1) by simp
  next
    case False
    then obtain extra where "discover current rest
        (found @ [(n, Route (Some current) (distanceIn found current + 1))]) =
        (found @ [(n, Route (Some current) (distanceIn found current + 1))]) @ extra"
      using 2(2) by blast
    then show ?thesis using False by simp
  qed
qed simp

lemma discover_keys: "fst ` set (discover current ns found) = fst ` set found \<union> set ns"
  by (induction current ns found rule: discover.induct) auto

lemma discover_distinct: "distinct (map fst found) \<Longrightarrow> distinct (map fst (discover current ns found))"
  by (induction current ns found rule: discover.induct) (auto simp: image_iff)

lemma discover_length:
  assumes "finite U" "set ns \<subseteq> U"
  shows "card (U - fst ` set (discover current ns found)) + length (discover current ns found) =
    card (U - fst ` set found) + length found"
  using assms
proof (induction current ns found rule: discover.induct)
  case (2 current n rest found)
  show ?case
  proof (cases "n \<in> fst ` set found")
    case False
    let ?r = "Route (Some current) (distanceIn found current + 1)"
    have "U - fst ` set (found @ [(n, ?r)]) = (U - fst ` set found) - {n}" by auto
    moreover have "n \<in> U - fst ` set found" using False 2 by simp
    ultimately have "card (U - fst ` set (found @ [(n, ?r)])) + 1 = card (U - fst ` set found)"
      using 2(3) card_Suc_Diff1 [of "U - fst ` set found" n] by simp
    moreover have "card (U - fst ` set (discover current rest (found @ [(n, ?r)]))) +
        length (discover current rest (found @ [(n, ?r)])) =
      card (U - fst ` set (found @ [(n, ?r)])) + length (found @ [(n, ?r)])"
      using 2(2) [OF False 2(3)] 2(4) by simp
    ultimately show ?thesis using False by simp
  qed (use 2 in auto)
qed simp

function walk :: "Dependency list \<Rightarrow> found \<Rightarrow> nat \<Rightarrow> found" where
  "walk deps found index =
     (if index < length found
      then walk deps
             (discover (fst (found ! index)) (adjacentTo deps (fst (found ! index))) found)
             (index + 1)
      else found)"
  by pat_completeness auto
termination
proof (relation "measure (\<lambda>(deps, found, index).
    card (set (map dependent deps) - fst ` set found) + (length found - index))")
  fix deps :: "Dependency list" and found :: found and index :: nat
  assume index: "index < length found"
  let ?U = "set (map dependent deps)" and ?current = "fst (found ! index)"
  let ?found = "discover ?current (adjacentTo deps ?current) found"
  have "set (adjacentTo deps ?current) \<subseteq> ?U" by (auto simp: adjacentTo_def)
  then have "card (?U - fst ` set ?found) + length ?found = card (?U - fst ` set found) + length found"
    by (intro discover_length) auto
  moreover have "length found \<le> length ?found"
    using discover_extends [of ?current "adjacentTo deps ?current" found] by auto
  ultimately show "((deps, ?found, index + 1), (deps, found, index))
      \<in> measure (\<lambda>(deps, found, index).
        card (set (map dependent deps) - fst ` set found) + (length found - index))"
    using index by simp
qed auto

declare walk.simps [simp del]

definition hasNode :: "Snapshot \<Rightarrow> string \<Rightarrow> bool" where
  "hasNode s n \<longleftrightarrow> n \<in> set (nodeIds s)"

definition reach :: "Snapshot \<Rightarrow> string \<Rightarrow> Failure + found" where
  "reach s start =
     (if \<not> hasNode s start then Inl InvalidInput
      else Inr (walk (dependencies s) [(start, Route None 0)] 0))"

section \<open>Breadth first\<close>

definition edges :: "Dependency list \<Rightarrow> (string \<times> string) set" where
  "edges deps = {(prerequisite e, dependent e) | e. e \<in> set deps}"

lemma adjacentTo_edges [simp]: "set (adjacentTo deps a) = {b. (a, b) \<in> edges deps}"
  by (auto simp: adjacentTo_def edges_def)

text \<open>What the loop keeps.  The found nodes are in order of distance, which spreads by at
  most one beyond the node being processed; every node but the first was found from an
  earlier one, one step closer; and the successors of every processed node are found, at
  most one step further.\<close>

definition bfsInv :: "Dependency list \<Rightarrow> string \<Rightarrow> found \<Rightarrow> nat \<Rightarrow> bool" where
  "bfsInv deps start found index \<longleftrightarrow>
     distinct (map fst found) \<and> found \<noteq> [] \<and> found ! 0 = (start, Route None 0) \<and>
     index \<le> length found \<and>
     sorted (map (routeDistance \<circ> snd) found) \<and>
     (index < length found \<longrightarrow>
        (\<forall>x\<in>set found. routeDistance (snd x) \<le> routeDistance (snd (found ! index)) + 1)) \<and>
     (\<forall>k<length found. 0 < k \<longrightarrow>
        (\<exists>j<k. j < index \<and> routeVia (snd (found ! k)) = Some (fst (found ! j)) \<and>
          (fst (found ! j), fst (found ! k)) \<in> edges deps \<and>
          routeDistance (snd (found ! k)) = routeDistance (snd (found ! j)) + 1)) \<and>
     (\<forall>j<index. \<forall>b. (fst (found ! j), b) \<in> edges deps \<longrightarrow>
        (\<exists>r. (b, r) \<in> set found \<and> routeDistance r \<le> routeDistance (snd (found ! j)) + 1))"

lemma discover_shape:
  assumes "map_of found current = Some r"
  shows "\<exists>news. discover current ns found =
      found @ map (\<lambda>n. (n, Route (Some current) (routeDistance r + 1))) news \<and>
    set news = set ns - fst ` set found"
  using assms
proof (induction current ns found rule: discover.induct)
  case (2 current n rest found)
  show ?case
  proof (cases "n \<in> fst ` set found")
    case True
    with 2 show ?thesis by auto
  next
    case False
    let ?new = "(n, Route (Some current) (routeDistance r + 1))"
    have d: "distanceIn found current = routeDistance r" using 2(3) by (simp add: distanceIn_def)
    have "map_of (found @ [?new]) current = Some r" using 2(3) by (simp add: map_add_def)
    then obtain news where "discover current rest (found @ [?new]) =
        (found @ [?new]) @ map (\<lambda>n. (n, Route (Some current) (routeDistance r + 1))) news"
        "set news = set rest - fst ` set (found @ [?new])"
      using 2(2) [OF False] by (auto simp: d)
    then show ?thesis using False by (intro exI [of _ "n # news"]) (auto simp: d)
  qed
qed simp

lemma bfsInv_start: "bfsInv deps start [(start, Route None 0)] 0"
  by (simp add: bfsInv_def)

lemma bfsInv_step:
  assumes inv: "bfsInv deps start found i" and i: "i < length found"
    and current: "current = fst (found ! i)"
  shows "bfsInv deps start (discover current (adjacentTo deps current) found) (i + 1)"
proof -
  obtain d where d: "routeDistance (snd (found ! i)) = d" by blast
  note I = inv[unfolded bfsInv_def]
  have "map_of found current = Some (snd (found ! i))"
    using I i by (simp add: current map_of_is_SomeI)
  then obtain news where "discover current (adjacentTo deps current) found =
      found @ map (\<lambda>n. (n, Route (Some current) (d + 1))) news"
      "set news = {b. (current, b) \<in> edges deps} - fst ` set found"
    using discover_shape [of found current "snd (found ! i)" "adjacentTo deps current"]
    by (auto simp: d)
  then obtain new where shape: "discover current (adjacentTo deps current) found = found @ new"
    and new: "\<forall>x\<in>set new. snd x = Route (Some current) (d + 1) \<and> (current, fst x) \<in> edges deps"
    and all: "{b. (current, b) \<in> edges deps} \<subseteq> fst ` set found \<union> fst ` set new"
    by (auto simp: image_image)
  have spread: "\<forall>x\<in>set found. routeDistance (snd x) \<le> d + 1" using I i by (simp add: d)
  have sorted: "sorted (map (routeDistance \<circ> snd) (found @ new))"
  proof -
    have "map (routeDistance \<circ> snd) new = map (\<lambda>x. d + 1) new" using new by simp
    then have "sorted (map (routeDistance \<circ> snd) new)" by (simp only: map_replicate_const sorted_replicate)
    then show ?thesis using I spread new by (auto simp: sorted_append)
  qed
  have at: "(found @ new) ! j = found ! j" if "j < length found" for j
    using that by (simp add: nth_append)
  have later: "(found @ new) ! j \<in> set new" if "\<not> j < length found" "j < length (found @ new)" for j
    using that by (simp add: nth_append)
  have bound: "routeDistance (snd x) \<le> d + 1" if "x \<in> set (found @ new)" for x
    using that spread new by auto
  have next_far: "d \<le> routeDistance (snd ((found @ new) ! (i + 1)))" if "i + 1 < length (found @ new)"
  proof -
    have "map (routeDistance \<circ> snd) (found @ new) ! i \<le> map (routeDistance \<circ> snd) (found @ new) ! (i + 1)"
      using that by (intro sorted_nth_mono [OF sorted]) simp_all
    moreover have "map (routeDistance \<circ> snd) (found @ new) ! j = routeDistance (snd ((found @ new) ! j))"
      if "j < length (found @ new)" for j
      using that by (subst nth_map) (simp_all only: comp_apply)
    ultimately show ?thesis using that at [OF i] by (simp only: d)
  qed
  have parents: "\<exists>j<k. j < i + 1 \<and> routeVia (snd ((found @ new) ! k)) = Some (fst ((found @ new) ! j)) \<and>
      (fst ((found @ new) ! j), fst ((found @ new) ! k)) \<in> edges deps \<and>
      routeDistance (snd ((found @ new) ! k)) = routeDistance (snd ((found @ new) ! j)) + 1"
    if k: "k < length (found @ new)" "0 < k" for k
  proof (cases "k < length found")
    case True
    then obtain j where "j < k" "j < i" "routeVia (snd (found ! k)) = Some (fst (found ! j))"
        "(fst (found ! j), fst (found ! k)) \<in> edges deps"
        "routeDistance (snd (found ! k)) = routeDistance (snd (found ! j)) + 1"
      using I k(2) by blast
    then show ?thesis using True by (intro exI [of _ j]) (simp add: at)
  next
    case False
    have "snd ((found @ new) ! k) = Route (Some current) (d + 1)"
        "(current, fst ((found @ new) ! k)) \<in> edges deps"
      using new later [OF False k(1)] by blast+
    then show ?thesis using False i by (intro exI [of _ i]) (simp add: at [OF i] current [symmetric] d)
  qed
  have successors: "\<exists>r. (b, r) \<in> set (found @ new) \<and>
      routeDistance r \<le> routeDistance (snd ((found @ new) ! j)) + 1"
    if j: "j < i + 1" and e: "(fst ((found @ new) ! j), b) \<in> edges deps" for j b
  proof (cases "j = i")
    case False
    then have ji: "j < i" "j < length found" using j i by simp_all
    then have "(fst (found ! j), b) \<in> edges deps" using e by (simp add: at)
    then obtain r where "(b, r) \<in> set found" "routeDistance r \<le> routeDistance (snd (found ! j)) + 1"
      using I ji(1) by blast
    then show ?thesis using at [OF ji(2)] by auto
  next
    case True
    then have "(current, b) \<in> edges deps" using e i by (simp add: at current)
    then have "b \<in> fst ` set (found @ new)" using all by auto
    then obtain r where r: "(b, r) \<in> set (found @ new)" by force
    then show ?thesis using bound [OF r] True by (intro exI [of _ r]) (simp add: at [OF i] d)
  qed
  have "distinct (map fst (found @ new))"
    using I discover_distinct [of found current "adjacentTo deps current"] by (simp only: shape)
  moreover have "i + 1 < length (found @ new) \<longrightarrow> (\<forall>x\<in>set (found @ new).
      routeDistance (snd x) \<le> routeDistance (snd ((found @ new) ! (i + 1))) + 1)"
    using next_far bound by fastforce
  moreover have "found @ new \<noteq> []" "(found @ new) ! 0 = (start, Route None 0)" "i + 1 \<le> length (found @ new)"
    using I i by (auto simp: at)
  ultimately show ?thesis unfolding shape bfsInv_def using sorted parents successors by blast
qed

lemma bfsInv_walk: "bfsInv deps start found i \<Longrightarrow> bfsInv deps start (walk deps found i) (length (walk deps found i))"
proof (induction deps found i rule: walk.induct)
  case (1 deps found index)
  show ?case
  proof (cases "index < length found")
    case True
    then show ?thesis using 1 bfsInv_step by (simp add: walk.simps [of deps found index])
  next
    case False
    moreover have "index \<le> length found" using 1(2) by (simp add: bfsInv_def)
    moreover from False have "walk deps found index = found" by (simp add: walk.simps [of deps found index])
    ultimately show ?thesis using 1(2) by simp
  qed
qed

abbreviation reached :: "Dependency list \<Rightarrow> string \<Rightarrow> found" where
  "reached deps start \<equiv> walk deps [(start, Route None 0)] 0"

lemmas reached_inv = bfsInv_walk [OF bfsInv_start]

lemma reached_sound:
  assumes "k < length (reached deps start)"
  shows "(start, fst (reached deps start ! k)) \<in> edges deps ^^ routeDistance (snd (reached deps start ! k))"
  using assms
proof (induction k rule: less_induct)
  case (less k)
  note I = reached_inv [of deps start, unfolded bfsInv_def]
  show ?case
  proof (cases "k = 0")
    case True
    then show ?thesis using I by simp
  next
    case False
    then obtain j where j: "j < k"
        "(fst (reached deps start ! j), fst (reached deps start ! k)) \<in> edges deps"
        "routeDistance (snd (reached deps start ! k)) = routeDistance (snd (reached deps start ! j)) + 1"
      using I less.prems by blast
    have "(start, fst (reached deps start ! j)) \<in> edges deps ^^ routeDistance (snd (reached deps start ! j))"
      using less j(1) by simp
    then show ?thesis using j(2,3) by auto
  qed
qed

lemma reached_complete:
  assumes "(start, n) \<in> edges deps ^^ k"
  shows "\<exists>r. (n, r) \<in> set (reached deps start) \<and> routeDistance r \<le> k"
  using assms
proof (induction k arbitrary: n)
  case 0
  note I = reached_inv [of deps start, unfolded bfsInv_def]
  have "(start, Route None 0) \<in> set (reached deps start)"
    using I nth_mem [of 0 "reached deps start"] by simp
  then show ?case using 0 by (intro exI [of _ "Route None 0"]) simp
next
  case (Suc k)
  note I = reached_inv [of deps start, unfolded bfsInv_def]
  from Suc.prems obtain m where "(start, m) \<in> edges deps ^^ k" and e: "(m, n) \<in> edges deps" by auto
  then obtain r where r: "(m, r) \<in> set (reached deps start)" "routeDistance r \<le> k"
    using Suc.IH by blast
  then obtain j where j: "j < length (reached deps start)" "reached deps start ! j = (m, r)"
    by (auto simp: in_set_conv_nth)
  then obtain r' where "(n, r') \<in> set (reached deps start)" "routeDistance r' \<le> routeDistance r + 1"
  proof -
    have "\<forall>b. (fst (reached deps start ! j), b) \<in> edges deps \<longrightarrow> (\<exists>r'. (b, r') \<in> set (reached deps start) \<and>
        routeDistance r' \<le> routeDistance (snd (reached deps start ! j)) + 1)"
      using I j(1) by blast
    then show thesis using that e by (auto simp: j(2))
  qed
  then show ?case using r(2) by (intro exI [of _ r']) auto
qed

text \<open>The distance of a found node is that of its shortest path.\<close>

lemma reached_distance:
  assumes "(n, r) \<in> set (reached deps start)"
  shows "(start, n) \<in> edges deps ^^ routeDistance r"
    and "(start, n) \<in> edges deps ^^ k \<Longrightarrow> routeDistance r \<le> k"
proof -
  obtain j where "j < length (reached deps start)" "reached deps start ! j = (n, r)"
    using assms by (auto simp: in_set_conv_nth)
  then show "(start, n) \<in> edges deps ^^ routeDistance r"
    using reached_sound [of j deps start] by simp
  have "distinct (map fst (reached deps start))"
    using reached_inv [of deps start] by (simp add: bfsInv_def)
  then show "routeDistance r \<le> k" if "(start, n) \<in> edges deps ^^ k"
    using reached_complete [OF that] assms by (metis eq_key_imp_eq_value)
qed

lemma reached_iff: "n \<in> fst ` set (reached deps start) \<longleftrightarrow> (start, n) \<in> (edges deps)\<^sup>*"
proof
  assume "n \<in> fst ` set (reached deps start)"
  then obtain r where "(n, r) \<in> set (reached deps start)" by auto
  from reached_distance(1) [OF this] show "(start, n) \<in> (edges deps)\<^sup>*" by (rule relpow_imp_rtrancl)
next
  assume "(start, n) \<in> (edges deps)\<^sup>*"
  then obtain k where "(start, n) \<in> edges deps ^^ k" by (auto dest: rtrancl_imp_relpow)
  from reached_complete [OF this] show "n \<in> fst ` set (reached deps start)" by force
qed

text \<open>C25: from a node of the snapshot the traversal finds exactly the nodes a path of
  dependencies leads to, each once and with the length of a shortest such path; it fails
  only for an unknown node.  Being a function, it returns on cyclic graphs as well.\<close>

theorem reach_exact:
  "case reach s start of
     Inl e \<Rightarrow> \<not> hasNode s start \<and> e = InvalidInput
   | Inr found \<Rightarrow> hasNode s start \<and> distinct (map fst found) \<and>
       fst ` set found = {n. (start, n) \<in> (edges (dependencies s))\<^sup>*} \<and>
       list_all (\<lambda>(n, r). routeDistance r = (LEAST k. (start, n) \<in> edges (dependencies s) ^^ k)) found"
proof (cases "hasNode s start")
  case True
  have "routeDistance r = (LEAST k. (start, n) \<in> edges (dependencies s) ^^ k)"
    if "(n, r) \<in> set (reached (dependencies s) start)" for n r
    using reached_distance [OF that] by (metis Least_equality)
  moreover have "distinct (map fst (reached (dependencies s) start))"
    using reached_inv [of "dependencies s" start] by (simp add: bfsInv_def)
  moreover have "fst ` set (reached (dependencies s) start) = {n. (start, n) \<in> (edges (dependencies s))\<^sup>*}"
    using reached_iff by blast
  ultimately show ?thesis using True by (simp add: reach_def list_all_iff split_beta)
qed (simp add: reach_def)

end
