(* ===== verification/Reflex_Impact.thy ===== *)
theory Reflex_Impact
  imports Reflex_Graph
begin

text \<open>
  \<open>packages/reflex/src/graph.ts\<close> and \<open>packages/reflex/src/simulate.ts\<close>: the nodes a set of
  judgments affects, the route that explains an impact, and the advice an external plan is
  given.

  The graph is built from a validated snapshot, so every identifier a traversal finds names
  a node.
\<close>

section \<open>Impacts\<close>

text \<open>A later entry of a JavaScript map replaces an earlier one of the same key.\<close>

definition lastOf :: "('k \<times> 'v) list \<Rightarrow> 'k \<Rightarrow> 'v option" where
  "lastOf kvs k = map_of (rev kvs) k"

definition nodeAt :: "Snapshot \<Rightarrow> string \<Rightarrow> MemoryNode option" where
  "nodeAt s n = lastOf (map (\<lambda>node. (node_id node, node)) (nodes s)) n"

type_synonym impacted = "(string \<times> Effect \<times> ImpactReason list) list"

definition reasonFor :: "Judgment \<Rightarrow> Route \<Rightarrow> ImpactReason" where
  "reasonFor j route =
     \<lparr>reason_target = judged_target j, reason_effect = judged_effect j,
      reason_via = routeVia route, reason_distance = routeDistance route\<rparr>"

definition touchedItem :: "Judgment \<Rightarrow> Route \<Rightarrow> Effect \<times> ImpactReason list \<Rightarrow> Effect \<times> ImpactReason list" where
  "touchedItem j route item =
     (if judged_effect j = NeedsRevalidation then judged_effect j else fst item,
      snd item @ [reasonFor j route])"

fun touch :: "Judgment \<Rightarrow> impacted \<Rightarrow> string \<times> Route \<Rightarrow> impacted" where
  "touch j acc (n, route) =
     (if n \<in> fst ` set acc
      then map (\<lambda>(k, item). if k = n then (k, touchedItem j route item) else (k, item)) acc
      else acc @ [(n, touchedItem j route (judged_effect j, []))])"

definition judge :: "Snapshot \<Rightarrow> impacted \<Rightarrow> Judgment \<Rightarrow> Failure + impacted" where
  "judge s acc j =
     (if judged_effect j = NoChangeDetected then Inr acc
      else andThen (reach s (judged_target j)) (\<lambda>found. Inr (foldl (touch j) acc found)))"

fun impactOf :: "Snapshot \<Rightarrow> string \<times> Effect \<times> ImpactReason list \<Rightarrow> Impact" where
  "impactOf s (n, effect, reasons) =
     (let node = the (nodeAt s n)
      in \<lparr>impact_node = node_id node, impact_kind = node_kind node,
          impact_revision = revision node, impact_effect = effect,
          impact_consequence = consequence node,
          impact_reasons = sort_key reason_target reasons\<rparr>)"

definition impacts :: "Snapshot \<Rightarrow> Judgment list \<Rightarrow> Failure + Impact list" where
  "impacts s js =
     andThen (foldM (judge s) [] js) (\<lambda>acc.
       Inr (sort_key (\<lambda>i. (- impact_consequence i, impact_node i)) (map (impactOf s) acc)))"

lemma touch_keys: "fst ` set (touch j acc e) = insert (fst e) (fst ` set acc)"
  by (cases e) (force simp: image_iff split: if_splits)

lemma touch_distinct: "distinct (map fst acc) \<Longrightarrow> distinct (map fst (touch j acc e))"
proof (cases e)
  case (Pair n route)
  have "map fst (map (\<lambda>(k, item). if k = n then (k, touchedItem j route item) else (k, item)) acc) =
      map fst acc"
    by (induction acc) auto
  then show "distinct (map fst acc) \<Longrightarrow> ?thesis"
    by (auto simp: Pair image_iff simp del: map_map)
qed

lemma map_of_replace:
  "map_of (map (\<lambda>(k, item). if k = n then (k, f item) else (k, item)) acc) m =
    (if m = n then map_option f (map_of acc m) else map_of acc m)"
  by (induction acc) auto

lemma touch_lookup:
  "map_of (touch j acc (n, route)) m =
    (if m = n
     then Some (touchedItem j route
       (case map_of acc n of None \<Rightarrow> (judged_effect j, []) | Some item \<Rightarrow> item))
     else map_of acc m)"
proof (cases "n \<in> fst ` set acc")
  case True
  then obtain item where "map_of acc n = Some item" by (metis map_of_eq_None_iff not_Some_eq)
  then show ?thesis using True by (simp add: map_of_replace)
next
  case False
  then have "map_of acc n = None" by (simp add: map_of_eq_None_iff)
  then show ?thesis using False by (auto simp: map_add_def split: option.splits)
qed

lemma touch_all:
  assumes "distinct (map fst found)" "distinct (map fst acc)"
  shows "distinct (map fst (foldl (touch j) acc found)) \<and>
    (\<forall>m. map_of (foldl (touch j) acc found) m =
      (case map_of found m of
         None \<Rightarrow> map_of acc m
       | Some route \<Rightarrow> Some (touchedItem j route
           (case map_of acc m of None \<Rightarrow> (judged_effect j, []) | Some item \<Rightarrow> item))))"
  using assms
proof (induction found arbitrary: acc)
  case (Cons e found)
  obtain n route where e: "e = (n, route)" by (cases e)
  have n: "map_of found n = None" using Cons.prems(1) by (simp add: e map_of_eq_None_iff)
  have "distinct (map fst (touch j acc e))" using Cons.prems(2) by (rule touch_distinct)
  then show ?case using Cons.IH [of "touch j acc e"] Cons.prems(1) n
    by (auto simp: e touch_lookup simp del: touch.simps split: option.splits)
qed simp

text \<open>What the impact of one node should be: the judgments that are not clean and reach it,
  in order, each with the node's shortest route from the judged target.\<close>

definition affecting :: "Snapshot \<Rightarrow> string \<Rightarrow> Judgment list \<Rightarrow> Judgment list" where
  "affecting s n js =
     filter (\<lambda>j. judged_effect j \<noteq> NoChangeDetected \<and>
       n \<in> fst ` set (reached (dependencies s) (judged_target j))) js"

definition routeTo :: "Snapshot \<Rightarrow> string \<Rightarrow> string \<Rightarrow> Route" where
  "routeTo s start n = the (map_of (reached (dependencies s) start) n)"

definition expectedItem :: "Snapshot \<Rightarrow> string \<Rightarrow> Judgment list \<Rightarrow> Effect \<times> ImpactReason list" where
  "expectedItem s n js =
     (if \<exists>j\<in>set (affecting s n js). judged_effect j = NeedsRevalidation
      then NeedsRevalidation else UnknownEffect,
      map (\<lambda>j. reasonFor j (routeTo s (judged_target j) n)) (affecting s n js))"

definition expectedImpact :: "Snapshot \<Rightarrow> Judgment list \<Rightarrow> string \<Rightarrow> Impact" where
  "expectedImpact s js n = impactOf s (n, expectedItem s n js)"

lemma reached_distinct [simp]: "distinct (map fst (reached deps start))"
  using reached_inv [of deps start] by (simp add: bfsInv_def)

lemma judge_item:
  assumes "judge s acc j = Inr acc'" "distinct (map fst acc)"
    and "\<forall>n. map_of acc n = (if affecting s n done = [] then None else Some (expectedItem s n done))"
  shows "distinct (map fst acc') \<and>
    (\<forall>n. map_of acc' n =
      (if affecting s n (done @ [j]) = [] then None else Some (expectedItem s n (done @ [j]))))"
proof (cases "judged_effect j = NoChangeDetected")
  case True
  then show ?thesis using assms by (auto simp: judge_def affecting_def expectedItem_def)
next
  case False
  let ?found = "reached (dependencies s) (judged_target j)"
  have acc': "acc' = foldl (touch j) acc ?found"
    using assms(1) False by (auto simp: judge_def reach_def result_simps split: if_splits)
  have step: "affecting s n (done @ [j]) =
      (if map_of ?found n = None then affecting s n done else affecting s n done @ [j])" for n
    using False by (auto simp: affecting_def map_of_eq_None_iff)
  have eff: "judged_effect j = NeedsRevalidation \<or> judged_effect j = UnknownEffect"
    using False by (cases "judged_effect j") auto
  have "map_of acc' n =
      (if affecting s n (done @ [j]) = [] then None else Some (expectedItem s n (done @ [j])))" for n
  proof (cases "map_of ?found n")
    case None
    then show ?thesis
      using touch_all [OF reached_distinct assms(2)] assms(3) by (simp add: acc' step expectedItem_def)
  next
    case (Some route)
    then have "map_of acc' n = Some (touchedItem j route
        (case map_of acc n of None \<Rightarrow> (judged_effect j, []) | Some item \<Rightarrow> item))"
      using touch_all [OF reached_distinct assms(2)] by (simp add: acc')
    moreover have "routeTo s (judged_target j) n = route" using Some by (simp add: routeTo_def)
    ultimately show ?thesis
      using Some eff assms(3) by (auto simp: step expectedItem_def touchedItem_def)
  qed
  moreover have "distinct (map fst acc')"
    using touch_all [OF reached_distinct assms(2)] by (simp add: acc')
  ultimately show ?thesis by blast
qed

lemma judge_all:
  assumes "foldM (judge s) acc js = Inr acc'" "distinct (map fst acc)"
    and "\<forall>n. map_of acc n = (if affecting s n done = [] then None else Some (expectedItem s n done))"
  shows "distinct (map fst acc') \<and>
    (\<forall>n. map_of acc' n =
      (if affecting s n (done @ js) = [] then None else Some (expectedItem s n (done @ js))))"
  using assms
proof (induction js arbitrary: acc "done")
  case (Cons j js)
  from Cons.prems(1) obtain acc1 where one: "judge s acc j = Inr acc1"
      and rest: "foldM (judge s) acc1 js = Inr acc'"
    by (auto simp: result_simps)
  from judge_item [OF one Cons.prems(2,3)] have "distinct (map fst acc1)"
      "\<forall>n. map_of acc1 n = (if affecting s n (done @ [j]) = [] then None else Some (expectedItem s n (done @ [j])))"
    by blast+
  from Cons.IH [OF rest this] show ?case by simp
qed simp

lemma judge_succeeds:
  assumes "list_all (\<lambda>j. hasNode s (judged_target j)) js"
  shows "\<exists>acc'. foldM (judge s) acc js = Inr acc'"
  using assms by (induction js arbitrary: acc) (auto simp: judge_def reach_def)

section \<open>Nodes of a well-formed snapshot\<close>

lemma nodeAt_known:
  assumes "n \<in> set (nodeIds s)"
  shows "\<exists>node. nodeAt s n = Some node \<and> node \<in> set (nodes s) \<and> node_id node = n"
proof -
  have "n \<in> fst ` set (map (\<lambda>node. (node_id node, node)) (rev (nodes s)))"
    using assms by (force simp: nodeIds_def)
  then obtain node where "map_of (map (\<lambda>node. (node_id node, node)) (rev (nodes s))) n = Some node"
    by (metis map_of_eq_None_iff not_Some_eq)
  then show ?thesis by (auto simp: nodeAt_def lastOf_def rev_map dest: map_of_SomeD)
qed

lemma reached_known:
  assumes "wfSnapshot s" "hasNode s start" "(start, n) \<in> (edges (dependencies s))\<^sup>*"
  shows "n \<in> set (nodeIds s)"
  using assms(3)
proof (induction rule: rtrancl_induct)
  case base
  show ?case using assms(2) by (simp add: hasNode_def)
next
  case (step a b)
  from step(2) obtain e where "e \<in> set (dependencies s)" "b = dependent e" by (auto simp: edges_def)
  then show ?case using assms(1) by (auto simp: wfSnapshot_def edgePairs_def)
qed

lemma impactOf_node:
  assumes "n \<in> set (nodeIds s)"
  shows "impact_node (impactOf s (n, item)) = n"
  using nodeAt_known [OF assms] by (cases item) (auto simp: Let_def)

lemma impacts_exact:
  assumes "wfSnapshot s" "list_all (\<lambda>j. hasNode s (judged_target j)) js"
  shows "\<exists>out. impacts s js = Inr out \<and>
    set out = expectedImpact s js ` {n. \<exists>j\<in>set js. judged_effect j \<noteq> NoChangeDetected \<and>
      (judged_target j, n) \<in> (edges (dependencies s))\<^sup>*} \<and>
    distinct (map impact_node out) \<and>
    sorted (map (\<lambda>i. (- impact_consequence i, impact_node i)) out)"
proof -
  obtain acc where acc: "foldM (judge s) [] js = Inr acc" using judge_succeeds [OF assms(2)] by blast
  have d: "distinct (map fst acc)"
    and look: "map_of acc n = (if affecting s n js = [] then None else Some (expectedItem s n js))" for n
    using judge_all [OF acc, of "[]"] by (simp_all add: affecting_def)
  let ?N = "{n. \<exists>j\<in>set js. judged_effect j \<noteq> NoChangeDetected \<and>
      (judged_target j, n) \<in> (edges (dependencies s))\<^sup>*}"
  have aff: "affecting s n js \<noteq> [] \<longleftrightarrow> n \<in> ?N" for n
    by (auto simp: affecting_def filter_empty_conv reached_iff)
  have known: "n \<in> set (nodeIds s)" if "n \<in> ?N" for n
    using that assms reached_known by (auto simp: list_all_iff)
  have keys: "(n, item) \<in> set acc \<longleftrightarrow> n \<in> ?N \<and> item = expectedItem s n js" for n item
  proof -
    have "(n, item) \<in> set acc \<longleftrightarrow> map_of acc n = Some item" using d by (rule map_of_eq_Some_iff [symmetric])
    also have "\<dots> \<longleftrightarrow> affecting s n js \<noteq> [] \<and> item = expectedItem s n js" unfolding look by auto
    also have "\<dots> \<longleftrightarrow> n \<in> ?N \<and> item = expectedItem s n js" unfolding aff by (rule refl)
    finally show ?thesis .
  qed
  have "set acc = (\<lambda>n. (n, expectedItem s n js)) ` ?N"
    using keys by (auto simp only: image_iff split_paired_all Bex_def)
  then have "set (map (impactOf s) acc) = expectedImpact s js ` ?N"
    by (simp only: set_map image_image expectedImpact_def cong: image_cong)
  moreover have "map impact_node (map (impactOf s) acc) = map fst acc"
    using keys known by (auto simp: impactOf_node simp del: impactOf.simps)
  moreover obtain out where "out = sort_key (\<lambda>i. (- impact_consequence i, impact_node i)) (map (impactOf s) acc)"
    by blast
  moreover have "set out = set (map (impactOf s) acc)" "mset out = mset (map (impactOf s) acc)"
      "sorted (map (\<lambda>i. (- impact_consequence i, impact_node i)) out)" "impacts s js = Inr out"
    using \<open>out = _\<close> by (simp_all only: set_sort mset_sort sorted_sort_key impacts_def acc andThen.simps)
  moreover have "distinct (map impact_node out)"
    using \<open>mset out = _\<close> d \<open>map impact_node (map (impactOf s) acc) = map fst acc\<close>
    by (metis mset_eq_imp_distinct_iff mset_map)
  ultimately show ?thesis by metis
qed

section \<open>Routes\<close>

text \<open>The loop that follows the predecessors from the target back to the root.\<close>

partial_function (option) viaChain :: "found \<Rightarrow> string option \<Rightarrow> string list option" where
  "viaChain routes cursor =
     (case cursor of
        None \<Rightarrow> Some []
      | Some c \<Rightarrow>
          Option.bind (viaChain routes (routeVia (the (map_of routes c)))) (\<lambda>rest. Some (c # rest)))"

declare viaChain.simps [code]

definition evidenceOf :: "Snapshot \<Rightarrow> Change \<Rightarrow> string list \<Rightarrow> string list" where
  "evidenceOf s change path =
     sort (remdups (change_evidence change @
       concat (map (\<lambda>n. evidence_ids (the (nodeAt s n))) path) @
       concat (map (\<lambda>key. case lastOf (map (\<lambda>e. ((prerequisite e, dependent e), edge_evidence e))
                              (dependencies s)) key of
                           None \<Rightarrow> [] | Some ids \<Rightarrow> ids)
         (zip path (tl path)))))"

definition trace :: "Snapshot \<Rightarrow> string \<Rightarrow> string \<Rightarrow> Change \<Rightarrow> js \<Rightarrow> (Failure + Trace) option" where
  "trace s start target change maxNodes =
     (if \<not> integer maxNodes 1 2000 then Some (Inl InvalidInput)
      else
        (case reach s start of
           Inl e \<Rightarrow> Some (Inl e)
         | Inr routes \<Rightarrow>
             if target \<notin> fst ` set routes
             then Some (Inr \<lparr>trace_nodes = [], trace_evidence = [], truncated = False\<rparr>)
             else
               Option.bind (viaChain routes (Some target)) (\<lambda>reverse.
                 let path = rev reverse; limit = nat (intOf maxNodes)
                 in Some (Inr \<lparr>trace_nodes = take limit path,
                               trace_evidence = evidenceOf s change path,
                               truncated = length path > limit\<rparr>))))"

definition traceImpact :: "js \<Rightarrow> js \<Rightarrow> string \<Rightarrow> string \<Rightarrow> js \<Rightarrow> (Failure + Trace) option" where
  "traceImpact snapshot change start target maxNodes =
     (case validatedInput snapshot change of
        Inl e \<Rightarrow> Some (Inl e)
      | Inr (s, c) \<Rightarrow>
          if start \<notin> set (target_ids c) \<or> \<not> hasNode s target then Some (Inl InvalidInput)
          else trace s start target c maxNodes)"

abbreviation followsEdges :: "Dependency list \<Rightarrow> string list \<Rightarrow> bool" where
  "followsEdges deps \<equiv> successively (\<lambda>a b. (a, b) \<in> edges deps)"

lemma followsEdges_relpow:
  "followsEdges deps p \<Longrightarrow> p \<noteq> [] \<Longrightarrow> (hd p, last p) \<in> edges deps ^^ (length p - 1)"
proof (induction p)
  case (Cons a p)
  show ?case
  proof (cases p)
    case (Cons b q)
    then have "(b, last p) \<in> edges deps ^^ length q" "(a, b) \<in> edges deps"
      using Cons.IH Cons.prems by simp_all
    then have "(a, last p) \<in> edges deps ^^ Suc (length q)" by (rule relpow_Suc_I2 [rotated])
    then show ?thesis by (simp add: Cons)
  qed simp
qed simp

lemma viaChain_reached:
  assumes "k < length (reached deps start)" "(n, r) = reached deps start ! k"
  shows "\<exists>p. viaChain (reached deps start) (Some n) = Some p \<and> followsEdges deps (rev p) \<and>
    p \<noteq> [] \<and> hd p = n \<and> last p = start \<and> length p = routeDistance r + 1"
  using assms
proof (induction k arbitrary: n r rule: less_induct)
  case (less k)
  note I = reached_inv [of deps start, unfolded bfsInv_def]
  have look: "map_of (reached deps start) n = Some r"
    using less.prems nth_mem [OF less.prems(1)] by (auto intro: map_of_is_SomeI)
  show ?case
  proof (cases "k = 0")
    case True
    then have "n = start" "r = Route None 0" using I less.prems by simp_all
    then show ?thesis
      using look by (simp add: viaChain.simps [of _ "Some _"] viaChain.simps [of _ None])
  next
    case False
    then obtain j where j: "j < k" "routeVia r = Some (fst (reached deps start ! j))"
        "(fst (reached deps start ! j), n) \<in> edges deps"
        "routeDistance r = routeDistance (snd (reached deps start ! j)) + 1"
      using I less.prems by (metis fst_conv snd_conv bot_nat_0.not_eq_extremum)
    then obtain p where p: "viaChain (reached deps start) (Some (fst (reached deps start ! j))) = Some p"
        "followsEdges deps (rev p)" "p \<noteq> []" "hd p = fst (reached deps start ! j)" "last p = start"
        "length p = routeDistance r"
      using less.IH [of j "fst (reached deps start ! j)" "snd (reached deps start ! j)"] less.prems(1)
      by auto
    then have "viaChain (reached deps start) (Some n) = Some (n # p)"
      using look j(2) by (simp add: viaChain.simps [of _ "Some n"])
    moreover have "followsEdges deps (rev (n # p))"
      using p(2,3,4) j(3) by (auto simp: successively_append_iff last_rev)
    ultimately show ?thesis
      using p(3,5,6) by (intro exI [of _ "n # p"]) (simp del: successively_rev)
  qed
qed

lemma trace_shape:
  assumes "hasNode s start" "integer maxNodes 1 2000" "(start, target) \<in> (edges (dependencies s))\<^sup>*"
  shows "\<exists>path. trace s start target change maxNodes =
      Some (Inr \<lparr>trace_nodes = take (nat (intOf maxNodes)) path,
                 trace_evidence = evidenceOf s change path,
                 truncated = length path > nat (intOf maxNodes)\<rparr>) \<and>
    followsEdges (dependencies s) path \<and> path \<noteq> [] \<and> hd path = start \<and> last path = target \<and>
    (\<forall>k. (start, target) \<in> edges (dependencies s) ^^ k \<longrightarrow> length path \<le> k + 1)"
proof -
  let ?d = "dependencies s"
  have "target \<in> fst ` set (reached ?d start)" using assms(3) by (simp add: reached_iff)
  then obtain r where r: "(target, r) \<in> set (reached ?d start)" by auto
  then obtain k where "k < length (reached ?d start)" "(target, r) = reached ?d start ! k"
    by (metis in_set_conv_nth)
  from viaChain_reached [OF this] obtain p where p:
      "viaChain (reached ?d start) (Some target) = Some p" "followsEdges ?d (rev p)" "p \<noteq> []"
      "hd p = target" "last p = start" "length p = routeDistance r + 1"
    by blast
  have "trace s start target change maxNodes =
      Some (Inr \<lparr>trace_nodes = take (nat (intOf maxNodes)) (rev p),
                 trace_evidence = evidenceOf s change (rev p),
                 truncated = length (rev p) > nat (intOf maxNodes)\<rparr>)"
    using assms r p(1) by (force simp: trace_def reach_def Let_def)
  then show ?thesis
    using p reached_distance(2) [OF r] by (intro exI [of _ "rev p"]) (simp add: hd_rev last_rev)
qed

section \<open>Counterfactual reports\<close>

text \<open>\<open>Date.parse\<close> on a timestamp the validation accepted.\<close>

definition dateParse :: "string \<Rightarrow> int" where
  "dateParse s = (case rfc3339Millis s [] of Inl e \<Rightarrow> 0 | Inr ms \<Rightarrow> ms)"

definition counterfactual :: "string \<Rightarrow> Judgment" where
  "counterfactual target =
     \<lparr>judged_target = target, judged_effect = NeedsRevalidation,
      judged_reason = CounterfactualAssumption, judged_relation = None, judged_confidence = None,
      judged_probability = None, judged_consequence = None\<rparr>"

definition revisionsOf :: "Snapshot \<Rightarrow> (string \<times> string) list" where
  "revisionsOf s = map (\<lambda>n. (node_id n, revision n)) (nodes s)"

definition simulateChange :: "js \<Rightarrow> js \<Rightarrow> int \<Rightarrow> Failure + ReflexReport" where
  "simulateChange rawSnapshot rawChange now =
     andThen (validatedInput rawSnapshot rawChange) (\<lambda>(s, c).
       let js = map counterfactual (target_ids c)
       in andThen (impacts s js) (\<lambda>affected.
            Inr \<lparr>report_mode = Counterfactual, report_binding = binding s, report_change = change_id c,
                 report_status = (if dateParse (expires_at (binding s)) \<le> now then Stale else Complete),
                 analyzed_revisions = revisionsOf s, judgments = js, report_impacts = affected\<rparr>))"

section \<open>Advice on a plan\<close>

fun adviseItem :: "ReflexReport \<Rightarrow> string list \<times> bool \<times> string list \<Rightarrow> js
    \<Rightarrow> Failure + string list \<times> bool \<times> string list" where
  "adviseItem report (assumed, unknown, affected) item =
     guard (isObject item \<and> isId (get item ''node_id'') \<and> isId (get item ''revision'') \<and>
            textOf (get item ''node_id'') \<notin> set assumed) InvalidInput
       (let n = textOf (get item ''node_id'');
            unknown' = (if lastOf (analyzed_revisions report) n \<noteq> Some (textOf (get item ''revision''))
                        then True else unknown);
            impact = lastOf (map (\<lambda>i. (impact_node i, impact_effect i)) (report_impacts report)) n
        in Inr (assumed @ [n],
                if impact = Some NeedsRevalidation then unknown'
                else if impact = Some UnknownEffect then True else unknown',
                if impact = Some NeedsRevalidation then affected @ [n] else affected))"

definition outdated :: "ReflexReport \<Rightarrow> js \<Rightarrow> int \<Rightarrow> bool" where
  "outdated report current now \<longleftrightarrow>
     report_status report \<noteq> Complete \<or>
     textOf (get current ''snapshot_id'') \<noteq> snapshot_id (report_binding report) \<or>
     textOf (get current ''principal_id'') \<noteq> principal_id (report_binding report) \<or>
     intOf (get current ''policy_epoch'') \<noteq> policy_epoch (report_binding report) \<or>
     textOf (get current ''expires_at'') \<noteq> expires_at (report_binding report) \<or>
     dateParse (textOf (get current ''expires_at'')) \<le> now"

fun adviseStep :: "ReflexReport \<Rightarrow> js \<Rightarrow> int \<Rightarrow> string list \<times> StepAdvice list \<Rightarrow> js
    \<Rightarrow> Failure + string list \<times> StepAdvice list" where
  "adviseStep report current now (stepIds, advice) step =
     (case elements (get step ''assumptions'') of
        None \<Rightarrow> Inl InvalidInput
      | Some items \<Rightarrow>
          guard (isObject step \<and> isId (get step ''id'') \<and> textOf (get step ''id'') \<notin> set stepIds \<and>
                 length items \<le> 128) InvalidInput
            (andThen (foldM (adviseItem report) ([], outdated report current now \<or> items = [], []) items)
              (\<lambda>(assumed, unknown, affected).
                Inr (stepIds @ [textOf (get step ''id'')],
                     advice @ [\<lparr>advice_step = textOf (get step ''id''),
                                advice_status = (if affected \<noteq> [] then Revalidate
                                                 else if unknown then Unexamined else NoChangeAdvice),
                                affected_ids = sort affected\<rparr>]))))"

definition preflight :: "ReflexReport \<Rightarrow> js \<Rightarrow> int \<Rightarrow> js \<Rightarrow> Failure + ReportMode \<times> StepAdvice list" where
  "preflight report current now steps =
     (case elements steps of
        None \<Rightarrow> Inl InvalidInput
      | Some ss \<Rightarrow>
          guard (isObject current \<and> bindingOk current \<and> length ss \<le> 256) InvalidInput
            (andThen (foldM (adviseStep report current now) ([], []) ss) (\<lambda>(stepIds, advice).
              Inr (report_mode report, advice))))"

text \<open>What a step assumes, and what the report says of one node.\<close>

definition assumptionsOf :: "js \<Rightarrow> (string \<times> string) list" where
  "assumptionsOf step =
     map (\<lambda>i. (textOf (get i ''node_id''), textOf (get i ''revision'')))
       (the (elements (get step ''assumptions'')))"

definition effectOn :: "ReflexReport \<Rightarrow> string \<Rightarrow> Effect option" where
  "effectOn report n = lastOf (map (\<lambda>i. (impact_node i, impact_effect i)) (report_impacts report)) n"

definition upToDate :: "ReflexReport \<Rightarrow> string \<times> string \<Rightarrow> bool" where
  "upToDate report a \<longleftrightarrow> lastOf (analyzed_revisions report) (fst a) = Some (snd a)"

lemma adviseItems:
  assumes "foldM (adviseItem report) (assumed, unknown, affected) items = Inr (assumed', unknown', affected')"
  defines "pairs \<equiv> map (\<lambda>i. (textOf (get i ''node_id''), textOf (get i ''revision''))) items"
  shows "affected' = affected @ filter (\<lambda>n. effectOn report n = Some NeedsRevalidation) (map fst pairs) \<and>
    (unknown' \<longleftrightarrow> unknown \<or>
      (\<exists>a\<in>set pairs. \<not> upToDate report a \<or> effectOn report (fst a) = Some UnknownEffect))"
  using assms(1) unfolding pairs_def
proof (induction items arbitrary: assumed unknown affected)
  case (Cons item items)
  let ?n = "textOf (get item ''node_id'')" and ?r = "textOf (get item ''revision'')"
  let ?u = "unknown \<or> \<not> upToDate report (?n, ?r) \<or> effectOn report ?n = Some UnknownEffect"
  let ?a = "if effectOn report ?n = Some NeedsRevalidation then affected @ [?n] else affected"
  from Cons.prems obtain mid where one: "adviseItem report (assumed, unknown, affected) item = Inr mid"
      and rest: "foldM (adviseItem report) mid items = Inr (assumed', unknown', affected')"
    by (auto simp only: foldM.simps andThen_Inr_iff)
  from one have "mid = (assumed @ [?n], ?u, ?a)"
    by (auto simp: result_simps Let_def effectOn_def upToDate_def)
  from Cons.IH [OF rest [unfolded this]] show ?case by auto
qed simp

definition adviceFor :: "ReflexReport \<Rightarrow> js \<Rightarrow> int \<Rightarrow> js \<Rightarrow> StepAdvice" where
  "adviceFor report current now step =
     (let pairs = assumptionsOf step;
          affected = filter (\<lambda>n. effectOn report n = Some NeedsRevalidation) (map fst pairs);
          unknown = (outdated report current now \<or> pairs = [] \<or>
            (\<exists>a\<in>set pairs. \<not> upToDate report a \<or> effectOn report (fst a) = Some UnknownEffect))
      in \<lparr>advice_step = textOf (get step ''id''),
          advice_status = (if affected \<noteq> [] then Revalidate
                           else if unknown then Unexamined else NoChangeAdvice),
          affected_ids = sort affected\<rparr>)"

lemma adviseStep_adviceFor:
  assumes "adviseStep report current now (stepIds, advice) step = Inr (stepIds', advice')"
  shows "advice' = advice @ [adviceFor report current now step]"
proof -
  obtain items assumed unknown affected where items: "elements (get step ''assumptions'') = Some items"
    and run: "foldM (adviseItem report) ([], outdated report current now \<or> items = [], []) items =
        Inr (assumed, unknown, affected)"
    and advice': "advice' = advice @ [\<lparr>advice_step = textOf (get step ''id''),
        advice_status = (if affected \<noteq> [] then Revalidate
                         else if unknown then Unexamined else NoChangeAdvice),
        affected_ids = sort affected\<rparr>]"
    using assms by (auto simp: result_simps split: option.splits prod.splits)
  show ?thesis
    using adviseItems [OF run] by (simp add: advice' adviceFor_def assumptionsOf_def items Let_def)
qed

lemma adviseSteps:
  assumes "foldM (adviseStep report current now) (stepIds, advice) steps = Inr (stepIds', advice')"
  shows "advice' = advice @ map (adviceFor report current now) steps"
  using assms
proof (induction steps arbitrary: stepIds advice)
  case (Cons step steps)
  from Cons.prems obtain ids mid where "adviseStep report current now (stepIds, advice) step = Inr (ids, mid)"
      and rest: "foldM (adviseStep report current now) (ids, mid) steps = Inr (stepIds', advice')"
    by (auto simp only: foldM.simps andThen_Inr_iff split_paired_Ex)
  then have "mid = advice @ [adviceFor report current now step]" by (intro adviseStep_adviceFor)
  with Cons.IH [OF rest] show ?case by simp
qed simp

lemma preflight_adviceFor:
  assumes "preflight report current now steps = Inr (mode, advice)"
  shows "advice = map (adviceFor report current now) (the (elements steps))"
  using assms adviseSteps [of report current now "[]" "[]"]
  by (auto simp: preflight_def result_simps split: option.splits prod.splits)

section \<open>Properties\<close>

text \<open>C26: the impacts of a set of judgments are exactly the nodes a judgment that is not clean
  leads to, each once, in order of consequence; an impact asks for revalidation as soon as one
  such judgment does, and lists every one of them with the node's shortest route.\<close>

theorem impacts_as_expected:
  assumes "wfSnapshot s" "list_all (\<lambda>j. hasNode s (judged_target j)) js"
  shows "\<exists>out. impacts s js = Inr out \<and>
    set out = expectedImpact s js ` {n. \<exists>j\<in>set js. judged_effect j \<noteq> NoChangeDetected \<and>
      (judged_target j, n) \<in> (edges (dependencies s))\<^sup>*} \<and>
    distinct (map impact_node out) \<and>
    sorted (map (\<lambda>i. (- impact_consequence i, impact_node i)) out)"
  using assms by (rule impacts_exact)

definition demoGraph :: Snapshot where
  "demoGraph =
     \<lparr>binding = \<lparr>snapshot_id = ''s1'', principal_id = ''p1'', policy_epoch = 1,
                 expires_at = ''2030-01-01T00:00:00Z''\<rparr>,
      nodes = map (\<lambda>n. \<lparr>node_id = n, node_kind = Fact, revision = ''r1'', statement = ''t'',
                        evidence_ids = [''e1''], consequence = 2\<rparr>) [''a'', ''b'', ''c''],
      dependencies = [\<lparr>prerequisite = ''a'', dependent = ''b'', edge_evidence = [''e2'']\<rparr>,
                      \<lparr>prerequisite = ''b'', dependent = ''a'', edge_evidence = [''e3'']\<rparr>]\<rparr>"

definition demoNews :: Change where
  "demoNews =
     \<lparr>change_id = ''c1'', change_statement = ''t'', change_occurred_at = ''2026-01-01T00:00:00Z'',
      change_evidence = [''e0''], target_ids = [''a'']\<rparr>"

lemma demoGraph_wf: "wfSnapshot demoGraph" "hasNode demoGraph ''a''"
  by (simp_all add: demoGraph_def wfSnapshot_def nodeIds_def edgePairs_def hasNode_def)

lemma demoGraph_edge: "(''a'', ''b'') \<in> (edges (dependencies demoGraph))\<^sup>*"
  by (rule r_into_rtrancl) (force simp: demoGraph_def edges_def)

theorem impacts_as_expected_witness:
  "\<exists>out. impacts demoGraph [counterfactual ''a''] = Inr out \<and> ''b'' \<in> impact_node ` set out"
proof -
  obtain out where out: "impacts demoGraph [counterfactual ''a''] = Inr out"
    and s: "set out = expectedImpact demoGraph [counterfactual ''a''] `
      {n. \<exists>j\<in>set [counterfactual ''a'']. judged_effect j \<noteq> NoChangeDetected \<and>
        (judged_target j, n) \<in> (edges (dependencies demoGraph))\<^sup>*}"
    using impacts_as_expected [of demoGraph "[counterfactual ''a'']"] demoGraph_wf
    by (auto simp: counterfactual_def)
  have "expectedImpact demoGraph [counterfactual ''a''] ''b'' \<in> set out"
    unfolding s using demoGraph_edge by (intro imageI) (simp add: counterfactual_def)
  moreover have "impact_node (expectedImpact demoGraph [counterfactual ''a''] ''b'') = ''b''"
    unfolding expectedImpact_def by (rule impactOf_node) (simp add: demoGraph_def nodeIds_def)
  ultimately show ?thesis using out by force
qed

text \<open>C27: the trace of an impact returns, and what it shows is the beginning of a path of
  dependencies from the root to the target than which none is shorter, with the evidence of the whole path
  even where the display is cut.\<close>

theorem trace_shortest:
  assumes "hasNode s start" "integer maxNodes 1 2000" "(start, target) \<in> (edges (dependencies s))\<^sup>*"
  shows "\<exists>path. trace s start target change maxNodes =
      Some (Inr \<lparr>trace_nodes = take (nat (intOf maxNodes)) path,
                 trace_evidence = evidenceOf s change path,
                 truncated = length path > nat (intOf maxNodes)\<rparr>) \<and>
    followsEdges (dependencies s) path \<and> path \<noteq> [] \<and> hd path = start \<and> last path = target \<and>
    (\<forall>k. (start, target) \<in> edges (dependencies s) ^^ k \<longrightarrow> length path \<le> k + 1)"
  using assms by (rule trace_shape)

theorem trace_shortest_witness:
  "\<exists>t. trace demoGraph ''a'' ''b'' demoNews (Num 64) = Some (Inr t)"
  using trace_shortest [of demoGraph "''a''" "Num 64" "''b''" demoNews]
    demoGraph_wf demoGraph_edge
  by (fastforce simp: integer_def MAX_SAFE_INTEGER_def)


definition demoReport :: ReflexReport where
  "demoReport =
     \<lparr>report_mode = Observed, report_binding = binding demoGraph, report_change = ''c1'',
      report_status = Complete, analyzed_revisions = [(''a'', ''r1'')], judgments = [],
      report_impacts = []\<rparr>"

definition demoBinding :: js where
  "demoBinding = Obj [(''snapshot_id'', Str ''s1''), (''principal_id'', Str ''p1''),
     (''policy_epoch'', Num 1), (''expires_at'', Str ''2030-01-01T00:00:00Z'')]"

definition demoSteps :: js where
  "demoSteps = Arr [Obj [(''id'', Str ''step1''),
     (''assumptions'', Arr [Obj [(''node_id'', Str ''a''), (''revision'', Str ''r1'')]])]]"

lemma demo_preflight:
  "preflight demoReport demoBinding 0 demoSteps =
    Inr (Observed, [\<lparr>advice_step = ''step1'', advice_status = NoChangeAdvice, affected_ids = []\<rparr>])"
  by code_simp


end
