(* ===== verification/Reflex_Engine.thy ===== *)
theory Reflex_Engine
  imports Reflex_Judgment Reflex_Impact
begin

text \<open>
  \<open>packages/reflex/src/engine.ts\<close>: the analysis of one change by concurrent workers under
  one budget.

  The workers interleave at the points where the code awaits the host.  An event is what
  happens between two such points: the freshness check of a worker's candidate has settled
  (\<open>Checked\<close>, with whether the total time has passed and the encoded size of the request
  built from the candidate), or its evaluation has (\<open>Answered\<close>).  A host call that throws,
  or times out, settles with its failure code.  Elapsed time is not part of the report here.
\<close>

section \<open>State\<close>

datatype Worker = Checking nat | Evaluating nat | Finished

record EngineState =
  cursor :: nat
  stopped :: "Failure option"
  isStale :: bool
  slots :: "Judgment option list"
  requests_started :: nat
  questions_started :: nat
  in_flight :: nat
  max_in_flight :: nat
  request_bytes :: nat
  tokens_in :: int
  tokens_out :: int
  usage_complete :: bool
  workers :: "Worker list"

record Analysis =
  targets :: "string list"
  budget_concurrency :: nat
  budget_requests :: nat
  budget_request_bytes :: nat
  budget_total_bytes :: nat
  policy :: Thresholds

datatype Event =
    Checked nat "Failure + bool" bool nat
  | Answered nat "Failure + js"

text \<open>The budget of a validated set of limits.\<close>

definition analysisOf :: "Change \<Rightarrow> Limits \<Rightarrow> Thresholds \<Rightarrow> Analysis" where
  "analysisOf change budget thr =
     \<lparr>targets = target_ids change,
      budget_concurrency = nat (intOf (concurrency budget)),
      budget_requests = nat (intOf (max_requests budget)),
      budget_request_bytes = nat (intOf (max_request_bytes budget)),
      budget_total_bytes = nat (intOf (max_total_request_bytes budget)),
      policy = thr\<rparr>"

section \<open>Steps\<close>

definition setWorker :: "nat \<Rightarrow> Worker \<Rightarrow> EngineState \<Rightarrow> EngineState" where
  "setWorker w x st = st\<lparr>workers := (workers st)[w := x]\<rparr>"

definition record_slot :: "nat \<Rightarrow> Judgment \<Rightarrow> EngineState \<Rightarrow> EngineState" where
  "record_slot index j st = st\<lparr>slots := (slots st)[index := Some j]\<rparr>"

text \<open>The head of a worker's loop: take the next candidate, or return.\<close>

definition nextCandidate :: "Analysis \<Rightarrow> nat \<Rightarrow> EngineState \<Rightarrow> EngineState" where
  "nextCandidate a w st =
     (if stopped st \<noteq> None then setWorker w Finished st
      else
        (let index = cursor st; st' = st\<lparr>cursor := index + 1\<rparr>
         in if index \<ge> length (targets a) then setWorker w Finished st'
            else setWorker w (Checking index) st'))"

text \<open>The outer handler of a candidate.\<close>

definition failed :: "Analysis \<Rightarrow> nat \<Rightarrow> Failure \<Rightarrow> EngineState \<Rightarrow> EngineState" where
  "failed a index reason st =
     (let st' = record_slot index (unknownJudgment (targets a ! index) (Failed reason)) st
      in if reason = DeadlineExceeded then st'\<lparr>stopped := Some reason\<rparr>
         else if reason = StaleSnapshot then st'\<lparr>stopped := Some reason, isStale := True\<rparr>
         else st')"

definition reserve :: "nat \<Rightarrow> nat \<Rightarrow> nat \<Rightarrow> EngineState \<Rightarrow> EngineState" where
  "reserve w index bytes st =
     setWorker w (Evaluating index)
       (st\<lparr>requests_started := requests_started st + 1,
           questions_started := questions_started st + 5,
           request_bytes := request_bytes st + bytes,
           in_flight := in_flight st + 1,
           max_in_flight := max (max_in_flight st) (in_flight st + 1)\<rparr>)"

definition onChecked :: "Analysis \<Rightarrow> nat \<Rightarrow> nat \<Rightarrow> Failure + bool \<Rightarrow> bool \<Rightarrow> nat \<Rightarrow> EngineState \<Rightarrow> EngineState" where
  "onChecked a w index outcome pastEnd bytes st =
     (case outcome of
        Inl e \<Rightarrow> nextCandidate a w (failed a index e st)
      | Inr False \<Rightarrow> setWorker w Finished (st\<lparr>isStale := True, stopped := Some StaleSnapshot\<rparr>)
      | Inr True \<Rightarrow>
          if stopped st \<noteq> None then setWorker w Finished st
          else if pastEnd then setWorker w Finished (st\<lparr>stopped := Some DeadlineExceeded\<rparr>)
          else if requests_started st \<ge> budget_requests a \<or>
                  bytes > budget_request_bytes a \<or>
                  request_bytes st + bytes > budget_total_bytes a
          then nextCandidate a w
                 (record_slot index (unknownJudgment (targets a ! index) (Failed OverBudget)) st)
          else reserve w index bytes st)"

definition onAnswered :: "Analysis \<Rightarrow> nat \<Rightarrow> nat \<Rightarrow> Failure + js \<Rightarrow> EngineState \<Rightarrow> EngineState" where
  "onAnswered a w index outcome st =
     (case outcome of
        Inl e \<Rightarrow>
          nextCandidate a w
            (failed a index e (st\<lparr>usage_complete := False, in_flight := in_flight st - 1\<rparr>))
      | Inr raw \<Rightarrow>
          (let r = readJudgment raw (targets a ! index) (policy a); j = result_judgment r
           in nextCandidate a w
                (record_slot index j
                  (st\<lparr>usage_complete := (if judged_reason j = Failed InvalidResponse then False
                                         else usage_complete st),
                      tokens_in := tokens_in st + input_tokens r,
                      tokens_out := tokens_out st + output_tokens r,
                      in_flight := in_flight st - 1\<rparr>))))"

text \<open>An event of a worker that is not waiting for it does not occur.\<close>

fun engineStep :: "Analysis \<Rightarrow> EngineState \<Rightarrow> Event \<Rightarrow> EngineState" where
  "engineStep a st (Checked w outcome pastEnd bytes) =
     (if w < length (workers st)
      then (case workers st ! w of
              Checking index \<Rightarrow> onChecked a w index outcome pastEnd bytes st
            | _ \<Rightarrow> st)
      else st)"
| "engineStep a st (Answered w outcome) =
     (if w < length (workers st)
      then (case workers st ! w of
              Evaluating index \<Rightarrow> onAnswered a w index outcome st
            | _ \<Rightarrow> st)
      else st)"

section \<open>A whole analysis\<close>

text \<open>What is known before the workers start: the snapshot has expired, or there is no host
  (\<open>None\<close>), or the host's first freshness check has settled.\<close>

definition initialState :: "Analysis \<Rightarrow> bool \<Rightarrow> (Failure + bool) option \<Rightarrow> EngineState" where
  "initialState a expired first =
     \<lparr>cursor = 0,
      stopped = (if expired then Some StaleSnapshot
                 else case first of None \<Rightarrow> Some NotConfigured
                   | Some (Inl e) \<Rightarrow> Some e
                   | Some (Inr current) \<Rightarrow> if current then None else Some StaleSnapshot),
      isStale = (expired \<or> first = Some (Inr False)),
      slots = replicate (length (targets a)) None,
      requests_started = 0, questions_started = 0, in_flight = 0, max_in_flight = 0,
      request_bytes = 0, tokens_in = 0, tokens_out = 0, usage_complete = True,
      workers = replicate (min (budget_concurrency a) (length (targets a))) Finished\<rparr>"

definition started :: "Analysis \<Rightarrow> bool \<Rightarrow> (Failure + bool) option \<Rightarrow> EngineState" where
  "started a expired first =
     foldl (\<lambda>st w. nextCandidate a w st) (initialState a expired first)
       [0 ..< min (budget_concurrency a) (length (targets a))]"

definition lastCheck :: "bool \<Rightarrow> Failure + bool \<Rightarrow> EngineState \<Rightarrow> EngineState" where
  "lastCheck hosted outcome st =
     (if hosted \<and> stopped st \<noteq> Some NotConfigured \<and> \<not> isStale st
      then (case outcome of
              Inl e \<Rightarrow> st\<lparr>stopped := Some e\<rparr>
            | Inr current \<Rightarrow> if current then st else st\<lparr>isStale := True, stopped := Some StaleSnapshot\<rparr>)
      else st)"

definition results :: "Analysis \<Rightarrow> EngineState \<Rightarrow> Judgment list" where
  "results a st =
     (let invalidateAll = isStale st \<or> stopped st = Some HostUnavailable \<or> stopped st = Some DeadlineExceeded
      in map (\<lambda>index.
           let target = targets a ! index
           in if invalidateAll
              then unknownJudgment target (Failed (if isStale st then StaleSnapshot else the (stopped st)))
              else case slots st ! index of
                     Some j \<Rightarrow> j
                   | None \<Rightarrow> unknownJudgment target
                       (Failed (case stopped st of None \<Rightarrow> OverBudget | Some f \<Rightarrow> f)))
           [0 ..< length (targets a)])"

definition finishReport :: "Snapshot \<Rightarrow> Change \<Rightarrow> Analysis \<Rightarrow> EngineState \<Rightarrow> Failure + ReflexReport" where
  "finishReport s c a st =
     andThen (impacts s (results a st)) (\<lambda>affected.
       Inr \<lparr>report_mode = Observed, report_binding = binding s, report_change = change_id c,
            report_status =
              (if isStale st then Stale
               else if \<exists>j\<in>set (results a st). judged_effect j = UnknownEffect then Incomplete
               else Complete),
            analyzed_revisions = revisionsOf s, judgments = results a st, report_impacts = affected\<rparr>)"

text \<open>The analysis of a run of events; \<open>None\<close> while a worker has not returned.\<close>

definition analyzeChange ::
  "js \<Rightarrow> js \<Rightarrow> (string \<times> js) list \<Rightarrow> (string \<times> js) list \<Rightarrow> bool \<Rightarrow> (Failure + bool) option \<Rightarrow>
   Event list \<Rightarrow> Failure + bool \<Rightarrow> (Failure + ReflexReport) option" where
  "analyzeChange rawSnapshot rawChange rawLimits rawThresholds expired first events final =
     (case andThen (validatedInput rawSnapshot rawChange) (\<lambda>(s, c).
             andThen (limits rawLimits) (\<lambda>budget.
             andThen (thresholds rawThresholds) (\<lambda>thr. Inr (s, c, analysisOf c budget thr)))) of
        Inl e \<Rightarrow> Some (Inl e)
      | Inr (s, c, a) \<Rightarrow>
          (let st = foldl (engineStep a) (started a expired first) events
           in if list_all (\<lambda>x. x = Finished) (workers st)
              then Some (finishReport s c a (lastCheck (first \<noteq> None) final st))
              else None))"

section \<open>Invariants\<close>

lemmas engine_ops = setWorker_def record_slot_def reserve_def failed_def

fun holds_index :: "Worker \<Rightarrow> nat \<Rightarrow> bool" where
  "holds_index (Checking i) k \<longleftrightarrow> k = i"
| "holds_index (Evaluating i) k \<longleftrightarrow> k = i"
| "holds_index Finished k \<longleftrightarrow> False"

definition isEvaluating :: "Worker \<Rightarrow> nat" where
  "isEvaluating x = (case x of Evaluating i \<Rightarrow> 1 | _ \<Rightarrow> 0)"

definition evaluations :: "Worker list \<Rightarrow> nat" where
  "evaluations ws = sum_list (map isEvaluating ws)"

lemma evaluations_update:
  assumes "w < length ws"
  shows "evaluations (ws[w := x]) + isEvaluating (ws ! w) = evaluations ws + isEvaluating x"
proof -
  have "isEvaluating (ws ! w) \<le> sum_list (map isEvaluating ws)"
    using assms elem_le_sum_list [of w "map isEvaluating ws"] by simp
  then show ?thesis
    using assms by (simp add: evaluations_def map_update sum_list_update)
qed

lemma evaluations_le: "evaluations ws \<le> length ws"
proof (induction ws)
  case (Cons x ws)
  then show ?case by (simp add: evaluations_def isEvaluating_def split: Worker.split)
qed (simp add: evaluations_def)

text \<open>The budget: what has been spent never exceeds what was granted, and the requests in
  flight are those of the workers that await an evaluation.\<close>

definition budgetInv :: "Analysis \<Rightarrow> EngineState \<Rightarrow> bool" where
  "budgetInv a st \<longleftrightarrow>
     requests_started st \<le> budget_requests a \<and> request_bytes st \<le> budget_total_bytes a \<and>
     questions_started st = 5 * requests_started st \<and>
     length (workers st) \<le> budget_concurrency a \<and>
     in_flight st = evaluations (workers st) \<and> in_flight st \<le> max_in_flight st \<and> max_in_flight st \<le> length (workers st) \<and>
     (isStale st \<longrightarrow> stopped st \<noteq> None)"

text \<open>The candidates: a worker holds a candidate no other worker holds and no judgment was
  recorded for, and no judgment is recorded for a candidate that was not taken.\<close>

definition slotInv :: "Analysis \<Rightarrow> EngineState \<Rightarrow> bool" where
  "slotInv a st \<longleftrightarrow>
     length (slots st) = length (targets a) \<and>
     (\<forall>w<length (workers st). \<forall>i. holds_index (workers st ! w) i \<longrightarrow>
        i < cursor st \<and> i < length (targets a) \<and> slots st ! i = None) \<and>
     (\<forall>w<length (workers st). \<forall>v<length (workers st). \<forall>i.
        holds_index (workers st ! w) i \<longrightarrow> holds_index (workers st ! v) i \<longrightarrow> w = v) \<and>
     (\<forall>i. cursor st \<le> i \<longrightarrow> i < length (targets a) \<longrightarrow> slots st ! i = None)"

lemma nextCandidate_release:
  "nextCandidate a w (setWorker w Finished st) = nextCandidate a w st"
  by (simp add: nextCandidate_def setWorker_def Let_def)

lemma budgetInv_nextCandidate:
  assumes "budgetInv a st" "w < length (workers st)" "workers st ! w = Finished"
  shows "budgetInv a (nextCandidate a w st)"
proof -
  have "evaluations ((workers st)[w := x]) = evaluations (workers st)" if "isEvaluating x = 0" for x
    using evaluations_update [OF assms(2), of x] assms(3) that by (simp add: isEvaluating_def)
  then show ?thesis
    using assms(1) by (auto simp: nextCandidate_def setWorker_def budgetInv_def Let_def isEvaluating_def)
qed

lemma slotInv_nextCandidate:
  assumes "slotInv a st" "w < length (workers st)" "workers st ! w = Finished"
  shows "slotInv a (nextCandidate a w st)"
proof (cases "stopped st = None \<and> cursor st < length (targets a)")
  case True
  then have eq: "nextCandidate a w st =
      st\<lparr>cursor := cursor st + 1, workers := (workers st)[w := Checking (cursor st)]\<rparr>"
    by (simp add: nextCandidate_def setWorker_def Let_def)
  have new: "(workers st)[w := Checking (cursor st)] ! v =
      (if v = w then Checking (cursor st) else workers st ! v)" if "v < length (workers st)" for v
    using that assms(2) by (simp add: nth_list_update)
  have old: "i < cursor st" if "v < length (workers st)" "holds_index (workers st ! v) i" for v i
    using that assms(1) unfolding slotInv_def by blast
  let ?ws = "(workers st)[w := Checking (cursor st)]"
  have "i < cursor st + 1 \<and> i < length (targets a) \<and> slots st ! i = None"
    if "v < length (workers st)" "holds_index (?ws ! v) i" for v i
  proof (cases "v = w")
    case False
    then have "holds_index (workers st ! v) i" using that new by simp
    then show ?thesis using assms(1) that(1) unfolding slotInv_def by fastforce
  next
    case True
    then have "i = cursor st" using that new by simp
    then show ?thesis using assms(1) \<open>stopped st = None \<and> _\<close> unfolding slotInv_def by simp
  qed
  moreover have "u = v" if "u < length (workers st)" "v < length (workers st)"
      "holds_index (?ws ! u) i" "holds_index (?ws ! v) i" for u v i
  proof (rule ccontr)
    assume "u \<noteq> v"
    then consider "u = w" "v \<noteq> w" | "v = w" "u \<noteq> w" | "u \<noteq> w" "v \<noteq> w" by blast
    then show False
    proof cases
      case 3
      then show False using that new assms(1) \<open>u \<noteq> v\<close> unfolding slotInv_def by metis
    qed (use that new old in fastforce)+
  qed
  ultimately show ?thesis using assms(1) unfolding slotInv_def eq by simp
next
  case False
  then have "workers (nextCandidate a w st) = workers st" "slots (nextCandidate a w st) = slots st"
      "cursor st \<le> cursor (nextCandidate a w st)"
    using assms(3) by (auto simp: nextCandidate_def setWorker_def Let_def list_update_same_conv assms(2)
        intro!: list_update_same_conv [THEN iffD2])
  then show ?thesis using assms(1) unfolding slotInv_def by fastforce
qed

text \<open>A worker that lets go of its candidate, with or without a judgment for it.\<close>

lemma slotInv_release:
  assumes "slotInv a st" "w < length (workers st)" "holds_index (workers st ! w) i"
    and "cursor st' = cursor st" "workers st' = (workers st)[w := Finished]"
    and "slots st' = slots st \<or> slots st' = (slots st)[i := Some j]"
  shows "slotInv a st'"
proof -
  have new: "workers st' ! v = (if v = w then Finished else workers st ! v)"
    if "v < length (workers st)" for v
    using that assms(2,5) by (simp add: nth_list_update)
  have other: "k \<noteq> i" if "v < length (workers st)" "v \<noteq> w" "holds_index (workers st ! v) k" for v k
    using that assms(1-3) unfolding slotInv_def by blast
  have i: "i < cursor st" using assms(1-3) unfolding slotInv_def by blast
  have len: "length (workers st') = length (workers st)" by (simp add: assms(5))
  have slot: "slots st' ! k = slots st ! k" if "k \<noteq> i" for k using assms(6) that by auto
  have "length (slots st') = length (slots st)" using assms(6) by auto
  moreover have "k < cursor st \<and> k < length (targets a) \<and> slots st' ! k = None"
    if "v < length (workers st)" "holds_index (workers st' ! v) k" for v k
  proof (cases "v = w")
    case False
    then have "holds_index (workers st ! v) k" using that new by simp
    then show ?thesis using other [OF that(1) False] slot assms(1) that(1) unfolding slotInv_def by metis
  qed (use that new in simp)
  moreover have "u = v" if "u < length (workers st)" "v < length (workers st)"
      "holds_index (workers st' ! u) k" "holds_index (workers st' ! v) k" for u v k
    using that assms(1) new unfolding slotInv_def by (auto split: if_splits)
  moreover have "slots st' ! k = None" if "cursor st \<le> k" "k < length (targets a)" for k
    using that i slot assms(1) unfolding slotInv_def by force
  ultimately show ?thesis using assms(1,4) unfolding slotInv_def len by metis
qed

text \<open>What a judgment recorded on an event is: unknown, or read from the answer.\<close>

definition answerOf :: "Analysis \<Rightarrow> Event \<Rightarrow> nat \<Rightarrow> nat \<Rightarrow> Judgment \<Rightarrow> bool" where
  "answerOf a e w i j \<longleftrightarrow>
     judged_target j = targets a ! i \<and>
     (judged_effect j = UnknownEffect \<or>
      (\<exists>raw. e = Answered w (Inr raw) \<and>
         j = result_judgment (readJudgment raw (targets a ! i) (policy a))))"

lemma answerOf_unknown [simp, intro]: "answerOf a e w i (unknownJudgment (targets a ! i) r)"
  by (simp add: answerOf_def unknownJudgment_def)

lemma answerOf_read [simp, intro]:
  "answerOf a (Answered w (Inr raw)) w i
    (result_judgment (readJudgment raw (targets a ! i) (policy a)))"
  by (simp add: answerOf_def)

text \<open>The worker of an event, and the event as the release of its candidate.\<close>

definition released :: "Analysis \<Rightarrow> Event \<Rightarrow> nat \<Rightarrow> EngineState \<Rightarrow> EngineState \<Rightarrow> bool" where
  "released a e w st st' \<longleftrightarrow>
     w < length (workers st) \<and> workers st ! w \<noteq> Finished \<and>
     cursor st' = cursor st \<and> workers st' = (workers st)[w := Finished] \<and>
     requests_started st' = requests_started st \<and> questions_started st' = questions_started st \<and>
     request_bytes st' = request_bytes st \<and> max_in_flight st' = max_in_flight st \<and>
     in_flight st' = in_flight st - isEvaluating (workers st ! w) \<and>
     (stopped st \<noteq> None \<longrightarrow> stopped st' \<noteq> None) \<and> (isStale st \<longrightarrow> isStale st') \<and>
     (isStale st' \<longrightarrow> isStale st \<or> stopped st' \<noteq> None) \<and>
     (slots st' = slots st \<or>
      (\<exists>i j. holds_index (workers st ! w) i \<and> answerOf a e w i j \<and>
         slots st' = (slots st)[i := Some j]))"

lemma released_inv:
  assumes "released a e w st st'" "budgetInv a st" "slotInv a st"
  shows "budgetInv a st' \<and> slotInv a st'"
proof
  have w: "w < length (workers st)" using assms(1) by (simp add: released_def)
  have "workers st ! w \<noteq> Finished" using assms(1) by (simp add: released_def)
  then obtain i where i: "holds_index (workers st ! w) i" by (cases "workers st ! w") auto
  have only: "k = i" if "holds_index (workers st ! w) k" for k
    using that i by (cases "workers st ! w") auto
  show "slotInv a st'"
    using assms(1,3) w i only by (auto simp: released_def intro: slotInv_release)
  show "budgetInv a st'"
    using assms(1,2) evaluations_update [OF w, of Finished]
    by (auto simp: released_def budgetInv_def isEvaluating_def)
qed

text \<open>Every effective event is a reservation, or a release after which the worker returns or
  takes its next candidate.\<close>

lemma engineStep_cases:
  assumes "budgetInv a st" "slotInv a st"
  obtains (nothing) "engineStep a st e = st"
    | (reserved) w i bytes where "w < length (workers st)" "workers st ! w = Checking i"
        "requests_started st < budget_requests a" "request_bytes st + bytes \<le> budget_total_bytes a"
        "stopped st = None" "engineStep a st e = reserve w i bytes st"
    | (returned) w st' where "released a e w st st'" "engineStep a st e = st'"
    | (continued) w st' where "released a e w st st'" "engineStep a st e = nextCandidate a w st'"
proof (cases e)
  case (Checked w outcome pastEnd bytes)
  show thesis
  proof (cases "w < length (workers st) \<and> (\<exists>i. workers st ! w = Checking i)")
    case True
    then obtain i where w: "w < length (workers st)" "workers st ! w = Checking i" by blast
    have step: "engineStep a st e = onChecked a w i outcome pastEnd bytes st"
      using w by (simp add: Checked)
    show thesis
    proof (cases outcome)
      case (Inl f)
      then have "engineStep a st e = nextCandidate a w (setWorker w Finished (failed a i f st))"
        by (simp add: step onChecked_def nextCandidate_release)
      moreover have "released a e w st (setWorker w Finished (failed a i f st))"
        using w by (auto simp: released_def engine_ops Let_def isEvaluating_def)
      ultimately show thesis by (rule continued [rotated])
    next
      case (Inr current)
      show thesis
      proof (cases "current \<and> stopped st = None \<and> \<not> pastEnd")
        case False
        have free: "released a e w st (setWorker w Finished st')"
          if "st' = st \<or> st' = st\<lparr>stopped := Some DeadlineExceeded\<rparr> \<or>
            st' = st\<lparr>isStale := True, stopped := Some StaleSnapshot\<rparr>" for st'
          using that w by (elim disjE) (simp_all add: released_def setWorker_def isEvaluating_def)
        have "engineStep a st e = setWorker w Finished
            (if \<not> current then st\<lparr>isStale := True, stopped := Some StaleSnapshot\<rparr>
             else if stopped st \<noteq> None then st else st\<lparr>stopped := Some DeadlineExceeded\<rparr>)"
          using False by (cases current; cases "stopped st"; cases pastEnd) (simp_all add: step onChecked_def Inr)
        moreover have "released a e w st \<dots>" by (rule free) simp
        ultimately show thesis by (rule returned [rotated])
      next
        case True
        show thesis
        proof (cases "requests_started st \<ge> budget_requests a \<or> bytes > budget_request_bytes a \<or>
            request_bytes st + bytes > budget_total_bytes a")
          case over: True
          let ?st = "setWorker w Finished
            (record_slot i (unknownJudgment (targets a ! i) (Failed OverBudget)) st)"
          have "engineStep a st e = nextCandidate a w ?st"
            using True over by (simp add: step onChecked_def Inr nextCandidate_release)
          moreover have "released a e w st ?st"
            using w by (auto simp: released_def engine_ops isEvaluating_def)
          ultimately show thesis by (rule continued [rotated])
        next
          case False
          then show thesis using True w by (intro reserved) (auto simp: step onChecked_def Inr)
        qed
      qed
    qed
  next
    case False
    then have "engineStep a st e = st" by (auto simp: Checked split: Worker.split)
    then show thesis by (rule nothing)
  qed
next
  case (Answered w outcome)
  show thesis
  proof (cases "w < length (workers st) \<and> (\<exists>i. workers st ! w = Evaluating i)")
    case True
    then obtain i where w: "w < length (workers st)" "workers st ! w = Evaluating i" by blast
    obtain st' where "engineStep a st e = nextCandidate a w st'" "released a e w st (setWorker w Finished st')"
    proof (cases outcome)
      case (Inl f)
      let ?st = "failed a i f (st\<lparr>usage_complete := False, in_flight := in_flight st - 1\<rparr>)"
      have "released a e w st (setWorker w Finished ?st)"
        using w by (cases "f = DeadlineExceeded"; cases "f = StaleSnapshot")
          (auto simp: released_def engine_ops Let_def isEvaluating_def)
      moreover have "engineStep a st e = nextCandidate a w ?st"
        using w by (simp add: Answered Inl onAnswered_def)
      ultimately show thesis by (rule that [rotated])
    next
      case (Inr raw)
      show thesis
        by (rule that) (use w in \<open>auto simp: Answered Inr onAnswered_def released_def engine_ops Let_def
            isEvaluating_def\<close>)
    qed
    then show thesis using continued nextCandidate_release by metis
  next
    case False
    then have "engineStep a st e = st" by (auto simp: Answered split: Worker.split)
    then show thesis by (rule nothing)
  qed
qed

section \<open>Every run keeps the invariants\<close>

definition engineInv :: "Analysis \<Rightarrow> EngineState \<Rightarrow> bool" where
  "engineInv a st \<longleftrightarrow> budgetInv a st \<and> slotInv a st"

definition progress :: "EngineState \<Rightarrow> EngineState \<Rightarrow> bool" where
  "progress st st' \<longleftrightarrow>
     requests_started st \<le> requests_started st' \<and> request_bytes st \<le> request_bytes st' \<and>
     cursor st \<le> cursor st' \<and> length (slots st') = length (slots st) \<and>
     (stopped st \<noteq> None \<longrightarrow> stopped st' \<noteq> None) \<and> (isStale st \<longrightarrow> isStale st') \<and>
     (\<forall>i<length (slots st). slots st ! i \<noteq> None \<longrightarrow> slots st' ! i = slots st ! i)"

lemma nextCandidate_same [simp]:
  "requests_started (nextCandidate a w st) = requests_started st"
  "request_bytes (nextCandidate a w st) = request_bytes st"
  "slots (nextCandidate a w st) = slots st"
  "stopped (nextCandidate a w st) = stopped st"
  "isStale (nextCandidate a w st) = isStale st"
  "length (workers (nextCandidate a w st)) = length (workers st)"
  "max_in_flight (nextCandidate a w st) = max_in_flight st"
  by (simp_all add: nextCandidate_def setWorker_def Let_def)

lemma nextCandidate_cursor: "cursor st \<le> cursor (nextCandidate a w st)"
  by (simp add: nextCandidate_def setWorker_def Let_def)

lemma released_worker:
  assumes "released a e w st st'"
  shows "w < length (workers st')" "workers st' ! w = Finished"
  using assms by (simp_all add: released_def)

lemma reserve_inv:
  assumes "engineInv a st" "w < length (workers st)" "workers st ! w = Checking i"
    and "requests_started st < budget_requests a" "request_bytes st + bytes \<le> budget_total_bytes a"
  shows "engineInv a (reserve w i bytes st)"
proof -
  have flight: "evaluations ((workers st)[w := Evaluating i]) = in_flight st + 1"
    using evaluations_update [OF assms(2), of "Evaluating i"] assms(1,3)
    by (simp add: isEvaluating_def engineInv_def budgetInv_def)
  then have "in_flight st + 1 \<le> length (workers st)"
    using evaluations_le [of "(workers st)[w := Evaluating i]"] by simp
  then have "budgetInv a (reserve w i bytes st)"
    using assms flight by (auto simp: engineInv_def budgetInv_def engine_ops)
  moreover have "holds_index ((workers st)[w := Evaluating i] ! v) = holds_index (workers st ! v)"
    if "v < length (workers st)" for v
    using that assms(2,3) by (auto simp: nth_list_update)
  then have "slotInv a (reserve w i bytes st)"
    using assms(1) unfolding engineInv_def slotInv_def by (simp add: engine_ops)
  ultimately show ?thesis by (simp add: engineInv_def)
qed

lemma released_progress:
  assumes "released a e w st st'" "slotInv a st"
  shows "progress st st'"
proof -
  have "slots st' ! k = slots st ! k" if k: "k < length (slots st)" "slots st ! k \<noteq> None" for k
  proof -
    have w: "w < length (workers st)" using assms(1) by (simp add: released_def)
    have "slots st ! i = None" if "holds_index (workers st ! w) i" for i
      using assms(2) that w unfolding slotInv_def by blast
    moreover have "slots st' = slots st \<or> (\<exists>i j. holds_index (workers st ! w) i \<and> slots st' = (slots st)[i := Some j])"
      using assms(1) unfolding released_def by blast
    ultimately show ?thesis using k(2) by (metis nth_list_update_neq)
  qed
  moreover have "length (slots st') = length (slots st)" using assms(1) by (auto simp: released_def)
  ultimately show ?thesis using assms(1) by (simp add: progress_def released_def)
qed

lemma progress_continues: "progress st st' \<Longrightarrow> progress st (nextCandidate a w st')"
  using nextCandidate_cursor [of st' a w] by (auto simp: progress_def)

lemma engineStep_inv:
  assumes "engineInv a st"
  shows "engineInv a (engineStep a st e) \<and> progress st (engineStep a st e)"
proof -
  have parts: "budgetInv a st" "slotInv a st" using assms by (simp_all add: engineInv_def)
  from parts show ?thesis
  proof (cases rule: engineStep_cases [of a st e])
    case nothing
    then show ?thesis using assms by (simp add: progress_def)
  next
    case (reserved w i bytes)
    then show ?thesis using reserve_inv [OF assms] by (simp add: progress_def engine_ops)
  next
    case (returned w st')
    then show ?thesis
      using released_inv [OF returned(1) parts] released_progress [OF returned(1) parts(2)]
      by (simp add: engineInv_def)
  next
    case (continued w st')
    then show ?thesis
      using released_inv [OF continued(1) parts] released_worker [OF continued(1)]
        progress_continues [OF released_progress [OF continued(1) parts(2)]]
      by (simp add: engineInv_def budgetInv_nextCandidate slotInv_nextCandidate)
  qed
qed

interpretation reflex_engine: machine "engineStep a" every "engineInv a" progress for a
proof
  show "progress s u" if "progress s t" "progress t u" for s t u
    using that unfolding progress_def by (metis le_trans)
qed (simp_all add: engineStep_inv, simp add: progress_def)

section \<open>The start\<close>

lemma start_some:
  assumes "engineInv a st" "distinct ws"
    and "\<forall>w\<in>set ws. w < length (workers st) \<and> workers st ! w = Finished"
  shows "engineInv a (foldl (\<lambda>st w. nextCandidate a w st) st ws)"
  using assms
proof (induction ws arbitrary: st)
  case (Cons w ws)
  have "workers (nextCandidate a w st) ! v = workers st ! v" if "v \<noteq> w" for v
    using that by (simp add: nextCandidate_def setWorker_def Let_def)
  moreover have "engineInv a (nextCandidate a w st)"
    using Cons.prems by (simp add: engineInv_def budgetInv_nextCandidate slotInv_nextCandidate)
  ultimately show ?case
    using Cons.IH [of "nextCandidate a w st"] Cons.prems(2,3) by fastforce
qed simp

lemma initialState_inv: "engineInv a (initialState a expired first)"
proof -
  have "evaluations (replicate n Finished) = 0" for n
    by (induction n) (simp_all add: evaluations_def isEvaluating_def)
  moreover have "holds_index (replicate n Finished ! w) i \<longleftrightarrow> False" if "w < n" for n w i
    using that by simp
  ultimately show ?thesis
    by (auto simp: engineInv_def budgetInv_def slotInv_def initialState_def)
qed

lemma started_inv: "engineInv a (started a expired first)"
  unfolding started_def
  by (rule start_some [OF initialState_inv]) (simp_all add: initialState_def)

lemma engine_run_inv: "engineInv a (foldl (engineStep a) (started a expired first) events)"
  by (rule reflex_engine.run_inv [OF list_all_every started_inv])

section \<open>Every run ends\<close>

definition weight :: "Worker \<Rightarrow> nat" where
  "weight x = (case x of Checking i \<Rightarrow> 2 | Evaluating i \<Rightarrow> 1 | Finished \<Rightarrow> 0)"

text \<open>The events that can still have an effect: two per candidate not taken, two for a
  worker at its check, one for a worker at its evaluation.\<close>

definition pending :: "Analysis \<Rightarrow> EngineState \<Rightarrow> nat" where
  "pending a st = 2 * (length (targets a) - cursor st) + sum_list (map weight (workers st))"

lemma weight_update:
  assumes "w < length ws"
  shows "sum_list (map weight (ws[w := x])) + weight (ws ! w) = sum_list (map weight ws) + weight x"
proof -
  have "weight (ws ! w) \<le> sum_list (map weight ws)"
    using assms elem_le_sum_list [of w "map weight ws"] by simp
  then show ?thesis using assms by (simp add: map_update sum_list_update)
qed

lemma pending_nextCandidate:
  assumes "w < length (workers st)" "workers st ! w = Finished"
  shows "pending a (nextCandidate a w st) \<le> pending a st"
  using weight_update [OF assms(1)] assms(2)
  by (auto simp: pending_def nextCandidate_def setWorker_def Let_def weight_def)

lemma released_pending:
  assumes "released a e w st st'"
  shows "pending a st' < pending a st"
proof -
  have "weight (workers st ! w) > 0"
    using assms by (cases "workers st ! w") (simp_all add: released_def weight_def)
  then show ?thesis
    using assms weight_update [of w "workers st" Finished]
    by (simp add: released_def pending_def weight_def)
qed

lemma effective_step:
  assumes "engineInv a st"
  shows "engineStep a st e = st \<or> pending a (engineStep a st e) < pending a st"
proof -
  have parts: "budgetInv a st" "slotInv a st" using assms by (simp_all add: engineInv_def)
  from parts show ?thesis
  proof (cases rule: engineStep_cases [of a st e])
    case (reserved w i bytes)
    then show ?thesis using weight_update [OF reserved(1), of "Evaluating i"]
      by (simp add: pending_def engine_ops weight_def)
  next
    case (returned w st')
    then show ?thesis using released_pending by blast
  next
    case (continued w st')
    then show ?thesis
      using released_pending [OF continued(1)]
        pending_nextCandidate [OF released_worker [OF continued(1)], of a] by simp
  qed simp
qed

fun effective :: "Analysis \<Rightarrow> EngineState \<Rightarrow> Event list \<Rightarrow> nat" where
  "effective a st [] = 0"
| "effective a st (e # es) =
     (if engineStep a st e = st then 0 else 1) + effective a (engineStep a st e) es"

lemma effective_bound:
  assumes "engineInv a st"
  shows "effective a st es + pending a (foldl (engineStep a) st es) \<le> pending a st"
  using assms
proof (induction es arbitrary: st)
  case (Cons e es)
  then have "effective a (engineStep a st e) es + pending a (foldl (engineStep a) (engineStep a st e) es)
      \<le> pending a (engineStep a st e)"
    using engineStep_inv by blast
  then show ?case using effective_step [OF Cons.prems, of e] by auto
qed simp

lemma start_pending:
  assumes "distinct ws" "\<forall>w\<in>set ws. w < length (workers st) \<and> workers st ! w = Finished"
  shows "pending a (foldl (\<lambda>st w. nextCandidate a w st) st ws) \<le> pending a st"
  using assms
proof (induction ws arbitrary: st)
  case (Cons w ws)
  have "workers (nextCandidate a w st) ! v = workers st ! v" if "v \<noteq> w" for v
    using that by (simp add: nextCandidate_def setWorker_def Let_def)
  then have "pending a (foldl (\<lambda>st w. nextCandidate a w st) (nextCandidate a w st) ws)
      \<le> pending a (nextCandidate a w st)"
    using Cons.prems by (intro Cons.IH) fastforce+
  also have "\<dots> \<le> pending a st" using Cons.prems by (intro pending_nextCandidate) simp_all
  finally show ?case by simp
qed simp

lemma started_pending: "pending a (started a expired first) \<le> 2 * length (targets a)"
proof -
  have "sum_list (map weight (replicate n Finished)) = 0" for n
    by (induction n) (simp_all add: weight_def)
  then have "pending a (initialState a expired first) = 2 * length (targets a)"
    by (simp add: pending_def initialState_def del: map_replicate)
  moreover have "pending a (started a expired first) \<le> pending a (initialState a expired first)"
    unfolding started_def by (rule start_pending) (simp_all add: initialState_def)
  ultimately show ?thesis by simp
qed

text \<open>A worker that has not returned awaits an event that has an effect.\<close>

lemma not_stuck:
  assumes "engineInv a st" "\<not> list_all (\<lambda>x. x = Finished) (workers st)"
  shows "\<exists>e. engineStep a st e \<noteq> st"
proof -
  obtain w where w: "w < length (workers st)" "workers st ! w \<noteq> Finished"
    using assms(2) by (auto simp: list_all_length)
  show ?thesis
  proof (cases "workers st ! w")
    case (Checking i)
    have "engineStep a st (Checked w (Inr False) False 0) =
        setWorker w Finished (st\<lparr>isStale := True, stopped := Some StaleSnapshot\<rparr>)"
      using w(1) by (simp add: Checking onChecked_def)
    then have "workers (engineStep a st (Checked w (Inr False) False 0)) ! w = Finished"
      using w(1) by (simp add: setWorker_def)
    then show ?thesis using w(2) by metis
  next
    case (Evaluating i)
    have "usage_complete (engineStep a st (Answered w (Inl HostUnavailable))) = False \<and>
        workers (engineStep a st (Answered w (Inl HostUnavailable))) ! w \<noteq> Evaluating i"
      using w(1) assms(1)
      by (auto simp: Evaluating onAnswered_def failed_def record_slot_def nextCandidate_def setWorker_def Let_def)
    then show ?thesis using Evaluating by metis
  qed (use w in simp)
qed

section \<open>Where judgments come from\<close>

definition slotsFrom :: "Analysis \<Rightarrow> Event set \<Rightarrow> EngineState \<Rightarrow> bool" where
  "slotsFrom a es st \<longleftrightarrow>
     (\<forall>i<length (slots st). \<forall>j. slots st ! i = Some j \<longrightarrow> (\<exists>e\<in>es. \<exists>w. answerOf a e w i j))"

lemma slotsFrom_step:
  assumes "engineInv a st" "slotsFrom a es st"
  shows "slotsFrom a (insert e es) (engineStep a st e)"
proof -
  have parts: "budgetInv a st" "slotInv a st" using assms(1) by (simp_all add: engineInv_def)
  have keep: "slotsFrom a (insert e es) st'" if "slots st' = slots st" for st'
    using assms(2) that by (auto simp: slotsFrom_def)
  have rel: "slotsFrom a (insert e es) st'" if r: "released a e w st st'" for w st'
  proof (cases "slots st' = slots st")
    case False
    then obtain i j where "answerOf a e w i j" "slots st' = (slots st)[i := Some j]"
      using r unfolding released_def by blast
    moreover have "(slots st)[i := Some j] ! k = (if k = i then Some j else slots st ! k)"
      if "k < length (slots st)" for k
      using that by (cases "k = i") simp_all
    ultimately show ?thesis
      using assms(2) by (auto simp: slotsFrom_def split: if_splits)
  qed (rule keep)
  from parts show ?thesis
  proof (cases rule: engineStep_cases [of a st e])
    case (continued w st')
    then show ?thesis using rel [OF continued(1)] by (simp add: slotsFrom_def)
  qed (use keep rel in \<open>auto simp: engine_ops\<close>)
qed

lemma slotsFrom_run:
  assumes "engineInv a st" "slotsFrom a es st"
  shows "slotsFrom a (set events \<union> es) (foldl (engineStep a) st events)"
  using assms
proof (induction events arbitrary: st es)
  case (Cons e events)
  have "slotsFrom a (set events \<union> insert e es) (foldl (engineStep a) (engineStep a st e) events)"
    using Cons.prems engineStep_inv slotsFrom_step by (intro Cons.IH) blast+
  then show ?case by simp
qed simp

lemma started_slots: "slots (started a expired first) = replicate (length (targets a)) None"
proof -
  have "slots (foldl (\<lambda>st w. nextCandidate a w st) st ws) = slots st" for st and ws :: "nat list"
    by (induction ws arbitrary: st) simp_all
  then show ?thesis by (simp add: started_def initialState_def)
qed

lemma lastCheck_slots [simp]: "slots (lastCheck hosted outcome st) = slots st"
  by (simp add: lastCheck_def split: sum.split)

text \<open>A judgment of the report that is not unknown was read from the answer to a request.\<close>

lemma result_origin:
  assumes "st = foldl (engineStep a) (started a expired first) events"
    and "j \<in> set (results a (lastCheck hosted final st))" "judged_effect j \<noteq> UnknownEffect"
  shows "\<not> isStale (lastCheck hosted final st) \<and>
    (\<exists>w raw t. Answered w (Inr raw) \<in> set events \<and> t \<in> set (targets a) \<and>
       j = result_judgment (readJudgment raw t (policy a)))"
proof -
  let ?st = "lastCheck hosted final st"
  have inv: "engineInv a st" using engine_run_inv by (simp add: assms(1))
  have len: "length (slots st) = length (targets a)" using inv by (simp add: engineInv_def slotInv_def)
  from assms(2,3) obtain i where i: "i < length (targets a)" "slots st ! i = Some j" "\<not> isStale ?st"
    by (auto simp: results_def Let_def unknownJudgment_def split: if_splits option.splits)
  have "slotsFrom a (set events \<union> {}) st"
    unfolding assms(1) by (rule slotsFrom_run [OF started_inv]) (simp add: slotsFrom_def started_slots)
  then obtain e w where "e \<in> set events" "answerOf a e w i j"
    using i len unfolding slotsFrom_def by fastforce
  then show ?thesis using assms(3) i unfolding answerOf_def by (metis nth_mem)
qed

lemma results_targets: "map judged_target (results a (lastCheck hosted final
    (foldl (engineStep a) (started a expired first) events))) = targets a"
proof -
  let ?run = "foldl (engineStep a) (started a expired first) events"
  have "slotsFrom a (set events \<union> {}) ?run"
    by (rule slotsFrom_run [OF started_inv]) (simp add: slotsFrom_def started_slots)
  moreover have "length (slots ?run) = length (targets a)"
    using engine_run_inv [of a expired first events] by (simp add: engineInv_def slotInv_def)
  ultimately have "judged_target j = targets a ! i"
    if "i < length (targets a)" "slots ?run ! i = Some j" for i j
    using that unfolding slotsFrom_def answerOf_def by fastforce
  then have "map judged_target (results a (lastCheck hosted final ?run)) =
      map (\<lambda>i. targets a ! i) [0 ..< length (targets a)]"
    by (auto simp: results_def Let_def unknownJudgment_def split: option.split)
  then show ?thesis by (simp only: map_nth)
qed

section \<open>Properties\<close>

text \<open>C29: whatever the interleaving of the workers and whatever the host answers, the analysis
  never starts more requests, sends more bytes or keeps more requests in flight than its
  budget grants.\<close>

theorem budget_never_overbooked:
  "let st = foldl (engineStep a) (started a expired first) events
   in requests_started st \<le> budget_requests a \<and> request_bytes st \<le> budget_total_bytes a \<and>
      in_flight st \<le> max_in_flight st \<and> max_in_flight st \<le> budget_concurrency a \<and>
      questions_started st = 5 * requests_started st"
  using engine_run_inv [of a expired first events]
  by (simp add: Let_def engineInv_def budgetInv_def)

text \<open>C30: an analysis ends.  At most two events per candidate have an effect, and until every
  worker has returned there is an event that has one.\<close>

theorem analysis_ends:
  "effective a (started a expired first) events \<le> 2 * length (targets a) \<and>
   (list_all (\<lambda>x. x = Finished) (workers (foldl (engineStep a) (started a expired first) events)) \<or>
    (\<exists>e. engineStep a (foldl (engineStep a) (started a expired first) events) e \<noteq>
       foldl (engineStep a) (started a expired first) events))"
  using effective_bound [OF started_inv, of a expired first events] started_pending [of a expired first]
    not_stuck [OF engine_run_inv, of a expired first events] by fastforce

lemma analyzeChange_finished:
  assumes "analyzeChange rawSnapshot rawChange rawLimits rawThresholds expired first events final =
    Some (Inr report)"
  obtains a s c st where "st = foldl (engineStep a) (started a expired first) events"
    "thresholds rawThresholds = Inr (policy a)" "targets a = target_ids c"
    "validatedInput rawSnapshot rawChange = Inr (s, c)"
    "finishReport s c a (lastCheck (first \<noteq> None) final st) = Inr report"
proof -
  obtain s c budget thr where v: "validatedInput rawSnapshot rawChange = Inr (s, c)"
    and t: "thresholds rawThresholds = Inr thr"
    and f: "finishReport s c (analysisOf c budget thr) (lastCheck (first \<noteq> None) final
      (foldl (engineStep (analysisOf c budget thr)) (started (analysisOf c budget thr) expired first) events)) =
      Inr report"
    using assms
    by (auto simp: analyzeChange_def result_simps Let_def split: sum.splits prod.splits if_splits)
  have "policy (analysisOf c budget thr) = thr" "targets (analysisOf c budget thr) = target_ids c"
    by (simp_all add: analysisOf_def)
  then show thesis using v t f by (intro that [OF refl]) simp_all
qed

text \<open>C31: a report judges exactly the nominated targets in their order.  A judgment that is not
  unknown was read, under the validated thresholds, from an answer the host gave during the
  run, and none is kept once the snapshot is known to be stale.\<close>

theorem conclusions_have_answers:
  assumes "analyzeChange rawSnapshot rawChange rawLimits rawThresholds expired first events final =
    Some (Inr report)"
  shows "(\<exists>s c. validatedInput rawSnapshot rawChange = Inr (s, c) \<and>
      map judged_target (judgments report) = target_ids c) \<and>
    (report_status report = Complete \<longleftrightarrow> report_status report \<noteq> Stale \<and>
      (\<forall>j\<in>set (judgments report). judged_effect j \<noteq> UnknownEffect)) \<and>
    (\<forall>j\<in>set (judgments report). judged_effect j \<noteq> UnknownEffect \<longrightarrow>
      report_status report \<noteq> Stale \<and>
      (\<exists>w answer thr. Answered w (Inr answer) \<in> set events \<and> thresholds rawThresholds = Inr thr \<and>
         j = result_judgment (readJudgment answer (judged_target j) thr)))"
proof -
  obtain a s c st where st: "st = foldl (engineStep a) (started a expired first) events"
    and thr: "thresholds rawThresholds = Inr (policy a)" and t: "targets a = target_ids c"
    and v: "validatedInput rawSnapshot rawChange = Inr (s, c)"
    and fin: "finishReport s c a (lastCheck (first \<noteq> None) final st) = Inr report"
    using assms by (rule analyzeChange_finished)
  let ?st = "lastCheck (first \<noteq> None) final st"
  have js: "judgments report = results a ?st"
    and status: "report_status report = (if isStale ?st then Stale
      else if \<exists>j\<in>set (results a ?st). judged_effect j = UnknownEffect then Incomplete else Complete)"
    using fin by (auto simp: finishReport_def result_simps)
  have "report_status report \<noteq> Stale \<and>
      (\<exists>w answer thr. Answered w (Inr answer) \<in> set events \<and> thresholds rawThresholds = Inr thr \<and>
         j = result_judgment (readJudgment answer (judged_target j) thr))"
    if j: "j \<in> set (judgments report)" "judged_effect j \<noteq> UnknownEffect" for j
  proof -
    obtain w raw t where o: "\<not> isStale ?st" "Answered w (Inr raw) \<in> set events"
        "j = result_judgment (readJudgment raw t (policy a))"
      using result_origin [OF st, of j "first \<noteq> None" final] j unfolding js by blast
    then have "judged_target j = t" by simp
    with o have "\<exists>w answer thr. Answered w (Inr answer) \<in> set events \<and> thresholds rawThresholds = Inr thr \<and>
        j = result_judgment (readJudgment answer (judged_target j) thr)"
      using thr by metis
    then show ?thesis using o(1) by (simp add: status)
  qed
  moreover have "map judged_target (judgments report) = target_ids c"
    using results_targets by (simp add: js st t)
  ultimately show ?thesis using v by (auto simp: js status)
qed

definition demoLimits :: "(string \<times> js) list" where
  "demoLimits = [(''max_request_bytes'', Num 90), (''max_total_request_bytes'', Num 90)]"

definition demoThresholds :: "(string \<times> js) list" where
  "demoThresholds = [(''evidence_min'', Num (3 / 4)), (''applicability_min'', Num (3 / 4)),
     (''relation_probability_min'', Num (3 / 4)), (''counterevidence_max'', Num (1 / 4))]"

definition demoEvents :: "Event list" where
  "demoEvents = [Checked 0 (Inr True) False 80, Answered 0 (Inr demoResponse)]"

lemma demo_run:
  "\<exists>report. analyzeChange demoSnapshot demoChange demoLimits demoThresholds False (Some (Inr True))
      demoEvents (Inr True) = Some (Inr report) \<and> report_status report = Complete \<and>
    map judged_effect (judgments report) = [NeedsRevalidation]"
proof -
  let ?run = "analyzeChange demoSnapshot demoChange demoLimits demoThresholds False (Some (Inr True))
      demoEvents (Inr True)"
  have "map_option (map_sum (\<lambda>e. ()) (\<lambda>r. (report_status r, map judged_effect (judgments r)))) ?run =
      Some (Inr (Complete, [NeedsRevalidation]))"
    by code_simp
  then obtain r where "?run = Some r"
      "map_sum (\<lambda>e. ()) (\<lambda>r. (report_status r, map judged_effect (judgments r))) r =
        Inr (Complete, [NeedsRevalidation])"
    by (auto simp only: map_option_eq_Some)
  then show ?thesis by (cases r) auto
qed

theorem conclusions_have_answers_witness:
  "\<exists>report w answer. analyzeChange demoSnapshot demoChange demoLimits demoThresholds False
      (Some (Inr True)) demoEvents (Inr True) = Some (Inr report) \<and>
    Answered w (Inr answer) \<in> set demoEvents"
proof -
  obtain report where r: "analyzeChange demoSnapshot demoChange demoLimits demoThresholds False
      (Some (Inr True)) demoEvents (Inr True) = Some (Inr report)"
    "report_status report = Complete" "map judged_effect (judgments report) = [NeedsRevalidation]"
    using demo_run by (elim exE conjE)
  from r(3) have "NeedsRevalidation \<in> judged_effect ` set (judgments report)"
    by (metis image_set list.set_intros(1))
  then obtain j where j: "j \<in> set (judgments report)" "judged_effect j \<noteq> UnknownEffect"
    by (metis Effect.distinct(3) imageE)
  have all: "\<forall>j\<in>set (judgments report). judged_effect j \<noteq> UnknownEffect \<longrightarrow>
      report_status report \<noteq> Stale \<and>
      (\<exists>w answer thr. Answered w (Inr answer) \<in> set demoEvents \<and> thresholds demoThresholds = Inr thr \<and>
         j = result_judgment (readJudgment answer (judged_target j) thr))"
    using conclusions_have_answers [OF r(1)] by (elim conjE) assumption
  obtain w answer where "Answered w (Inr answer) \<in> set demoEvents"
    using bspec [OF all j(1), rule_format, OF j(2)] by (elim conjE exE)
  with r(1) show ?thesis by (intro exI conjI)
qed

end
