(* ===== verification/Uid_Set.thy ===== *)
theory Uid_Set
  imports Kizuki_Prelude "HOL-Library.Product_Lexorder"
begin

text \<open>
  \<open>packages/connector-imap/src/uidset.ts\<close>: the sets of message numbers a mail folder's
  cursor carries, as ranges and on the wire.

  The numbers are below \<open>2 ^ 32\<close>, where the language's arithmetic is exact, so they are
  integers.  The list under construction in \<open>normalize\<close> is kept reversed, its last
  element first.  A generator is the list of what it yields.
\<close>

record UidRange =
  first :: int
  last_uid :: int

datatype SetError = MalformedNumber | OutOfRange | MalformedRange | BadChunkSize

definition UID_MAX :: int where "UID_MAX = 4294967295"

definition isUid :: "int \<Rightarrow> bool" where
  "isUid n \<longleftrightarrow> 1 \<le> n \<and> n \<le> UID_MAX"

definition parseNumber :: "string \<Rightarrow> SetError + int" where
  "parseNumber raw =
     guard (raw \<noteq> [] \<and> list_all isDigit raw) MalformedNumber
       (guard (isUid (int (digitsVal raw))) OutOfRange (Inr (int (digitsVal raw))))"

definition ordered :: "UidRange \<Rightarrow> UidRange" where
  "ordered r = (if first r \<le> last_uid r then r else \<lparr>first = last_uid r, last_uid = first r\<rparr>)"

fun coalesce :: "UidRange list \<Rightarrow> UidRange list \<Rightarrow> UidRange list" where
  "coalesce merged [] = rev merged"
| "coalesce [] (r # rs) = coalesce [r] rs"
| "coalesce (p # merged) (r # rs) =
     (if first r \<le> last_uid p + 1
      then coalesce (p\<lparr>last_uid := max (last_uid p) (last_uid r)\<rparr> # merged) rs
      else coalesce (r # p # merged) rs)"

definition normalize :: "UidRange list \<Rightarrow> UidRange list" where
  "normalize ranges = coalesce [] (sort_key (\<lambda>r. (first r, last_uid r)) (map ordered ranges))"

definition parsePiece :: "string \<Rightarrow> SetError + UidRange" where
  "parsePiece piece =
     (case split_on (CHR '':'') piece of
        [only] \<Rightarrow> andThen (parseNumber only) (\<lambda>n. Inr \<lparr>first = n, last_uid = n\<rparr>)
      | [low, high] \<Rightarrow>
          andThen (parseNumber low) (\<lambda>a. andThen (parseNumber high) (\<lambda>b.
            Inr \<lparr>first = a, last_uid = b\<rparr>))
      | _ \<Rightarrow> Inl MalformedRange)"

definition parseSet :: "string \<Rightarrow> SetError + UidRange list" where
  "parseSet text =
     (if text = [] then Inr []
      else andThen (foldM (\<lambda>ranges piece. andThen (parsePiece piece) (\<lambda>r. Inr (ranges @ [r])))
             [] (split_on (CHR '','') text))
           (\<lambda>ranges. Inr (normalize ranges)))"

text \<open>\<open>String(n)\<close> for an integer.\<close>

definition showInt :: "int \<Rightarrow> string" where
  "showInt n = (if n < 0 then CHR ''-'' # decimal (nat (- n)) else decimal (nat n))"

definition formatRange :: "UidRange \<Rightarrow> string" where
  "formatRange r =
     (if first r = last_uid r then showInt (first r)
      else showInt (first r) @ '':'' @ showInt (last_uid r))"

definition formatSet :: "UidRange list \<Rightarrow> string" where
  "formatSet ranges = join_with '','' (map formatRange (normalize ranges))"

definition addUid :: "UidRange list \<Rightarrow> int \<Rightarrow> SetError + UidRange list" where
  "addUid ranges uid =
     guard (isUid uid) OutOfRange (Inr (normalize (ranges @ [\<lparr>first = uid, last_uid = uid\<rparr>])))"

definition addUids :: "UidRange list \<Rightarrow> int list \<Rightarrow> SetError + UidRange list" where
  "addUids ranges added =
     guard (list_all isUid added) OutOfRange
       (Inr (normalize (ranges @ map (\<lambda>uid. \<lparr>first = uid, last_uid = uid\<rparr>) added)))"

definition without :: "int \<Rightarrow> UidRange \<Rightarrow> UidRange list" where
  "without uid r =
     (if uid < first r \<or> uid > last_uid r then [r]
      else (if uid > first r then [\<lparr>first = first r, last_uid = uid - 1\<rparr>] else []) @
           (if uid < last_uid r then [\<lparr>first = uid + 1, last_uid = last_uid r\<rparr>] else []))"

definition removeUid :: "UidRange list \<Rightarrow> int \<Rightarrow> UidRange list" where
  "removeUid ranges uid = concat (map (without uid) (normalize ranges))"

definition countUids :: "UidRange list \<Rightarrow> int" where
  "countUids ranges = foldl (\<lambda>total r. total + (last_uid r - first r + 1)) 0 (normalize ranges)"

definition uids :: "UidRange list \<Rightarrow> int list" where
  "uids ranges = concat (map (\<lambda>r. [first r .. last_uid r]) (normalize ranges))"

text \<open>The inner loop of \<open>chunk\<close>: the open piece, its size and the pieces yielded so far.\<close>

type_synonym chunks = "UidRange list \<times> int \<times> UidRange list list"

partial_function (option) cut :: "int \<Rightarrow> int \<Rightarrow> int \<Rightarrow> chunks \<Rightarrow> chunks option" where
  "cut limit start stop st =
     (if start > stop then Some st
      else
        (case st of (current, held, out) \<Rightarrow>
           let room = limit - held;
               end_uid = min stop (start + room - 1);
               current' = current @ [\<lparr>first = start, last_uid = end_uid\<rparr>];
               held' = held + (end_uid - start + 1)
           in cut limit (end_uid + 1) stop
                (if held' = limit then ([], 0, out @ [current']) else (current', held', out))))"

declare cut.simps [code]

fun cutAll :: "int \<Rightarrow> UidRange list \<Rightarrow> chunks \<Rightarrow> chunks option" where
  "cutAll limit [] st = Some st"
| "cutAll limit (r # rs) st = Option.bind (cut limit (first r) (last_uid r) st) (cutAll limit rs)"

definition chunkRanges :: "UidRange list \<Rightarrow> int \<Rightarrow> UidRange list list option" where
  "chunkRanges ranges limit =
     Option.bind (cutAll limit (normalize ranges) ([], 0, [])) (\<lambda>(current, held, out).
       Some (if current \<noteq> [] then out @ [current] else out))"

definition chunk :: "UidRange list \<Rightarrow> int \<Rightarrow> (SetError + string list) option" where
  "chunk ranges limit =
     (if limit < 1 then Some (Inl BadChunkSize)
      else Option.bind (chunkRanges ranges limit) (\<lambda>pieces. Some (Inr (map formatSet pieces))))"

section \<open>Sets and their one form\<close>

definition members :: "UidRange list \<Rightarrow> int set" where
  "members rs = (\<Union>r\<in>set rs. {min (first r) (last_uid r) .. max (first r) (last_uid r)})"

definition canonical :: "UidRange list \<Rightarrow> bool" where
  "canonical rs \<longleftrightarrow>
     list_all (\<lambda>r. first r \<le> last_uid r) rs \<and>
     sorted_wrt (\<lambda>a b. last_uid a + 1 < first b) rs"

lemma members_simps [simp]:
  "members [] = {}"
  "members (r # rs) = {min (first r) (last_uid r) .. max (first r) (last_uid r)} \<union> members rs"
  "members (xs @ ys) = members xs \<union> members ys"
  by (auto simp: members_def)

lemma members_ordered [simp]: "members (map ordered rs) = members rs"
  by (induction rs) (simp_all add: ordered_def min_def max_def)

lemma members_cong_set: "set xs = set ys \<Longrightarrow> members xs = members ys"
  by (simp add: members_def)

lemma canonical_snoc:
  "canonical (xs @ [r]) \<longleftrightarrow> canonical xs \<and> first r \<le> last_uid r \<and> (\<forall>a\<in>set xs. last_uid a + 1 < first r)"
  by (auto simp: canonical_def sorted_wrt_append)

lemma coalesce_facts:
  assumes "canonical (rev merged)" "list_all (\<lambda>r. first r \<le> last_uid r) rs"
    and "sorted (map first rs)" "\<forall>r\<in>set rs. \<forall>p\<in>set merged. first p \<le> first r"
  shows "canonical (coalesce merged rs) \<and> members (coalesce merged rs) = members merged \<union> members rs"
  using assms
proof (induction merged rs rule: coalesce.induct)
  case (1 merged)
  then show ?case by (simp add: members_cong_set [of "rev merged" merged])
next
  case (2 r rs)
  have "canonical (rev [r])" using 2(3) by (simp add: canonical_def)
  then show ?case using 2(1) 2(3,4) by auto
next
  case (3 p merged r rs)
  have p: "first p \<le> last_uid p" "canonical (rev merged)" "\<forall>a\<in>set merged. last_uid a + 1 < first p"
    using 3(3) by (auto simp: canonical_snoc)
  have r: "first r \<le> last_uid r" "first p \<le> first r" using 3(4,6) by simp_all
  show ?case
  proof (cases "first r \<le> last_uid p + 1")
    case True
    have "canonical (rev (p\<lparr>last_uid := max (last_uid p) (last_uid r)\<rparr> # merged))"
      using p r by (auto simp: canonical_snoc)
    then have "canonical (coalesce (p # merged) (r # rs)) \<and> members (coalesce (p # merged) (r # rs)) =
        members (p\<lparr>last_uid := max (last_uid p) (last_uid r)\<rparr> # merged) \<union> members rs"
      using 3(1) [OF True] 3(4-6) True by auto
    moreover have "{first p .. max (last_uid p) (last_uid r)} =
        {first p .. last_uid p} \<union> {first r .. last_uid r}"
      using True p(1) r by auto
    ultimately show ?thesis using p(1) r by (auto simp: min_def max_def)
  next
    case False
    have "canonical (rev (r # p # merged))" using False 3(3) p r unfolding rev.simps(2) canonical_snoc by auto
    then show ?thesis using 3(2) [OF False] 3(4-6) False r by auto
  qed
qed

lemma normalize_facts: "canonical (normalize rs)" "members (normalize rs) = members rs"
proof -
  let ?s = "sort_key (\<lambda>r. (first r, last_uid r)) (map ordered rs)"
  have "list_all (\<lambda>r. first r \<le> last_uid r) ?s" by (auto simp: list_all_iff ordered_def)
  moreover have "sorted (map first ?s)"
  proof -
    have "sorted (map (\<lambda>r. (first r, last_uid r)) ?s)" by (rule sorted_sort_key)
    then show ?thesis unfolding sorted_map by (rule sorted_wrt_mono_rel [rotated]) (auto simp: less_eq_prod_def)
  qed
  ultimately have "canonical (normalize rs) \<and> members (normalize rs) = members [] \<union> members ?s"
    unfolding normalize_def by (intro coalesce_facts) (simp_all add: canonical_def)
  then show "canonical (normalize rs)" "members (normalize rs) = members rs"
    using members_cong_set [of ?s "map ordered rs"] by simp_all
qed

lemma canonical_bound:
  assumes "canonical (r # rs)" "x \<in> members rs"
  shows "last_uid r + 1 < x"
proof -
  from assms(2) obtain q where "q \<in> set rs" "min (first q) (last_uid q) \<le> x" by (auto simp: members_def)
  then show ?thesis using assms(1) by (fastforce simp: canonical_def list_all_iff)
qed

lemma canonical_tail: "canonical (r # rs) \<Longrightarrow> canonical rs"
  by (simp add: canonical_def)

lemma canonical_head_le:
  assumes "canonical (a # xs)" "canonical (b # ys)" "members (a # xs) \<subseteq> members (b # ys)"
  shows "first b \<le> first a"
proof -
  have a: "first a \<le> last_uid a" and b: "first b \<le> last_uid b" using assms by (simp_all add: canonical_def)
  then have "first a \<in> members (b # ys)" using assms(3) by auto
  then show ?thesis using canonical_bound [OF assms(2)] b by fastforce
qed

lemma canonical_head_last:
  assumes "canonical (a # xs)" "canonical (b # ys)" "members (b # ys) \<subseteq> members (a # xs)"
    and "first a = first b"
  shows "last_uid b \<le> last_uid a"
proof (rule ccontr)
  assume "\<not> ?thesis"
  moreover have "first a \<le> last_uid a" using assms(1) by (simp add: canonical_def)
  ultimately have "last_uid a + 1 \<in> members (b # ys)" using assms(4) by auto
  then have "last_uid a + 1 \<in> members (a # xs)" using assms(3) by blast
  then show False using canonical_bound [OF assms(1), of "last_uid a + 1"] \<open>first a \<le> last_uid a\<close> by auto
qed

lemma canonical_unique:
  "canonical xs \<Longrightarrow> canonical ys \<Longrightarrow> members xs = members ys \<Longrightarrow> xs = ys"
proof (induction xs arbitrary: ys)
  case Nil
  then show ?case by (cases ys) (auto simp: canonical_def)
next
  case (Cons a xs)
  then obtain b zs where ys: "ys = b # zs" by (cases ys) (auto simp: canonical_def)
  have le: "first a \<le> last_uid a" "first b \<le> last_uid b"
    using Cons.prems by (simp_all add: canonical_def ys)
  have f: "first a = first b"
    using canonical_head_le [of a xs b zs] canonical_head_le [of b zs a xs] Cons.prems
    unfolding ys by (metis order_antisym subset_refl)
  moreover have l: "last_uid a = last_uid b"
    using canonical_head_last [of a xs b zs] canonical_head_last [of b zs a xs] Cons.prems f
    unfolding ys by (metis order_antisym subset_refl)
  moreover have "members xs = members zs"
  proof -
    have split: "members qs = members (q # qs) - {first q .. last_uid q}" if "canonical (q # qs)" for q qs
      using canonical_bound [OF that] that by (fastforce simp: canonical_def)
    show ?thesis
      using split [of a xs] split [of b zs] Cons.prems f l by (simp only: ys)
  qed
  ultimately show ?case
    using Cons.IH [of zs] Cons.prems canonical_tail by (auto simp: ys)
qed

lemma normalize_canonical [simp]: "canonical rs \<Longrightarrow> normalize rs = rs"
  by (rule canonical_unique) (simp_all add: normalize_facts)

section \<open>On the wire\<close>

definition valid :: "UidRange \<Rightarrow> bool" where
  "valid r \<longleftrightarrow> isUid (first r) \<and> isUid (last_uid r)"

lemma valid_members: "list_all valid rs \<longleftrightarrow> (\<forall>n\<in>members rs. isUid n)"
proof (induction rs)
  case (Cons r rs)
  have "valid r \<longleftrightarrow> (\<forall>n\<in>{min (first r) (last_uid r) .. max (first r) (last_uid r)}. isUid n)"
    by (auto simp: valid_def isUid_def min_def max_def split: if_splits)
  then show ?case using Cons by auto
qed simp

lemma valid_normalize: "list_all valid rs \<Longrightarrow> list_all valid (normalize rs)"
  by (simp add: valid_members normalize_facts)

lemma showInt_digits:
  assumes "0 \<le> n"
  shows "showInt n \<noteq> []" "list_all isDigit (showInt n)" "int (digitsVal (showInt n)) = n"
  using assms isDigit_decimal by (auto simp: showInt_def list_all_iff)

lemma parseNumber_showInt: "isUid n \<Longrightarrow> parseNumber (showInt n) = Inr n"
  using showInt_digits [of n] by (simp add: parseNumber_def guard_def isUid_def)

lemma showInt_plain:
  assumes "isUid n"
  shows "CHR '':'' \<notin> set (showInt n)" "CHR '','' \<notin> set (showInt n)"
  using showInt_digits(2) [of n] assms
  by (auto simp: list_all_iff isUid_def isDigit_iff)

lemma parsePiece_formatRange:
  assumes "valid r"
  shows "parsePiece (formatRange r) = Inr r" "CHR '','' \<notin> set (formatRange r)" "formatRange r \<noteq> []"
proof -
  have v: "isUid (first r)" "isUid (last_uid r)" using assms by (simp_all add: valid_def)
  have one: "split_on (CHR '':'') (showInt n) = [showInt n]" if "isUid n" for n
    using showInt_plain(1) [OF that] by (intro split_by_none) auto
  have two: "split_on (CHR '':'') (showInt (first r) @ '':'' @ showInt (last_uid r)) =
      [showInt (first r), showInt (last_uid r)]"
    using split_by_append_sep [of "\<lambda>x. x = CHR '':''" "CHR '':''" "showInt (first r)" "showInt (last_uid r)"]
      showInt_plain(1) [OF v(1)] one [OF v(2)] by auto
  show "parsePiece (formatRange r) = Inr r"
    using one [OF v(1)] two v
    by (auto simp: parsePiece_def formatRange_def parseNumber_showInt simp del: split_by.simps)
  show "CHR '','' \<notin> set (formatRange r)" using showInt_plain(2) v by (simp add: formatRange_def)
  show "formatRange r \<noteq> []"
    using showInt_digits(1) [of "first r"] v(1) by (auto simp: formatRange_def isUid_def)
qed

lemma parse_pieces:
  assumes "list_all valid rs"
  shows "foldM (\<lambda>ranges piece. andThen (parsePiece piece) (\<lambda>r. Inr (ranges @ [r]))) acc
    (map formatRange rs) = Inr (acc @ rs)"
  using assms by (induction rs arbitrary: acc) (simp_all add: parsePiece_formatRange)

lemma parse_format:
  assumes "list_all valid rs"
  shows "parseSet (formatSet rs) = Inr (normalize rs)"
proof (cases "normalize rs = []")
  case True
  then show ?thesis by (simp add: formatSet_def parseSet_def)
next
  case False
  let ?ws = "map formatRange (normalize rs)"
  have v: "list_all valid (normalize rs)" using assms by (rule valid_normalize)
  then have "split_on (CHR '','') (join_with '','' ?ws) = ?ws"
    using False parsePiece_formatRange(2) by (intro split_join) (auto simp: list_all_iff)
  moreover have "join_with '','' ?ws \<noteq> []"
  proof
    assume "join_with '','' ?ws = []"
    with calculation have "?ws = [[]]" by simp
    then show False using v parsePiece_formatRange(3) by (cases "normalize rs") auto
  qed
  ultimately show ?thesis
    using parse_pieces [OF v, of "[]"] by (simp add: parseSet_def formatSet_def normalize_facts)
qed

lemma formatSet_cong: "members rs = members ss \<Longrightarrow> formatSet rs = formatSet ss"
proof -
  assume "members rs = members ss"
  then have "normalize rs = normalize ss"
    by (intro canonical_unique) (simp_all add: normalize_facts)
  then show ?thesis by (simp add: formatSet_def)
qed

section \<open>Operations\<close>

lemma add_members:
  "addUids rs added = Inr rs' \<Longrightarrow> members rs' = members rs \<union> set added \<and> canonical rs'"
proof -
  have "members (map (\<lambda>uid. \<lparr>first = uid, last_uid = uid\<rparr>) added) = set added"
    by (induction added) simp_all
  then show "addUids rs added = Inr rs' \<Longrightarrow> ?thesis"
    by (auto simp: addUids_def result_simps normalize_facts)
qed

lemma without_facts:
  assumes "first r \<le> last_uid r"
  shows "members (without uid r) = {first r .. last_uid r} - {uid}"
    "list_all (\<lambda>q. first q \<le> last_uid q \<and> first r \<le> first q \<and> last_uid q \<le> last_uid r) (without uid r)"
    "sorted_wrt (\<lambda>a b. last_uid a + 1 < first b) (without uid r)"
  using assms by (auto simp: without_def)

lemma remove_canonical:
  assumes "canonical rs"
  shows "canonical (concat (map (without uid) rs)) \<and>
    members (concat (map (without uid) rs)) = members rs - {uid}"
  using assms
proof (induction rs)
  case (Cons r rs)
  have le: "first r \<le> last_uid r" using Cons.prems by (simp add: canonical_def)
  note w = without_facts [OF le, of uid]
  have IH: "canonical (concat (map (without uid) rs))"
      "members (concat (map (without uid) rs)) = members rs - {uid}"
    using Cons.IH canonical_tail [OF Cons.prems] by blast+
  have "last_uid a + 1 < first b" if "a \<in> set (without uid r)" "b \<in> set (concat (map (without uid) rs))" for a b
  proof -
    have "last_uid a \<le> last_uid r" using w(2) that(1) by (simp add: list_all_iff)
    moreover have "first b \<in> members (concat (map (without uid) rs))"
      using that(2) by (force simp: members_def)
    then have "last_uid r + 1 < first b" using IH(2) canonical_bound [OF Cons.prems] by auto
    ultimately show ?thesis by simp
  qed
  then have "canonical (concat (map (without uid) (r # rs)))"
    using IH(1) w by (auto simp: canonical_def sorted_wrt_append list_all_iff)
  moreover have "uid \<notin> {first r .. last_uid r} \<or> uid \<notin> members rs"
    using canonical_bound [OF Cons.prems] by fastforce
  ultimately show ?case using IH(2) w(1) le by auto
qed (simp add: canonical_def)

lemma sum_up: "foldl (\<lambda>total r. total + f r) (n :: int) rs = n + (\<Sum>r\<leftarrow>rs. f r)"
  by (induction rs arbitrary: n) simp_all

lemma finite_members [simp]: "finite (members rs)"
  by (simp add: members_def)

lemma canonical_card:
  "canonical rs \<Longrightarrow> (\<Sum>r\<leftarrow>rs. last_uid r - first r + 1) = int (card (members rs))"
proof (induction rs)
  case (Cons r rs)
  have "{first r .. last_uid r} \<inter> members rs = {}"
    using canonical_bound [OF Cons.prems] by fastforce
  then have "card ({first r .. last_uid r} \<union> members rs) = card {first r .. last_uid r} + card (members rs)"
    by (intro card_Un_disjoint) simp_all
  then show ?case using Cons canonical_tail [OF Cons.prems] by (simp add: canonical_def)
qed simp

section \<open>Chunks\<close>

definition total :: "UidRange list \<Rightarrow> int" where
  "total rs = (\<Sum>r\<leftarrow>rs. last_uid r - first r + 1)"

definition listed :: "UidRange list \<Rightarrow> int list" where
  "listed rs = concat (map (\<lambda>r. [first r .. last_uid r]) rs)"

fun chunkOk :: "int \<Rightarrow> int \<Rightarrow> chunks \<Rightarrow> bool" where
  "chunkOk limit bound (current, held, out) \<longleftrightarrow>
     0 \<le> held \<and> held < limit \<and> held = total current \<and> canonical current \<and>
     list_all (\<lambda>r. last_uid r \<le> bound) current \<and>
     list_all (\<lambda>p. canonical p \<and> p \<noteq> [] \<and> total p \<le> limit) out"

fun content :: "chunks \<Rightarrow> int list" where
  "content (current, held, out) = concat (map listed out) @ listed current"

lemma listed_simps [simp]: "listed [] = []" "listed (xs @ ys) = listed xs @ listed ys"
  "listed [r] = [first r .. last_uid r]"
  by (simp_all add: listed_def)

lemma total_simps [simp]: "total [] = 0" "total (xs @ ys) = total xs + total ys"
  "total [r] = last_uid r - first r + 1"
  by (simp_all add: total_def)

lemma cut_spec:
  assumes "chunkOk limit bound st" "bound + 1 < start"
  shows "\<exists>st'. cut limit start stop st = Some st' \<and> chunkOk limit (max bound stop) st' \<and>
    content st' = content st @ [start .. stop]"
  using assms
proof (induction "nat (stop + 1 - start)" arbitrary: start st rule: less_induct)
  case less
  obtain current held out where st: "st = (current, held, out)" by (cases st)
  show ?case
  proof (cases "start > stop")
    case True
    have "chunkOk limit (max bound stop) st"
      using less.prems(1) by (auto simp: st list_all_iff max_def)
    then show ?thesis using True by (simp add: cut.simps [of limit start stop])
  next
    case False
    let ?upper = "min stop (start + (limit - held) - 1)"
    let ?current = "current @ [\<lparr>first = start, last_uid = ?upper\<rparr>]"
    let ?held = "held + (?upper - start + 1)"
    let ?st = "if ?held = limit then ([], 0, out @ [?current]) else (?current, ?held, out)"
    have room: "start \<le> ?upper" "?upper \<le> stop" "?held \<le> limit" "0 \<le> ?held"
      using less.prems(1) False by (auto simp: st)
    have step: "cut limit start stop st = cut limit (?upper + 1) stop ?st"
      using False by (simp add: cut.simps [of limit start stop] st Let_def)
    have canon: "canonical ?current" "total ?current = ?held"
      using less.prems room by (auto simp: st canonical_snoc list_all_iff)
    have out: "list_all (\<lambda>p. canonical p \<and> p \<noteq> [] \<and> total p \<le> limit) out" "0 < limit"
      using less.prems(1) by (auto simp: st)
    have parts: "[start .. stop] = [start .. ?upper] @ [?upper + 1 .. stop]"
      using room by (intro upto_split2) simp_all
    show ?thesis
    proof (cases "?held = limit")
      case True
      have "chunkOk limit bound ([], 0, out @ [?current])"
        using canon out True by (simp add: canonical_def)
      moreover have "nat (stop + 1 - (?upper + 1)) < nat (stop + 1 - start)"
        using room(1,2) by linarith
      ultimately obtain st' where "cut limit (?upper + 1) stop ([], 0, out @ [?current]) = Some st'"
          "chunkOk limit (max bound stop) st'"
          "content st' = content ([], 0, out @ [?current]) @ [?upper + 1 .. stop]"
        using less.hyps [of "?upper + 1" "([], 0, out @ [?current])"] less.prems(2) room(1) by auto
      then show ?thesis using True parts unfolding step by (auto simp: st)
    next
      case False
      then have "?upper = stop" by (simp add: min_def split: if_splits)
      moreover have "chunkOk limit (max bound stop) (?current, ?held, out)"
        using canon out room False less.prems(1) by (auto simp: st list_all_iff)
      ultimately show ?thesis
        using False unfolding step by (simp add: cut.simps [of limit "stop + 1"] st)
    qed
  qed
qed

lemma cutAll_spec:
  assumes "canonical rs" "chunkOk limit bound st" "\<forall>r\<in>set rs. bound + 1 < first r"
  shows "\<exists>st' b. cutAll limit rs st = Some st' \<and> chunkOk limit b st' \<and>
    content st' = content st @ listed rs"
  using assms
proof (induction rs arbitrary: bound st)
  case (Cons r rs)
  obtain st1 where one: "cut limit (first r) (last_uid r) st = Some st1"
      "chunkOk limit (max bound (last_uid r)) st1" "content st1 = content st @ [first r .. last_uid r]"
    using cut_spec [OF Cons.prems(2), of "first r" "last_uid r"] Cons.prems(3) by auto
  have "max bound (last_uid r) + 1 < first q" if "q \<in> set rs" for q
    using Cons.prems(1,3) that by (auto simp: canonical_def)
  then obtain st' b where "cutAll limit rs st1 = Some st'" "chunkOk limit b st'"
      "content st' = content st1 @ listed rs"
    using Cons.IH [OF canonical_tail [OF Cons.prems(1)] one(2)] by auto
  then show ?case using one by (auto simp: listed_def)
qed auto

lemma chunkRanges_spec:
  assumes "1 \<le> limit"
  shows "\<exists>pieces. chunkRanges rs limit = Some pieces \<and> concat (map listed pieces) = uids rs \<and>
    list_all (\<lambda>p. canonical p \<and> p \<noteq> [] \<and> total p \<le> limit) pieces"
proof -
  have bounded: "\<exists>b. \<forall>r\<in>set qs. b + 1 < first r" for qs :: "UidRange list"
  proof (induction qs)
    case (Cons q qs)
    then obtain b where "\<forall>r\<in>set qs. b + 1 < first r" by blast
    then show ?case by (intro exI [of _ "min b (first q - 2)"]) auto
  qed simp
  obtain b where b: "\<forall>r\<in>set (normalize rs). b + 1 < first r" using bounded by blast
  have "chunkOk limit b ([], 0, [])" using assms by (simp add: canonical_def)
  from cutAll_spec [OF normalize_facts(1) this b] obtain current held out b' where
      c: "cutAll limit (normalize rs) ([], 0, []) = Some (current, held, out)"
      "chunkOk limit b' (current, held, out)"
      "content (current, held, out) = listed (normalize rs)"
    by auto
  then show ?thesis
    by (auto simp: chunkRanges_def uids_def listed_def)
qed

section \<open>Properties\<close>

text \<open>C32: a set of message numbers has one wire form - two lists of ranges with the same
  members are written alike - and reading it back gives the sorted, disjoint, non-adjacent
  ranges with exactly the members that were written.\<close>

theorem wire_form_roundtrip:
  assumes "list_all valid rs"
  shows "parseSet (formatSet rs) = Inr (normalize rs) \<and>
    canonical (normalize rs) \<and> members (normalize rs) = members rs \<and>
    (members ss = members rs \<longrightarrow> formatSet ss = formatSet rs)"
  by (intro conjI impI parse_format assms normalize_facts formatSet_cong)

theorem wire_form_roundtrip_witness:
  "formatSet [\<lparr>first = 3, last_uid = 5\<rparr>, \<lparr>first = 2, last_uid = 1\<rparr>] =
     formatSet [\<lparr>first = 1, last_uid = 5\<rparr>] \<and>
   parseSet (formatSet [\<lparr>first = 1, last_uid = 5\<rparr>]) = Inr [\<lparr>first = 1, last_uid = 5\<rparr>]"
proof -
  have "list_all valid [\<lparr>first = 1, last_uid = 5\<rparr>]" by (simp add: valid_def isUid_def UID_MAX_def)
  moreover have "members [\<lparr>first = 3, last_uid = 5\<rparr>, \<lparr>first = 2, last_uid = 1\<rparr>] =
      members [\<lparr>first = 1, last_uid = 5\<rparr>]"
    by auto
  moreover have "normalize [\<lparr>first = 1, last_uid = 5\<rparr>] = [\<lparr>first = 1, last_uid = 5\<rparr>]"
    by (simp add: canonical_def)
  ultimately show ?thesis using wire_form_roundtrip [of "[\<lparr>first = 1, last_uid = 5\<rparr>]"] by metis
qed

text \<open>C33: adding, removing and counting are those of the set of members, and chunking returns:
  its pieces are the wire forms of non-empty canonical range lists of at most the given
  number of members, which together list every member once and in order.\<close>

theorem set_operations_exact:
  assumes "1 \<le> limit" "list_all isUid added"
  shows "(\<exists>rs'. addUids rs added = Inr rs' \<and> canonical rs' \<and> members rs' = members rs \<union> set added) \<and>
    canonical (removeUid rs uid) \<and> members (removeUid rs uid) = members rs - {uid} \<and>
    countUids rs = int (card (members rs)) \<and>
    (\<exists>pieces. chunk rs limit = Some (Inr (map formatSet pieces)) \<and>
       concat (map listed pieces) = uids rs \<and>
       list_all (\<lambda>p. canonical p \<and> p \<noteq> [] \<and> int (card (members p)) \<le> limit) pieces)"
proof -
  have add: "addUids rs added = Inr (normalize (rs @ map (\<lambda>u. \<lparr>first = u, last_uid = u\<rparr>) added))"
    using assms(2) by (simp add: addUids_def guard_def)
  note remove = remove_canonical [OF normalize_facts(1), of uid rs]
  have cnt: "countUids rs = int (card (members rs))"
    using canonical_card [OF normalize_facts(1), of rs] by (simp add: countUids_def sum_up normalize_facts)
  obtain pieces where p: "chunkRanges rs limit = Some pieces" "concat (map listed pieces) = uids rs"
      "list_all (\<lambda>p. canonical p \<and> p \<noteq> [] \<and> total p \<le> limit) pieces"
    using chunkRanges_spec [OF assms(1)] by blast
  have "list_all (\<lambda>p. canonical p \<and> p \<noteq> [] \<and> int (card (members p)) \<le> limit) pieces"
    using p(3) canonical_card by (auto simp: list_all_iff total_def)
  moreover have "chunk rs limit = Some (Inr (map formatSet pieces))"
    using p(1) assms(1) by (simp add: chunk_def)
  moreover have "canonical (removeUid rs uid)" "members (removeUid rs uid) = members rs - {uid}"
    using remove by (simp_all add: removeUid_def normalize_facts)
  ultimately show ?thesis using add add_members [OF add] cnt p(2) by blast
qed

theorem set_operations_exact_witness:
  "\<exists>pieces. chunk [\<lparr>first = 1, last_uid = 5\<rparr>] 2 = Some (Inr (map formatSet pieces)) \<and>
     concat (map listed pieces) = uids [\<lparr>first = 1, last_uid = 5\<rparr>]"
  using set_operations_exact [of 2 "[7]" "[\<lparr>first = 1, last_uid = 5\<rparr>]" 3]
  by (simp add: isUid_def UID_MAX_def) blast

end
