(* ===== verification/Csv.thy ===== *)
theory Csv
  imports Kizuki_Prelude
begin

text \<open>
  \<open>packages/connectors/src/import-pocket/csv.ts\<close>: the bounded CSV reader of an export.

  The closures of \<open>parseCsvRows\<close> share the variables of the record \<open>CsvState\<close>.  A
  refusal carries the line its row began on; the label of the caller's file is left out.  A
  character is a code unit below 256, so its UTF-8 form has one or two bytes.
\<close>

record CsvOptions =
  maxFieldBytesOpt :: "nat option"
  maxRowsOpt :: "nat option"

record CsvRow =
  row_cells :: "string list"
  row_line :: nat

datatype CsvFault = FieldTooLong | TextAfterQuote | QuoteInField | UnterminatedQuote

datatype CsvError = RowFault nat CsvFault | TooManyRows

record CsvLimits =
  maxFieldBytes :: nat
  maxRows :: nat

definition MAX_RECORDS :: nat where "MAX_RECORDS = 1000000"

definition MAX_RECORD_BYTES :: nat where "MAX_RECORD_BYTES = 1024 * 1024"

definition limitsOf :: "CsvOptions \<Rightarrow> CsvLimits" where
  "limitsOf opts =
     \<lparr>maxFieldBytes = (case maxFieldBytesOpt opts of None \<Rightarrow> MAX_RECORD_BYTES | Some n \<Rightarrow> n),
      maxRows = (case maxRowsOpt opts of None \<Rightarrow> MAX_RECORDS | Some n \<Rightarrow> n)\<rparr>"

record CsvState =
  csv_rows :: "CsvRow list"
  csv_cells :: "string list"
  csv_field :: string
  inQuotes :: bool
  quoteClosed :: bool
  fieldStarted :: bool
  rowStarted :: bool
  csv_line :: nat
  rowLine :: nat

definition byteLength :: "string \<Rightarrow> nat" where
  "byteLength s = (\<Sum>c\<leftarrow>s. if of_char c < (128 :: nat) then 1 else 2)"

definition startRow :: "CsvState \<Rightarrow> CsvState" where
  "startRow st = st\<lparr>rowLine := (if rowStarted st then rowLine st else csv_line st), rowStarted := True\<rparr>"

definition appendChar :: "CsvLimits \<Rightarrow> char \<Rightarrow> CsvState \<Rightarrow> CsvError + CsvState" where
  "appendChar lim c st =
     (if length (csv_field st) + 1 > maxFieldBytes lim then Inl (RowFault (rowLine st) FieldTooLong)
      else Inr (st\<lparr>csv_field := csv_field st @ [c]\<rparr>))"

definition endField :: "CsvLimits \<Rightarrow> CsvState \<Rightarrow> CsvError + CsvState" where
  "endField lim st =
     (if byteLength (csv_field st) > maxFieldBytes lim then Inl (RowFault (rowLine st) FieldTooLong)
      else Inr (st\<lparr>csv_cells := csv_cells st @ [csv_field st], csv_field := [],
                   fieldStarted := False, quoteClosed := False\<rparr>))"

definition endRow :: "CsvLimits \<Rightarrow> CsvState \<Rightarrow> CsvError + CsvState" where
  "endRow lim st =
     andThen (endField lim st) (\<lambda>st'.
       if rowStarted st'
       then (if length (csv_rows st') \<ge> maxRows lim then Inl TooManyRows
             else Inr (st'\<lparr>csv_rows := csv_rows st' @ [\<lparr>row_cells = csv_cells st', row_line = rowLine st'\<rparr>],
                           csv_cells := [], rowStarted := False\<rparr>))
       else Inr (st'\<lparr>csv_cells := [], rowStarted := False\<rparr>))"

text \<open>The body of the loop outside quotes.\<close>

definition plainChar :: "CsvLimits \<Rightarrow> char \<Rightarrow> CsvState \<Rightarrow> CsvError + CsvState" where
  "plainChar lim c st =
     (if quoteClosed st \<and> c \<noteq> CHR '','' \<and> c \<noteq> NEWLINE then Inl (RowFault (rowLine st) TextAfterQuote)
      else if c = QUOTE
      then (if fieldStarted st then Inl (RowFault (rowLine st) QuoteInField)
            else Inr (startRow (st\<lparr>inQuotes := True, fieldStarted := True\<rparr>)))
      else if c = CHR '','' then andThen (endField lim st) (\<lambda>st'. Inr (startRow st'))
      else if c = NEWLINE
      then andThen (endRow lim st) (\<lambda>st'. Inr (st'\<lparr>csv_line := csv_line st' + 1\<rparr>))
      else andThen (appendChar lim c st) (\<lambda>st'. Inr (startRow (st'\<lparr>fieldStarted := True\<rparr>))))"

fun scan :: "CsvLimits \<Rightarrow> string \<Rightarrow> CsvState \<Rightarrow> CsvError + CsvState" where
  "scan lim [] st = Inr st"
| "scan lim (c # rest) st =
     (if inQuotes st
      then (if c = QUOTE
            then (if rest \<noteq> [] \<and> hd rest = QUOTE
                  then andThen (appendChar lim QUOTE st) (\<lambda>st'. scan lim (tl rest) st')
                  else scan lim rest (st\<lparr>inQuotes := False, quoteClosed := True\<rparr>))
            else andThen (appendChar lim c
                            (if c = NEWLINE then st\<lparr>csv_line := csv_line st + 1\<rparr> else st))
                   (\<lambda>st'. scan lim rest st'))
      else andThen (plainChar lim c st) (\<lambda>st'. scan lim rest st'))"

definition csvStart :: CsvState where
  "csvStart =
     \<lparr>csv_rows = [], csv_cells = [], csv_field = [], inQuotes = False, quoteClosed = False,
      fieldStarted = False, rowStarted = False, csv_line = 1, rowLine = 1\<rparr>"

definition parseCsvRows :: "string \<Rightarrow> CsvOptions \<Rightarrow> CsvError + CsvRow list" where
  "parseCsvRows text opts =
     (let lim = limitsOf opts
      in andThen (scan lim (newlines text) csvStart) (\<lambda>st.
           if inQuotes st then Inl (RowFault (rowLine st) UnterminatedQuote)
           else if rowStarted st then andThen (endRow lim st) (\<lambda>st'. Inr (csv_rows st'))
           else Inr (csv_rows st)))"

definition parseCsv :: "string \<Rightarrow> CsvOptions \<Rightarrow> CsvError + string list list" where
  "parseCsv text opts = andThen (parseCsvRows text opts) (\<lambda>rs. Inr (map row_cells rs))"

section \<open>Bounds\<close>

definition csvInv :: "CsvLimits \<Rightarrow> CsvState \<Rightarrow> bool" where
  "csvInv lim st \<longleftrightarrow>
     length (csv_rows st) \<le> maxRows lim \<and>
     list_all (\<lambda>r. row_cells r \<noteq> [] \<and> list_all (\<lambda>f. byteLength f \<le> maxFieldBytes lim) (row_cells r))
       (csv_rows st) \<and>
     list_all (\<lambda>f. byteLength f \<le> maxFieldBytes lim) (csv_cells st) \<and>
     length (csv_field st) \<le> maxFieldBytes lim \<and>
     sorted_wrt (<) (map row_line (csv_rows st)) \<and>
     (\<forall>r\<in>set (csv_rows st). 1 \<le> row_line r \<and>
        row_line r < (if rowStarted st then rowLine st else csv_line st)) \<and>
     1 \<le> csv_line st \<and> (rowStarted st \<longrightarrow> 1 \<le> rowLine st \<and> rowLine st \<le> csv_line st) \<and>
     (inQuotes st \<longrightarrow> rowStarted st)"

lemmas csv_ops = appendChar_def endField_def endRow_def plainChar_def startRow_def

lemma appendChar_inv:
  "appendChar lim c st = Inr st' \<Longrightarrow> csvInv lim st \<Longrightarrow> csvInv lim st'"
  by (auto simp: appendChar_def csvInv_def split: if_splits)

lemma endField_inv:
  "endField lim st = Inr st' \<Longrightarrow> csvInv lim st \<Longrightarrow> csvInv lim st'"
  by (auto simp: endField_def csvInv_def split: if_splits)

lemma startRow_inv: "csvInv lim st \<Longrightarrow> csvInv lim (startRow st)"
  by (auto simp: startRow_def csvInv_def)

lemma endRow_facts:
  assumes "endRow lim st = Inr st'" "csvInv lim st" "\<not> inQuotes st"
  shows "csvInv lim (st'\<lparr>csv_line := csv_line st' + 1\<rparr>) \<and> csv_line st' = csv_line st \<and>
    length (csv_rows st') \<le> maxRows lim \<and>
    list_all (\<lambda>r. row_cells r \<noteq> [] \<and> list_all (\<lambda>f. byteLength f \<le> maxFieldBytes lim) (row_cells r))
      (csv_rows st') \<and> sorted_wrt (<) (map row_line (csv_rows st'))"
  using assms
  by (auto simp: endRow_def endField_def csvInv_def result_simps sorted_wrt_append split: if_splits)
    (meson less_SucI less_le_trans)+

lemma plainChar_inv:
  assumes "plainChar lim c st = Inr st'" "csvInv lim st" "\<not> inQuotes st"
  shows "csvInv lim st'"
proof -
  consider "c = QUOTE" | "c = CHR '',''" | "c = NEWLINE" | "c \<noteq> QUOTE" "c \<noteq> CHR '',''" "c \<noteq> NEWLINE"
    by blast
  then show ?thesis
  proof cases
    case 1
    then have "st' = startRow (st\<lparr>inQuotes := True, fieldStarted := True\<rparr>)"
      using assms(1) by (simp add: plainChar_def split: if_splits)
    then show ?thesis using assms(2) by (auto simp: startRow_def csvInv_def)
  next
    case 2
    then obtain st1 where "endField lim st = Inr st1" "st' = startRow st1"
      using assms(1) by (auto simp: plainChar_def result_simps)
    then show ?thesis using endField_inv startRow_inv assms(2) by blast
  next
    case 3
    then obtain st1 where "endRow lim st = Inr st1" "st' = st1\<lparr>csv_line := csv_line st1 + 1\<rparr>"
      using assms(1) by (auto simp: plainChar_def result_simps)
    then show ?thesis using endRow_facts assms(2,3) by blast
  next
    case 4
    then obtain st1 where "appendChar lim c st = Inr st1" "st' = startRow (st1\<lparr>fieldStarted := True\<rparr>)"
      using assms(1) by (auto simp: plainChar_def result_simps split: if_splits)
    moreover have "csvInv lim (st1\<lparr>fieldStarted := True\<rparr>)"
      using appendChar_inv [OF calculation(1) assms(2)]
      by (cases "rowStarted st1") (simp_all add: csvInv_def)
    ultimately show ?thesis using startRow_inv by blast
  qed
qed

lemma scan_inv: "scan lim s st = Inr st' \<Longrightarrow> csvInv lim st \<Longrightarrow> csvInv lim st'"
proof (induction lim s st rule: scan.induct)
  case (2 lim c rest st)
  show ?case
  proof (cases "inQuotes st")
    case False
    then obtain st1 where "plainChar lim c st = Inr st1" "scan lim rest st1 = Inr st'"
      using 2(5) by (auto simp: result_simps)
    then show ?thesis using 2 False plainChar_inv by blast
  next
    case True
    show ?thesis
    proof (cases "c = QUOTE")
      case quote: True
      show ?thesis
      proof (cases "rest \<noteq> [] \<and> hd rest = QUOTE")
        case again: True
        then obtain st1 where "appendChar lim QUOTE st = Inr st1" "scan lim (tl rest) st1 = Inr st'"
          using 2(5) True quote by (auto simp: result_simps)
        then show ?thesis using 2(1) [OF True quote again] appendChar_inv 2(6) by blast
      next
        case over: False
        then have "scan lim rest (st\<lparr>inQuotes := False, quoteClosed := True\<rparr>) = Inr st'"
          using 2(5) True quote by auto
        moreover have "csvInv lim (st\<lparr>inQuotes := False, quoteClosed := True\<rparr>)"
          using 2(6) by (cases "rowStarted st") (simp_all add: csvInv_def)
        ultimately show ?thesis using 2(2) [OF True quote over] by blast
      qed
    next
      case other: False
      let ?st = "if c = NEWLINE then st\<lparr>csv_line := csv_line st + 1\<rparr> else st"
      from 2(5) True other obtain st1 where "appendChar lim c ?st = Inr st1" "scan lim rest st1 = Inr st'"
        by (auto simp: result_simps split: if_splits)
      moreover have "csvInv lim ?st" using 2(6) True by (auto simp: csvInv_def)
      ultimately show ?thesis using 2(3) [OF True other] appendChar_inv by blast
    qed
  qed
qed simp

lemma csvStart_inv: "csvInv lim csvStart"
  by (simp add: csvInv_def csvStart_def)

lemma parsed_bounds:
  assumes "parseCsvRows text opts = Inr rows" and lim: "limitsOf opts = lim"
  shows "length rows \<le> maxRows lim \<and>
    list_all (\<lambda>r. row_cells r \<noteq> [] \<and> list_all (\<lambda>f. byteLength f \<le> maxFieldBytes lim) (row_cells r)) rows \<and>
    sorted_wrt (<) (map row_line rows)"
proof -
  obtain st where st: "scan lim (newlines text) csvStart = Inr st" "\<not> inQuotes st"
      "(rowStarted st \<and> (\<exists>st'. endRow lim st = Inr st' \<and> rows = csv_rows st')) \<or> rows = csv_rows st"
    using assms by (auto simp: parseCsvRows_def Let_def result_simps split: if_splits)
  have inv: "csvInv lim st" using scan_inv [OF st(1) csvStart_inv] .
  from st(3) show ?thesis
  proof
    assume "rows = csv_rows st"
    then show ?thesis using inv by (simp add: csvInv_def)
  qed (use endRow_facts [OF _ inv st(2)] in blast)
qed

section \<open>Reading what was quoted\<close>

text \<open>The quoted form of a table: every field in quotes, inner quotes doubled.\<close>

definition escapeField :: "string \<Rightarrow> string" where
  "escapeField s = concat (map (\<lambda>c. if c = QUOTE then [QUOTE, QUOTE] else [c]) s)"

definition quoteField :: "string \<Rightarrow> string" where
  "quoteField s = QUOTE # escapeField s @ [QUOTE]"

definition quoteRow :: "string list \<Rightarrow> string" where
  "quoteRow cells = join_with '','' (map quoteField cells) @ [NEWLINE]"

definition quoteRows :: "string list list \<Rightarrow> string" where
  "quoteRows rs = concat (map quoteRow rs)"

lemma scan_quoted:
  assumes "inQuotes st" "length (csv_field st) + length s \<le> maxFieldBytes lim"
    "rest = [] \<or> hd rest \<noteq> QUOTE"
  shows "\<exists>n. scan lim (escapeField s @ QUOTE # rest) st =
    scan lim rest (st\<lparr>csv_field := csv_field st @ s, csv_line := n, inQuotes := False, quoteClosed := True\<rparr>)"
  using assms(1,2)
proof (induction s arbitrary: st)
  case Nil
  have "scan lim (QUOTE # rest) st = scan lim rest (st\<lparr>inQuotes := False, quoteClosed := True\<rparr>)"
    using assms(3) Nil by auto
  then show ?case by (intro exI [of _ "csv_line st"]) (simp add: escapeField_def)
next
  case (Cons c s)
  let ?n = "if c = NEWLINE then csv_line st + 1 else csv_line st"
  let ?st = "(st\<lparr>csv_line := ?n\<rparr>)\<lparr>csv_field := csv_field st @ [c]\<rparr>"
  have "scan lim (escapeField (c # s) @ QUOTE # rest) st = scan lim (escapeField s @ QUOTE # rest) ?st"
    using Cons.prems by (auto simp: escapeField_def appendChar_def)
  moreover obtain n where "scan lim (escapeField s @ QUOTE # rest) ?st =
      scan lim rest (?st\<lparr>csv_field := csv_field ?st @ s, csv_line := n, inQuotes := False, quoteClosed := True\<rparr>)"
    using Cons.IH [of ?st] Cons.prems by auto
  ultimately show ?case by (intro exI [of _ n]) simp
qed

definition fresh :: "CsvState \<Rightarrow> bool" where
  "fresh st \<longleftrightarrow> \<not> inQuotes st \<and> \<not> quoteClosed st \<and> \<not> fieldStarted st \<and> csv_field st = []"

lemma byteLength_ge: "length s \<le> byteLength s"
  by (induction s) (simp_all add: byteLength_def)

text \<open>A quoted field, up to the delimiter that follows it.\<close>

lemma scan_field:
  assumes "fresh st" "byteLength s \<le> maxFieldBytes lim" "d \<noteq> QUOTE"
  obtains st' where "scan lim (quoteField s @ d # rest) st = scan lim (d # rest) st'"
    "\<not> inQuotes st'" "quoteClosed st'" "csv_field st' = s" "rowStarted st'"
    "csv_cells st' = csv_cells st" "csv_rows st' = csv_rows st"
proof -
  let ?st = "startRow (st\<lparr>inQuotes := True, fieldStarted := True\<rparr>)"
  have "scan lim (quoteField s @ d # rest) st = scan lim (escapeField s @ QUOTE # d # rest) ?st"
    using assms(1) by (simp add: quoteField_def fresh_def plainChar_def)
  moreover obtain n where "scan lim (escapeField s @ QUOTE # d # rest) ?st =
      scan lim (d # rest) (?st\<lparr>csv_field := csv_field ?st @ s, csv_line := n, inQuotes := False, quoteClosed := True\<rparr>)"
    using scan_quoted [of ?st s lim "d # rest"] assms byteLength_ge [of s]
    by (auto simp: startRow_def fresh_def simp del: scan.simps)
  ultimately show thesis
    by (intro that [of "?st\<lparr>csv_field := csv_field ?st @ s, csv_line := n, inQuotes := False, quoteClosed := True\<rparr>"])
      (use assms(1) in \<open>simp_all add: startRow_def fresh_def del: scan.simps\<close>)
qed

lemma scan_row:
  assumes "ws \<noteq> []" "fresh st" "list_all (\<lambda>s. byteLength s \<le> maxFieldBytes lim) ws"
    and "length (csv_rows st) < maxRows lim"
  shows "\<exists>st'. scan lim (join_with '','' (map quoteField ws) @ NEWLINE # rest) st = scan lim rest st' \<and>
    fresh st' \<and> csv_cells st' = [] \<and> \<not> rowStarted st' \<and>
    map row_cells (csv_rows st') = map row_cells (csv_rows st) @ [csv_cells st @ ws]"
  using assms
proof (induction ws arbitrary: st)
  case (Cons w ws)
  have w: "byteLength w \<le> maxFieldBytes lim" using Cons.prems(3) by simp
  show ?case
  proof (cases ws)
    case Nil
    obtain st1 where st1: "scan lim (quoteField w @ NEWLINE # rest) st = scan lim (NEWLINE # rest) st1"
        "\<not> inQuotes st1" "quoteClosed st1" "csv_field st1 = w" "rowStarted st1"
        "csv_cells st1 = csv_cells st" "csv_rows st1 = csv_rows st"
      by (rule scan_field [OF Cons.prems(2) w, of NEWLINE rest]) simp
    let ?st2 = "st1\<lparr>csv_field := [], fieldStarted := False, quoteClosed := False,
      csv_rows := csv_rows st1 @ [\<lparr>row_cells = csv_cells st1 @ [w], row_line = rowLine st1\<rparr>],
      csv_cells := [], rowStarted := False, csv_line := csv_line st1 + 1\<rparr>"
    have "scan lim (NEWLINE # rest) st1 = scan lim rest ?st2"
      using st1 w Cons.prems(4) by (simp add: plainChar_def endRow_def endField_def)
    then show ?thesis
      using st1 by (intro exI [of _ ?st2]) (simp add: Nil fresh_def)
  next
    case (Cons v vs)
    let ?tail = "join_with '','' (map quoteField ws) @ NEWLINE # rest"
    obtain st1 where st1: "scan lim (quoteField w @ CHR '','' # ?tail) st = scan lim (CHR '','' # ?tail) st1"
        "\<not> inQuotes st1" "quoteClosed st1" "csv_field st1 = w" "rowStarted st1"
        "csv_cells st1 = csv_cells st" "csv_rows st1 = csv_rows st"
      by (rule scan_field [OF \<open>fresh st\<close> w, of "CHR '',''" ?tail]) simp
    let ?st2 = "startRow (st1\<lparr>csv_cells := csv_cells st1 @ [w], csv_field := [],
      fieldStarted := False, quoteClosed := False\<rparr>)"
    have two: "scan lim (CHR '','' # ?tail) st1 = scan lim ?tail ?st2"
      using st1 w by (simp add: plainChar_def endField_def del: list.map)
    have st2: "fresh ?st2" "csv_cells ?st2 = csv_cells st @ [w]" "csv_rows ?st2 = csv_rows st"
      using st1 by (simp_all add: fresh_def startRow_def)
    obtain st' where "scan lim ?tail ?st2 = scan lim rest st'" "fresh st'" "csv_cells st' = []"
        "\<not> rowStarted st'" "map row_cells (csv_rows st') = map row_cells (csv_rows ?st2) @ [csv_cells ?st2 @ ws]"
      using Cons.IH [of ?st2] st2 Cons.prems by (auto simp: local.Cons simp del: join_with.simps scan.simps)
    moreover have "join_with '','' (map quoteField (w # ws)) @ NEWLINE # rest = quoteField w @ CHR '','' # ?tail"
      by (simp add: local.Cons)
    ultimately show ?thesis using st1(1) two st2 by (intro exI [of _ st']) (simp del: scan.simps)
  qed
qed simp

lemma scan_rows:
  assumes "fresh st" "csv_cells st = []" "\<not> rowStarted st"
    and "list_all (\<lambda>ws. ws \<noteq> [] \<and> list_all (\<lambda>s. byteLength s \<le> maxFieldBytes lim) ws) rs"
    and "length (csv_rows st) + length rs \<le> maxRows lim"
  shows "\<exists>st'. scan lim (quoteRows rs) st = Inr st' \<and> \<not> inQuotes st' \<and> \<not> rowStarted st' \<and>
    map row_cells (csv_rows st') = map row_cells (csv_rows st) @ rs"
  using assms
proof (induction rs arbitrary: st)
  case Nil
  then show ?case by (simp add: quoteRows_def fresh_def)
next
  case (Cons ws rs)
  obtain st1 where one: "scan lim (join_with '','' (map quoteField ws) @ NEWLINE # quoteRows rs) st =
      scan lim (quoteRows rs) st1" "fresh st1" "csv_cells st1 = []" "\<not> rowStarted st1"
      "map row_cells (csv_rows st1) = map row_cells (csv_rows st) @ [ws]"
    using scan_row [of ws st lim "quoteRows rs"] Cons.prems by auto
  have "length (csv_rows st1) = length (csv_rows st) + 1" using arg_cong [OF one(5), of length] by simp
  then obtain st' where "scan lim (quoteRows rs) st1 = Inr st'" "\<not> inQuotes st'" "\<not> rowStarted st'"
      "map row_cells (csv_rows st') = map row_cells (csv_rows st1) @ rs"
    using Cons.IH [OF one(2-4)] Cons.prems by auto
  then show ?case using one by (auto simp: quoteRows_def quoteRow_def)
qed

lemma set_join_with: "set (join_with sep ws) \<subseteq> set sep \<union> (\<Union>w\<in>set ws. set w)"
  by (induction sep ws rule: join_with.induct) auto

lemma quoteRows_no_return:
  assumes "list_all (list_all (\<lambda>s. RETURN \<notin> set s)) rs"
  shows "RETURN \<notin> set (quoteRows rs)"
proof -
  have field: "RETURN \<notin> set (quoteField s)" if "RETURN \<notin> set s" for s
    using that by (auto simp: quoteField_def escapeField_def split: if_splits)
  have "RETURN \<notin> set (quoteRow ws)" if "list_all (\<lambda>s. RETURN \<notin> set s) ws" for ws
    using that field set_join_with [of "'',''" "map quoteField ws"]
    by (fastforce simp: quoteRow_def list_all_iff)
  then show ?thesis using assms by (auto simp: quoteRows_def list_all_iff)
qed

section \<open>Properties\<close>

text \<open>C34: what a quoted table holds is what the reader returns: commas, quotes and line feeds
  inside a field included, no field is rewritten, split or dropped, as long as it is within
  the bounds and holds no carriage return (which the reader turns into a line feed).\<close>

theorem quoted_rows_roundtrip:
  assumes "list_all (\<lambda>ws. ws \<noteq> [] \<and> list_all (\<lambda>s. byteLength s \<le> maxFieldBytes (limitsOf opts)) ws) rs"
    and "length rs \<le> maxRows (limitsOf opts)"
    and "list_all (list_all (\<lambda>s. RETURN \<notin> set s)) rs"
  shows "parseCsv (quoteRows rs) opts = Inr rs"
proof -
  obtain st where "scan (limitsOf opts) (quoteRows rs) csvStart = Inr st" "\<not> inQuotes st"
      "\<not> rowStarted st" "map row_cells (csv_rows st) = rs"
    using scan_rows [of csvStart "limitsOf opts" rs] assms by (auto simp: csvStart_def fresh_def)
  then show ?thesis
    using newlines_id [OF quoteRows_no_return [OF assms(3)]]
    by (simp add: parseCsv_def parseCsvRows_def Let_def)
qed

definition demoOptions :: CsvOptions where
  "demoOptions = \<lparr>maxFieldBytesOpt = Some 20, maxRowsOpt = Some 5\<rparr>"

theorem quoted_rows_roundtrip_witness:
  "parseCsv (quoteRows [[''a,b'', [CHR 0x22]], [[]]]) demoOptions = Inr [[''a,b'', [CHR 0x22]], [[]]]"
  by (rule quoted_rows_roundtrip)
    (simp_all add: demoOptions_def limitsOf_def byteLength_def)

text \<open>Whatever the text, what the reader returns is within its bounds on rows and on the
  bytes of a field, no row is without cells, and rows carry the lines they began on in
  strictly increasing order.\<close>

theorem accepted_rows_bounded:
  assumes "parseCsvRows text opts = Inr rows"
  shows "length rows \<le> maxRows (limitsOf opts) \<and>
    list_all (\<lambda>r. row_cells r \<noteq> [] \<and>
      list_all (\<lambda>f. byteLength f \<le> maxFieldBytes (limitsOf opts)) (row_cells r)) rows \<and>
    sorted_wrt (<) (map row_line rows)"
  using parsed_bounds [OF assms refl] .

lemma demo_rows:
  "parseCsvRows ''a,b'' demoOptions = Inr [\<lparr>row_cells = [''a'', ''b''], row_line = 1\<rparr>]"
  by code_simp

theorem accepted_rows_bounded_witness:
  "length [\<lparr>row_cells = [''a'', ''b''], row_line = 1\<rparr>] \<le> maxRows (limitsOf demoOptions)"
  using accepted_rows_bounded [OF demo_rows] by blast

end
