(* ===== verification/Json_Text.thy ===== *)
theory Json_Text
  imports Js_Number
begin

text \<open>
  The text of values, as the language prints and reads it: \<open>JSON.stringify\<close> and
  \<open>JSON.parse\<close> of a string, \<open>String\<close> and \<open>Number\<close> of a finite number.

  A character is one code unit below 256, so \<open>JSON.stringify\<close> escapes only the quote, the
  backslash and the controls; an escape that denotes a larger code unit has no value
  here, which is the error \<open>Beyond\<close> and not one of the language's.
\<close>

section \<open>Strings\<close>

abbreviation BACKSLASH :: char where "BACKSLASH \<equiv> CHR 0x5C"

definition hexDigit :: "nat \<Rightarrow> char" where
  "hexDigit d = (if d < 10 then digitChar d else char_of (87 + d))"

definition hexVal :: "char \<Rightarrow> nat option" where
  "hexVal c =
     (if isDigit c then Some (digitVal c)
      else if in_range (CHR ''a'') (CHR ''f'') c then Some (of_char c - 87)
      else if in_range (CHR ''A'') (CHR ''F'') c then Some (of_char c - 55)
      else None)"

definition escapes :: "(char \<times> char) list" where
  "escapes = [(QUOTE, QUOTE), (BACKSLASH, BACKSLASH), (CHR 0x08, CHR ''b''), (CHR 0x09, CHR ''t''),
     (CHR 0x0A, CHR ''n''), (CHR 0x0C, CHR ''f''), (CHR 0x0D, CHR ''r'')]"

definition quoteChar :: "char \<Rightarrow> string" where
  "quoteChar c =
     (case map_of escapes c of
        Some e \<Rightarrow> [BACKSLASH, e]
      | None \<Rightarrow>
          if of_char c < (32 :: nat)
          then [BACKSLASH, CHR ''u'', CHR ''0'', CHR ''0'',
                hexDigit (of_char c div 16), hexDigit (of_char c mod 16)]
          else [c])"

definition jsonString :: "string \<Rightarrow> string" where
  "jsonString s = QUOTE # concat (map quoteChar s) @ [QUOTE]"

datatype TextError = Malformed | Beyond

definition unescape :: "char \<Rightarrow> char option" where
  "unescape e = (if e = CHR ''/'' then Some e else map_of (map (\<lambda>(c, e). (e, c)) escapes) e)"

fun hexNumber :: "string \<Rightarrow> nat option" where
  "hexNumber s = foldl (\<lambda>n c. Option.bind n (\<lambda>n. map_option (\<lambda>d. 16 * n + d) (hexVal c))) (Some 0) s"

text \<open>What follows the opening quote, up to a closing quote that must be the last character.\<close>

fun readChars :: "string \<Rightarrow> TextError + string" where
  "readChars [] = Inl Malformed"
| "readChars (c # rest) =
     (if c = QUOTE then guard (rest = []) Malformed (Inr [])
      else if c = BACKSLASH then
        (case rest of
           [] \<Rightarrow> Inl Malformed
         | e # more \<Rightarrow>
             if e = CHR ''u'' then
               (case hexNumber (take 4 more) of
                  None \<Rightarrow> Inl Malformed
                | Some n \<Rightarrow>
                    guard (4 \<le> length more) Malformed
                      (andThen (readChars (drop 4 more)) (\<lambda>s.
                         guard (n < 256) Beyond (Inr (char_of n # s)))))
             else
               (case unescape e of
                  None \<Rightarrow> Inl Malformed
                | Some c' \<Rightarrow> andThen (readChars more) (\<lambda>s. Inr (c' # s))))
      else if of_char c < (32 :: nat) then Inl Malformed
      else andThen (readChars rest) (\<lambda>s. Inr (c # s)))"

text \<open>\<open>JSON.parse\<close> of a trimmed text that starts with a quote.\<close>

definition parseJsonString :: "string \<Rightarrow> TextError + string" where
  "parseJsonString raw = readChars (tl raw)"

section \<open>Numbers\<close>

text \<open>The decimal literals of the sources: sign, digits, fraction and exponent.\<close>

record Literal =
  lit_negative :: bool
  lit_digits :: string
  lit_fraction :: string
  lit_exponent :: int

definition readExponent :: "string \<Rightarrow> int option" where
  "readExponent s =
     (if s = [] then Some 0
      else if hd s \<noteq> CHR ''e'' \<and> hd s \<noteq> CHR ''E'' then None
      else
        (let signed = tl s;
             digits = (if signed \<noteq> [] \<and> (hd signed = CHR ''+'' \<or> hd signed = CHR ''-'') then tl signed else signed);
             n = int (digitsVal digits)
         in if digits = [] \<or> \<not> list_all isDigit digits then None
            else Some (if hd signed = CHR ''-'' then - n else n)))"

definition readLiteral :: "string \<Rightarrow> Literal option" where
  "readLiteral s =
     (let negative = (s \<noteq> [] \<and> hd s = CHR ''-'');
          unsigned = (if negative then tl s else s);
          digits = takeWhile isDigit unsigned;
          afterDigits = dropWhile isDigit unsigned;
          point = (afterDigits \<noteq> [] \<and> hd afterDigits = CHR ''.'');
          fraction = (if point then takeWhile isDigit (tl afterDigits) else []);
          afterFraction = (if point then dropWhile isDigit (tl afterDigits) else afterDigits)
      in if digits = [] \<or> (hd digits = CHR ''0'' \<and> tl digits \<noteq> []) \<or> (point \<and> fraction = []) then None
         else map_option
           (\<lambda>e. \<lparr>lit_negative = negative, lit_digits = digits, lit_fraction = fraction, lit_exponent = e\<rparr>)
           (readExponent afterFraction))"

definition literalValue :: "Literal \<Rightarrow> rat" where
  "literalValue l =
     (if lit_negative l then - 1 else 1) * of_nat (digitsVal (lit_digits l @ lit_fraction l)) *
     10 powi (lit_exponent l - int (length (lit_fraction l)))"

text \<open>\<open>Number\<close> of such a literal, if it is finite.\<close>

definition literalNumber :: "Literal \<Rightarrow> rat option" where
  "literalNumber l =
     (let d = toDouble (literalValue l) in if \<bar>d\<bar> < 2 ^ 1024 then Some d else None)"

text \<open>
  \<open>String\<close> of a positive double: the shortest digits that read back as the number, the
  closest to it among those of one length.  The search starts at one digit; a double is
  a multiple of \<open>2 ^ -1074\<close>, so it finds the number itself before the 1100th decimal place.
\<close>

definition magnitude :: "rat \<Rightarrow> int" where
  "magnitude x =
     (let (p, q) = quotient_of x;
          n = int (length (decimal (nat p))) - int (length (decimal (nat q)))
      in if x < 10 powi n then n else n + 1)"

definition digitsAt :: "rat \<Rightarrow> int \<Rightarrow> int option" where
  "digitsAt x e =
     (let exact = x / 10 powi e; s = roundHalfEven exact;
          other = (if of_int s > exact then s - 1 else s + 1)
      in List.find (\<lambda>s. 0 < s \<and> toDouble (of_int s * 10 powi e) = x) [s, other])"

fun shortestFrom :: "nat \<Rightarrow> rat \<Rightarrow> int \<Rightarrow> (int \<times> int) option" where
  "shortestFrom 0 x e = None"
| "shortestFrom (Suc left) x e =
     (case digitsAt x e of Some s \<Rightarrow> Some (s, e) | None \<Rightarrow> shortestFrom left x (e - 1))"

fun withoutZeros :: "nat \<Rightarrow> int \<Rightarrow> nat \<times> int" where
  "withoutZeros s e = (if s = 0 \<or> s mod 10 \<noteq> 0 then (s, e) else withoutZeros (s div 10) (e + 1))"

declare withoutZeros.simps [simp del]

definition layout :: "nat \<Rightarrow> int \<Rightarrow> string" where
  "layout s e =
     (let ds = decimal s; k = int (length ds); n = e + k
      in if k \<le> n \<and> n \<le> 21 then ds @ replicate (nat (n - k)) (CHR ''0'')
         else if 0 < n \<and> n \<le> 21 then take (nat n) ds @ CHR ''.'' # drop (nat n) ds
         else if - 6 < n \<and> n \<le> 0 then ''0.'' @ replicate (nat (- n)) (CHR ''0'') @ ds
         else (if k = 1 then ds else hd ds # CHR ''.'' # tl ds) @ CHR ''e'' #
           (if n - 1 < 0 then CHR ''-'' else CHR ''+'') # decimal (nat \<bar>n - 1\<bar>))"

definition positiveText :: "rat \<Rightarrow> string" where
  "positiveText x =
     (case shortestFrom (nat (magnitude x + 1100)) x (magnitude x - 1) of
        None \<Rightarrow> []
      | Some (s, e) \<Rightarrow> (case withoutZeros (nat s) e of (s', e') \<Rightarrow> layout s' e'))"

definition numberText :: "rat \<Rightarrow> string" where
  "numberText q =
     (if q = 0 then ''0'' else if q < 0 then CHR ''-'' # positiveText (- q) else positiveText q)"

section \<open>A printed string is read back\<close>

lemma hexVal_hexDigit: "d < 16 \<Longrightarrow> hexVal (hexDigit d) = Some d"
  by (cases "d < 10")
    (auto simp: hexVal_def hexDigit_def in_range_def isDigit_iff of_char_of digitChar_def digitVal_def)

lemma hexNumber_control:
  assumes "n < 32"
  shows "hexNumber [CHR ''0'', CHR ''0'', hexDigit (n div 16), hexDigit (n mod 16)] = Some n"
proof -
  have zero: "hexVal (CHR ''0'') = Some 0" by code_simp
  show ?thesis using assms hexVal_hexDigit [of "n div 16"] hexVal_hexDigit [of "n mod 16"] by (simp add: zero)
qed

lemma escapes_cases:
  assumes "map_of escapes c = Some e"
  shows "unescape e = Some c \<and> e \<noteq> CHR ''u'' \<and> \<not> of_char e < (32 :: nat)"
  using assms by (auto simp: escapes_def unescape_def split: if_splits)

lemma readChars_quoteChar: "readChars (quoteChar c @ rest) = andThen (readChars rest) (\<lambda>s. Inr (c # s))"
proof (cases "map_of escapes c")
  case (Some e)
  then show ?thesis using escapes_cases [OF Some] by (simp add: quoteChar_def)
next
  case None
  then have plain: "c \<noteq> QUOTE" "c \<noteq> BACKSLASH" by (auto simp: escapes_def split: if_splits)
  show ?thesis
  proof (cases "of_char c < (32 :: nat)")
    case True
    then show ?thesis
      using None hexNumber_control [OF True]
      by (simp add: quoteChar_def guard_def del: hexNumber.simps)
  next
    case False
    then show ?thesis using None plain by (simp add: quoteChar_def)
  qed
qed

lemma readChars_quoted: "readChars (concat (map quoteChar s) @ [QUOTE]) = Inr s"
  by (induction s) (simp_all add: readChars_quoteChar guard_def del: readChars.simps, simp add: guard_def)

lemma parse_jsonString [simp]: "parseJsonString (jsonString s) = Inr s"
  by (simp add: parseJsonString_def jsonString_def readChars_quoted del: readChars.simps)

lemma quoteChar_printable: "x \<in> set (quoteChar c) \<Longrightarrow> 32 \<le> (of_char x :: nat)"
proof -
  have hex: "32 \<le> (of_char (hexDigit d) :: nat)" if "d < 16" for d
    using that by (auto simp: hexDigit_def digitChar_def of_char_of)
  have "of_char c div 16 < (16 :: nat)" "of_char c mod 16 < (16 :: nat)" if "of_char c < (32 :: nat)"
    using that by auto
  then show "x \<in> set (quoteChar c) \<Longrightarrow> 32 \<le> (of_char x :: nat)"
    using hex by (auto simp: quoteChar_def dest: escapes_cases split: option.splits if_splits)
qed

lemma jsonString_printable: "x \<in> set (jsonString s) \<Longrightarrow> 32 \<le> (of_char x :: nat)"
  using quoteChar_printable by (auto simp: jsonString_def)

section \<open>A printed number is read back\<close>

text \<open>The digits.\<close>

lemma decimal_upper: "n < 10 ^ length (decimal n)"
  using digitsVal_bound [OF isDigit_decimal, of n] by simp

lemma decimal_lower: "0 < n \<Longrightarrow> 10 ^ (length (decimal n) - 1) \<le> n"
proof (induction n rule: decimal.induct)
  case (1 n)
  show ?case
  proof (cases "n < 10")
    case True
    then show ?thesis using 1(2) by (subst decimal.simps) simp
  next
    case False
    then have ih: "10 ^ (length (decimal (n div 10)) - 1) \<le> n div 10" using 1 by simp
    obtain k where k: "length (decimal (n div 10)) = Suc k"
      using decimal_nonempty [of "n div 10"] by (cases "length (decimal (n div 10))") auto
    have "length (decimal n) = Suc (Suc k)" using False k by (subst decimal.simps) simp
    moreover have "10 ^ Suc k \<le> 10 * (n div 10)" using ih k by simp
    ultimately show ?thesis by simp
  qed
qed

lemma decimal_head: "0 < n \<Longrightarrow> hd (decimal n) \<noteq> CHR ''0''"
proof (induction n rule: decimal.induct)
  case (1 n)
  show ?case
  proof (cases "n < 10")
    case True
    then have "decimal n = [digitChar n]" by (subst decimal.simps) simp
    moreover have "digitVal (CHR ''0'') = 0" by code_simp
    ultimately show ?thesis using digitVal_digitChar [OF True] 1(2) by auto
  next
    case False
    then show ?thesis using 1 by (subst decimal.simps) simp
  qed
qed

text \<open>The search for the shortest digits ends.\<close>

lemma magnitude_above:
  assumes "0 < x"
  shows "x < 10 powi magnitude x"
proof -
  obtain p q where pq: "quotient_of x = (p, q)" by fastforce
  then have q: "0 < q" and x: "x = of_int p / of_int q"
    using quotient_of_denom_pos quotient_of_div by blast+
  then have p: "0 < p" using assms by (simp add: zero_less_divide_iff)
  let ?a = "length (decimal (nat p))" and ?b = "length (decimal (nat q))"
  have b: "0 < ?b" by simp
  have "p < 10 ^ ?a" using decimal_upper [of "nat p"] p by (simp add: nat_less_iff)
  then have a: "of_int p < (10 ^ ?a :: rat)" by (metis of_int_less_iff of_int_numeral of_int_power)
  have "10 ^ (?b - 1) \<le> nat q" using decimal_lower [of "nat q"] q by simp
  then have "10 ^ (?b - 1) \<le> q" using q by (simp add: le_nat_iff)
  then have q': "(10 ^ (?b - 1) :: rat) \<le> of_int q" by (metis of_int_le_iff of_int_numeral of_int_power)
  have "x < 10 ^ ?a / of_int q" using a q by (simp add: x divide_strict_right_mono)
  also have "\<dots> \<le> 10 ^ ?a / 10 ^ (?b - 1)" using q' q by (intro divide_left_mono mult_pos_pos) simp_all
  also have "\<dots> = 10 powi (int ?a - int ?b + 1)"
    using b by (cases ?b) (simp_all add: power_int_diff power_int_add)
  finally show ?thesis by (simp add: magnitude_def pq Let_def)
qed

lemma digitsAt_sound:
  assumes "digitsAt x e = Some s"
  shows "0 < s \<and> toDouble (of_int s * 10 powi e) = x"
  using assms by (auto simp: digitsAt_def Let_def split: if_splits)

lemma digitsAt_exact:
  assumes "x = of_int s * 10 powi e" "0 < s" "toDouble x = x"
  shows "digitsAt x e = Some s"
  using assms by (simp add: digitsAt_def)

lemma shortestFrom_sound: "shortestFrom left x e = Some (s, e') \<Longrightarrow> digitsAt x e' = Some s"
  by (induction left x e rule: shortestFrom.induct) (auto split: option.splits)

lemma shortestFrom_found:
  "digitsAt x (e - int d) \<noteq> None \<Longrightarrow> d < left \<Longrightarrow> \<exists>s e'. shortestFrom left x e = Some (s, e')"
proof (induction left arbitrary: e d)
  case (Suc left)
  show ?case
  proof (cases "digitsAt x e")
    case None
    then obtain d' where d: "d = Suc d'" using Suc.prems(1) by (cases d) auto
    have "e - int d = e - 1 - int d'" using d by simp
    with Suc.prems(1) have "digitsAt x (e - 1 - int d') \<noteq> None" by (simp only:) simp
    then have "\<exists>s e'. shortestFrom left x (e - 1) = Some (s, e')"
      using Suc.IH [of "e - 1" d'] Suc.prems(2) unfolding d by (meson Suc_less_eq)
    then show ?thesis using None by simp
  qed simp
qed simp

lemma exact_at:
  assumes "e \<le> j" "e \<le> 0"
  obtains s where "(of_int m * 2 powi j :: rat) = of_int s * 10 powi e" "0 < m \<longrightarrow> 0 < s"
proof -
  obtain n where e: "e = - int n" using assms(2) by (metis nat_0_le minus_minus neg_0_le_iff_le)
  let ?s = "m * 2 ^ nat (j + int n) * 5 ^ n"
  have "(2 :: rat) powi j = 2 ^ nat (j + int n) * 2 powi (- int n)"
    using powi_shift [of "- int n" "nat (j + int n)"] assms e by simp
  moreover have "(2 :: rat) powi (- int n) = 5 ^ n * 10 powi (- int n)"
    by (simp add: power_int_minus field_simps flip: power_mult_distrib)
  ultimately have "(of_int m * 2 powi j :: rat) = of_int ?s * 10 powi e" by (simp add: e)
  then show ?thesis by (rule that) simp
qed

lemma magnitude_low:
  assumes "2 powi j \<le> x" "j \<le> 0"
  shows "j < magnitude x"
proof (rule ccontr)
  assume "\<not> j < magnitude x"
  obtain n where j: "j = - int n" using assms(2) by (metis nat_0_le minus_minus neg_0_le_iff_le)
  have "(0 :: rat) < 2 powi j" by simp
  then have x: "0 < x" using assms(1) by (rule order_less_le_trans)
  from \<open>\<not> j < magnitude x\<close> have "(10 :: rat) powi magnitude x \<le> 10 powi j"
    by (intro power_int_increasing) simp_all
  also have "\<dots> \<le> 2 powi j" by (simp add: j power_int_minus le_imp_inverse_le power_mono)
  finally show False using magnitude_above [OF x] assms(1) by linarith
qed

lemma shortest_exists:
  assumes "toDouble x = x" "0 < x"
  obtains s e where "shortestFrom (nat (magnitude x + 1100)) x (magnitude x - 1) = Some (s, e)"
    "0 < s" "toDouble (of_int s * 10 powi e) = x"
proof -
  obtain m j where x: "x = of_int m * 2 powi j" and j: "- 1074 \<le> j"
    by (rule toDouble_form [of x]) (simp add: assms(1))
  have "\<not> (2 :: rat) powi j < 0" using zero_le_power_int [of "2 :: rat" j] by linarith
  then have m: "0 < m" using assms(2) unfolding x by (auto simp: zero_less_mult_iff)
  have "(2 :: rat) powi (- 1074) \<le> 2 powi j" by (rule power_int_increasing [OF j]) simp
  also have "\<dots> \<le> x" using m by (simp add: x)
  finally have "2 powi (- 1074) \<le> x" .
  from magnitude_low [OF this neg_numeral_le_zero] have mag: "- 1074 < magnitude x" .
  have "- 1100 \<le> j" using j by linarith
  from exact_at [OF this, of m] obtain s where "x = of_int s * 10 powi (- 1100)" "0 < m \<longrightarrow> 0 < s"
    unfolding x by (metis neg_numeral_le_zero)
  then have "digitsAt x (- 1100) = Some s" using assms(1) m by (metis digitsAt_exact)
  then have "digitsAt x (magnitude x - 1 - int (nat (magnitude x + 1099))) \<noteq> None" using mag by simp
  from shortestFrom_found [OF this, of "nat (magnitude x + 1100)"] mag
  obtain s e where found: "shortestFrom (nat (magnitude x + 1100)) x (magnitude x - 1) = Some (s, e)" by auto
  show ?thesis using digitsAt_sound [OF shortestFrom_sound [OF found]] by (intro that [OF found]) simp_all
qed

lemma withoutZeros_value:
  "withoutZeros s e = (s', e') \<Longrightarrow>
     of_nat s' * 10 powi e' = (of_nat s * 10 powi e :: rat) \<and> (0 < s \<longrightarrow> 0 < s')"
proof (induction s e arbitrary: s' e' rule: withoutZeros.induct)
  case (1 s e)
  show ?case
  proof (cases "s = 0 \<or> s mod 10 \<noteq> 0")
    case False
    then have "s = s div 10 * 10" "0 < s div 10" by auto
    moreover have "withoutZeros (s div 10) (e + 1) = (s', e')" using 1(2) False withoutZeros.simps [of s e] by auto
    ultimately show ?thesis
      using 1(1) [OF False, of s' e']
      by (metis (no_types, lifting) mult.commute mult.left_commute of_nat_mult of_nat_numeral power_int_add_1 zero_neq_numeral)
  qed (use 1(2) withoutZeros.simps [of s e] in auto)
qed

text \<open>The literal.\<close>

lemma digits_span:
  assumes "\<forall>c\<in>set ds. isDigit c" "rest = [] \<or> \<not> isDigit (hd rest)"
  shows "takeWhile isDigit (ds @ rest) = ds" "dropWhile isDigit (ds @ rest) = rest"
  using assms by (cases rest; auto simp: takeWhile_append2 dropWhile_append2)+

lemma sign_not_digit: "\<not> isDigit (CHR ''-'')" "\<not> isDigit (CHR ''.'')" "\<not> isDigit (CHR ''e'')"
  by (simp_all add: isDigit_iff)

lemma readExponent_signed:
  "readExponent (CHR ''e'' # CHR ''+'' # decimal n) = Some (int n)"
  "readExponent (CHR ''e'' # CHR ''-'' # decimal n) = Some (- int n)"
  using isDigit_decimal [of n] by (simp_all add: readExponent_def Let_def list_all_iff)

lemma readLiteral_parts:
  assumes "\<forall>c\<in>set ds. isDigit c" "ds \<noteq> []" "hd ds \<noteq> CHR ''0'' \<or> tl ds = []"
    and "\<forall>c\<in>set fs. isDigit c" "readExponent ep = Some x"
    and "ep = [] \<or> hd ep = CHR ''e''"
  shows "readLiteral (ds @ (if fs = [] then [] else CHR ''.'' # fs) @ ep) =
    Some \<lparr>lit_negative = False, lit_digits = ds, lit_fraction = fs, lit_exponent = x\<rparr>"
proof -
  let ?rest = "(if fs = [] then [] else CHR ''.'' # fs) @ ep"
  have ep: "ep = [] \<or> \<not> isDigit (hd ep)" "ep = [] \<or> hd ep \<noteq> CHR ''.''"
    using assms(6) by (auto simp: isDigit_iff)
  have "?rest = [] \<or> \<not> isDigit (hd ?rest)" using ep by (auto simp: sign_not_digit)
  note outer = digits_span [OF assms(1) this] and inner = digits_span [OF assms(4) ep(1)]
  have "hd ds \<noteq> CHR ''-''" using assms(1,2) by (cases ds) (auto simp: isDigit_iff)
  then show ?thesis
    using outer inner assms(2,3,5) ep(2) by (cases "fs = []") (auto simp: readLiteral_def Let_def hd_append)
qed

lemma digitsVal_zeros_append: "digitsVal (replicate m (CHR ''0'') @ ds) = digitsVal ds"
proof (induction m)
  case (Suc m)
  have "digitsVal (CHR ''0'' # xs) = digitsVal xs" for xs by (simp add: digitsVal_def digitVal_def)
  with Suc show ?case by simp
qed simp

lemma digitsVal_zeros_after: "digitsVal (ds @ replicate m (CHR ''0'')) = digitsVal ds * 10 ^ m"
  using digitsVal_zeros_append [of m "[]"] by (simp add: digitsVal_append)

definition readsAs :: "string \<Rightarrow> rat \<Rightarrow> bool" where
  "readsAs s v \<longleftrightarrow>
     (\<exists>l. readLiteral s = Some l \<and> \<not> lit_negative l \<and> literalValue l = v) \<and>
     (\<forall>c\<in>set s. isDigit c \<or> c \<in> {CHR ''.'', CHR ''e'', CHR ''+'', CHR ''-''}) \<and> s \<noteq> [] \<and> isDigit (hd s)"

lemma readsAs_parts:
  assumes "\<forall>c\<in>set ds. isDigit c" "ds \<noteq> []" "hd ds \<noteq> CHR ''0'' \<or> tl ds = []"
    and "\<forall>c\<in>set fs. isDigit c" "readExponent ep = Some x"
    and "ep = [] \<or> hd ep = CHR ''e''"
    and "\<forall>c\<in>set ep. isDigit c \<or> c \<in> {CHR ''.'', CHR ''e'', CHR ''+'', CHR ''-''}"
    and "v = of_nat (digitsVal (ds @ fs)) * 10 powi (x - int (length fs))"
  shows "readsAs (ds @ (if fs = [] then [] else CHR ''.'' # fs) @ ep) v"
  using readLiteral_parts [OF assms(1-6)] assms
  by (auto simp: readsAs_def literalValue_def hd_append)

lemma layout_reads:
  assumes "0 < s"
  shows "readsAs (layout s e) (of_nat s * 10 powi e)"
proof -
  let ?ds = "decimal s"
  let ?k = "int (length ?ds)"
  let ?n = "e + ?k"
  obtain d more where ds: "?ds = d # more" using decimal_nonempty [of s] by (cases ?ds) auto
  have digits: "\<forall>c\<in>set ?ds. isDigit c" by (rule isDigit_decimal)
  have head: "hd ?ds \<noteq> CHR ''0''" by (rule decimal_head [OF assms])
  consider (whole) "?k \<le> ?n" "?n \<le> 21" | (point) "0 < ?n" "?n < ?k" "?n \<le> 21"
    | (small) "- 6 < ?n" "?n \<le> 0" | (large) "21 < ?n \<or> ?n \<le> - 6"
    by linarith
  then show ?thesis
  proof cases
    case whole
    then have "layout s e = (?ds @ replicate (nat e) (CHR ''0'')) @ (if ([] :: string) = [] then [] else CHR ''.'' # []) @ []"
      by (simp add: layout_def Let_def)
    also have "readsAs \<dots> (of_nat s * 10 powi e)"
      using whole digits head
      by (intro readsAs_parts [where x = 0])
        (auto simp: readExponent_def digitsVal_zeros_after power_int_def hd_append isDigit_iff)
    finally show ?thesis .
  next
    case point
    let ?i = "nat ?n"
    have i: "0 < ?i" "?i < length ?ds" using point by simp_all
    have "layout s e = take ?i ?ds @ (if drop ?i ?ds = [] then [] else CHR ''.'' # drop ?i ?ds) @ []"
      using point i by (simp add: layout_def Let_def)
    also have "readsAs \<dots> (of_nat s * 10 powi e)"
      using digits head i point
      by (intro readsAs_parts [where x = 0])
        (auto simp: readExponent_def dest: in_set_takeD in_set_dropD)
    finally show ?thesis .
  next
    case small
    let ?f = "replicate (nat (- ?n)) (CHR ''0'') @ ?ds"
    have "digitsVal ((CHR ''0'' # []) @ ?f) = s"
      using digitsVal_zeros_append [of "Suc (nat (- ?n))" ?ds] by simp
    moreover have "int (length ?f) = - e" using small by simp
    moreover have "layout s e = (CHR ''0'' # []) @ (if ?f = [] then [] else CHR ''.'' # ?f) @ []"
      using small ds by (simp add: layout_def Let_def)
    moreover have "readsAs ((CHR ''0'' # []) @ (if ?f = [] then [] else CHR ''.'' # ?f) @ []) (of_nat s * 10 powi e)"
      using digits calculation(1,2)
      by (intro readsAs_parts [where x = 0]) (auto simp: readExponent_def isDigit_iff)
    ultimately show ?thesis by simp
  next
    case large
    let ?ep = "CHR ''e'' # (if ?n - 1 < 0 then CHR ''-'' else CHR ''+'') # decimal (nat \<bar>?n - 1\<bar>)"
    have "readExponent ?ep = Some (?n - 1)" by (simp add: readExponent_signed)
    moreover have "layout s e = [d] @ (if more = [] then [] else CHR ''.'' # more) @ ?ep"
      using large ds by (auto simp: layout_def Let_def)
    moreover have "digitsVal ([d] @ more) = s" using ds digitsVal_decimal [of s] by simp
    moreover have "?n - 1 - int (length more) = e" using ds by simp
    ultimately show ?thesis
      using digits head ds isDigit_decimal
      by (simp only:) (intro readsAs_parts [where x = "?n - 1"]; auto)
  qed
qed

text \<open>The sign.\<close>

lemma roundHalfEven_minus: "roundHalfEven (- x) = - roundHalfEven x"
proof (cases "x = of_int \<lfloor>x\<rfloor>")
  case True
  then show ?thesis by (metis of_int_minus roundHalfEven_int)
next
  case False
  have below: "of_int \<lfloor>x\<rfloor> < x" using of_int_floor_le [of x] False by linarith
  have "x < of_int \<lfloor>x\<rfloor> + 1" by linarith
  with below have f: "\<lfloor>- x\<rfloor> = - \<lfloor>x\<rfloor> - 1" by (intro floor_unique) simp_all
  have "even (- \<lfloor>x\<rfloor> - 1) \<longleftrightarrow> odd \<lfloor>x\<rfloor>" by simp
  then show ?thesis by (auto simp: roundHalfEven_def Let_def f)
qed

lemma toDouble_minus: "toDouble (- x) = - toDouble x"
  by (simp add: toDouble_def Let_def roundHalfEven_minus)

lemma readLiteral_minus:
  assumes "readLiteral s = Some l" "\<not> lit_negative l" "s \<noteq> []" "isDigit (hd s)"
  shows "readLiteral (CHR ''-'' # s) = Some (l\<lparr>lit_negative := True\<rparr>)"
  using assms by (auto simp: readLiteral_def Let_def sign_not_digit split: if_splits)

definition numeric :: "char \<Rightarrow> bool" where
  "numeric c \<longleftrightarrow> isDigit c \<or> c \<in> {CHR ''.'', CHR ''e'', CHR ''+'', CHR ''-''}"

lemma positiveText_reads:
  assumes "toDouble x = x" "0 < x"
  obtains v where "readsAs (positiveText x) v" "toDouble v = x"
proof -
  obtain s e where found: "shortestFrom (nat (magnitude x + 1100)) x (magnitude x - 1) = Some (s, e)"
      and s: "0 < s" "toDouble (of_int s * 10 powi e) = x"
    by (rule shortest_exists [OF assms])
  obtain s' e' where z: "withoutZeros (nat s) e = (s', e')" by fastforce
  have "of_nat s' * 10 powi e' = (of_int s * 10 powi e :: rat)" "0 < s'"
    using withoutZeros_value [OF z] s(1) by simp_all
  moreover have "positiveText x = layout s' e'" by (simp add: positiveText_def found z)
  ultimately show ?thesis using that layout_reads [of s' e'] s(2) by simp
qed

text \<open>What \<open>String\<close> prints of a double, \<open>Number\<close> reads as that double.\<close>

definition isDouble :: "rat \<Rightarrow> bool" where
  "isDouble q \<longleftrightarrow> toDouble q = q \<and> \<bar>q\<bar> < 2 ^ 1024"

lemma literalNumber_double: "literalNumber l = Some q \<Longrightarrow> isDouble q"
  by (auto simp: literalNumber_def isDouble_def Let_def split: if_splits)

lemma literalNumber_value:
  assumes "toDouble (literalValue l) = q" "isDouble q"
  shows "literalNumber l = Some q"
  using assms by (simp add: literalNumber_def isDouble_def Let_def)

theorem numberText_reads:
  assumes "isDouble q"
  shows "\<exists>l. readLiteral (numberText q) = Some l \<and> literalNumber l = Some q"
    and "numberText q \<noteq> []" and "list_all numeric (numberText q)"
proof -
  have q: "toDouble q = q" using assms by (simp add: isDouble_def)
  consider "q = 0" | "0 < q" | "q < 0" by linarith
  then have "(\<exists>l. readLiteral (numberText q) = Some l \<and> literalNumber l = Some q) \<and>
    numberText q \<noteq> [] \<and> list_all numeric (numberText q)"
  proof cases
    assume "q = 0"
    moreover have "readLiteral ''0'' = Some \<lparr>lit_negative = False, lit_digits = ''0'', lit_fraction = [], lit_exponent = 0\<rparr>"
      by code_simp
    ultimately show ?thesis
      by (simp add: numberText_def literalNumber_def literalValue_def digitsVal_def digitVal_def numeric_def isDigit_iff)
  next
    assume pos: "0 < q"
    obtain v where v: "readsAs (positiveText q) v" "toDouble v = q" by (rule positiveText_reads [OF q pos])
    then show ?thesis
      using pos literalNumber_value [OF _ assms]
      by (auto simp: numberText_def readsAs_def list_all_iff numeric_def)
  next
    assume neg: "q < 0"
    have "toDouble (- q) = - q" "0 < - q" using q neg by (simp_all add: toDouble_minus)
    then obtain v where v: "readsAs (positiveText (- q)) v" "toDouble v = - q" by (rule positiveText_reads)
    then obtain l where l: "readLiteral (positiveText (- q)) = Some l" "\<not> lit_negative l" "literalValue l = v"
        "positiveText (- q) \<noteq> []" "isDigit (hd (positiveText (- q)))"
      by (auto simp: readsAs_def)
    have "literalValue (l\<lparr>lit_negative := True\<rparr>) = - v" using l(2,3) by (simp add: literalValue_def)
    then have "literalNumber (l\<lparr>lit_negative := True\<rparr>) = Some q"
      using v(2) by (intro literalNumber_value [OF _ assms]) (simp add: toDouble_minus)
    then show ?thesis
      using neg v(1) readLiteral_minus [OF l(1,2,4,5)]
      by (auto simp: numberText_def readsAs_def list_all_iff numeric_def)
  qed
  then show "\<exists>l. readLiteral (numberText q) = Some l \<and> literalNumber l = Some q"
    "numberText q \<noteq> []" "list_all numeric (numberText q)" by blast+
qed

end
