(* ===== verification/Page_Candidate.thy ===== *)
theory Page_Candidate
  imports Page_Path
begin

text \<open>
  \<open>packages/core/src/contracts/page-candidate.ts\<close> and the path derivation of
  \<open>packages/core/src/canon/arbiter.ts\<close>: the typed page an event may propose, and the file a
  claim's target names.

  An error is the rule that was broken; the texts of the messages are left out.  The grammar
  of a path segment is that of \<open>Page_Path\<close>, which the sources state twice.  A character is a
  code unit below 256, so code points and code units count alike.
\<close>

section \<open>Targets\<close>

datatype TargetFault = SegmentCount | SegmentRule string

text \<open>\<open>target.split(/[:/]/)\<close>\<close>

definition targetSegments :: "string \<Rightarrow> string list" where
  "targetSegments target = split_by (\<lambda>c. c = CHR '':'' \<or> c = CHR ''/'') target"

fun segmentFault :: "string list \<Rightarrow> TargetFault option" where
  "segmentFault [] = None"
| "segmentFault (segment # rest) =
     (if length segment > MAX_SEGMENT_LENGTH \<or> \<not> PATH_SEGMENT segment
      then Some (SegmentRule (take MAX_SEGMENT_LENGTH segment))
      else segmentFault rest)"

definition targetFault :: "string \<Rightarrow> TargetFault option" where
  "targetFault target =
     (if length (targetSegments target) > MAX_SEGMENTS then Some SegmentCount
      else segmentFault (targetSegments target))"

text \<open>\<open>targetRefusal\<close> names the rule only.\<close>

datatype TargetRule = SegmentCountRule | UnusableSegment

definition targetRefusal :: "string \<Rightarrow> TargetRule option" where
  "targetRefusal target =
     map_option (\<lambda>f. case f of SegmentCount \<Rightarrow> SegmentCountRule | SegmentRule s \<Rightarrow> UnusableSegment)
       (targetFault target)"

section \<open>Candidates\<close>

definition PAGE_TYPES :: "string list" where
  "PAGE_TYPES =
     [''person'', ''org'', ''project'', ''place'', ''topic'', ''event'', ''fact'', ''source'', ''rollup'']"

definition PAGE_CANDIDATE_SCHEMA :: string where
  "PAGE_CANDIDATE_SCHEMA = ''kizuki.page-candidate/v1''"

definition PAGE_CANDIDATE_KEY :: string where
  "PAGE_CANDIDATE_KEY = ''page_candidate''"

record PageCandidate =
  candidate_type :: string
  candidate_title :: string
  candidate_target :: string
  candidate_extensions :: "(string \<times> js) list"
  candidate_confidence :: rat

datatype CandidateError =
    NotAPlainObject | BadSchema | BadType | TitleNotString | TitleControl | TitleLength
  | TargetEmpty | TargetProblem TargetFault | ExtensionsNotObject | TooManyExtensions
  | FloorOwnedKey string | BadExtensionKey string | BadExtensionValue string
  | ExtensionTooLong string | ExtensionArrayTooLong string | BadConfidence

text \<open>\<open>/^x-[A-Za-z0-9][A-Za-z0-9_-]*$/\<close>\<close>

definition EXTENSION_KEY :: "string \<Rightarrow> bool" where
  "EXTENSION_KEY k \<longleftrightarrow>
     (case k of
        a # b # c # cs \<Rightarrow> a = CHR ''x'' \<and> b = CHR ''-'' \<and> isAlnum c \<and>
          list_all (\<lambda>d. isAlnum d \<or> d = CHR ''_'' \<or> d = CHR ''-'') cs
      | _ \<Rightarrow> False)"

definition isControl :: "char \<Rightarrow> bool" where
  "isControl c \<longleftrightarrow> (of_char c :: nat) < 32 \<or> (of_char c :: nat) = 127"

definition MAX_TITLE_LENGTH :: int where "MAX_TITLE_LENGTH = 200"
definition MAX_EXTENSION_KEYS :: int where "MAX_EXTENSION_KEYS = 64"
definition MAX_EXTENSION_STRING :: int where "MAX_EXTENSION_STRING = 4096"
definition MAX_EXTENSION_ARRAY :: int where "MAX_EXTENSION_ARRAY = 256"

definition FLOOR_OWNED_KEYS :: "string list" where
  "FLOOR_OWNED_KEYS = [''id'', ''status'', ''sensitivity'', ''sources'', ''type'', ''title'']"

definition tooLong :: "string \<Rightarrow> int \<Rightarrow> bool" where
  "tooLong s limit \<longleftrightarrow>
     (if int (length s) \<le> limit then False
      else if int (length s) > limit * 2 then True
      else int (length s) > limit)"

fun stringOf :: "js \<Rightarrow> string" where
  "stringOf (Str s) = s"
| "stringOf v = []"

fun validateExtensionValue :: "string \<Rightarrow> js \<Rightarrow> CandidateError + js" where
  "validateExtensionValue key (Str s) =
     (if tooLong s MAX_EXTENSION_STRING then Inl (ExtensionTooLong key) else Inr (Str s))"
| "validateExtensionValue key (Boolean b) = Inr (Boolean b)"
| "validateExtensionValue key (Num q) = Inr (Num q)"
| "validateExtensionValue key (Arr vs) =
     (if \<not> list_all isString vs then Inl (BadExtensionValue key)
      else if int (length vs) > MAX_EXTENSION_ARRAY then Inl (ExtensionArrayTooLong key)
      else if list_ex (\<lambda>v. tooLong (stringOf v) MAX_EXTENSION_STRING) vs
      then Inl (ExtensionTooLong key)
      else Inr (Arr vs))"
| "validateExtensionValue key v = Inl (BadExtensionValue key)"

type_synonym checked_extensions = "CandidateError list \<times> (string \<times> js) list"

definition scanExtension :: "checked_extensions \<Rightarrow> string \<times> js \<Rightarrow> checked_extensions" where
  "scanExtension acc entry =
     (let (errors, extensions) = acc; (key, raw) = entry
      in if key \<in> set FLOOR_OWNED_KEYS then (errors @ [FloorOwnedKey key], extensions)
         else if \<not> EXTENSION_KEY key then (errors @ [BadExtensionKey key], extensions)
         else (case validateExtensionValue key raw of
                 Inl e \<Rightarrow> (errors @ [e], extensions)
               | Inr v \<Rightarrow> (errors, extensions @ [(key, v)])))"

fun validateExtensions :: "js \<Rightarrow> checked_extensions" where
  "validateExtensions (Obj kvs) =
     (if int (length kvs) > MAX_EXTENSION_KEYS then ([TooManyExtensions], [])
      else foldl scanExtension ([], []) (objectEntries (Obj kvs)))"
| "validateExtensions v = ([ExtensionsNotObject], [])"

definition titleErrors :: "js \<Rightarrow> CandidateError list" where
  "titleErrors title =
     (case title of
        Str s \<Rightarrow>
          if list_ex isControl s then [TitleControl]
          else if trim s = [] \<or> tooLong (trim s) MAX_TITLE_LENGTH then [TitleLength]
          else []
      | _ \<Rightarrow> [TitleNotString])"

definition targetErrors :: "js \<Rightarrow> CandidateError list" where
  "targetErrors target =
     (case target of
        Str s \<Rightarrow>
          if s = [] then [TargetEmpty]
          else (case targetFault s of None \<Rightarrow> [] | Some f \<Rightarrow> [TargetProblem f])
      | _ \<Rightarrow> [TargetEmpty])"

fun ratOf :: "js \<Rightarrow> rat" where
  "ratOf (Num q) = q"
| "ratOf v = 0"

definition validatePageCandidate ::
  "(string \<times> js) list \<Rightarrow> (CandidateError list + PageCandidate) option" where
  "validatePageCandidate metadata =
     (case map_of metadata PAGE_CANDIDATE_KEY of
        None \<Rightarrow> None
      | Some (Obj raw) \<Rightarrow>
          (let (extensionErrors, extensions) = validateExtensions (field raw ''extensions'');
               errors =
                 (if field raw ''schema'' \<noteq> Str PAGE_CANDIDATE_SCHEMA then [BadSchema] else []) @
                 (if field raw ''type'' \<notin> Str ` set PAGE_TYPES then [BadType] else []) @
                 titleErrors (field raw ''title'') @
                 targetErrors (field raw ''target'') @
                 extensionErrors @
                 (if \<not> isUnitNumber (field raw ''confidence'') then [BadConfidence] else [])
           in if errors \<noteq> [] then Some (Inl errors)
              else Some (Inr
                \<lparr>candidate_type = stringOf (field raw ''type''),
                 candidate_title = stringOf (field raw ''title''),
                 candidate_target = stringOf (field raw ''target''),
                 candidate_extensions = extensions,
                 candidate_confidence = ratOf (field raw ''confidence'')\<rparr>))
      | Some v \<Rightarrow> Some (Inl [NotAPlainObject]))"

section \<open>Well-formed candidates\<close>

definition goodExtension :: "string \<times> js \<Rightarrow> bool" where
  "goodExtension e \<longleftrightarrow> EXTENSION_KEY (fst e) \<and> validateExtensionValue (fst e) (snd e) = Inr (snd e)"

definition wellFormedCandidate :: "PageCandidate \<Rightarrow> bool" where
  "wellFormedCandidate c \<longleftrightarrow>
     candidate_type c \<in> set PAGE_TYPES \<and>
     list_all (\<lambda>d. \<not> isControl d) (candidate_title c) \<and> trim (candidate_title c) \<noteq> [] \<and>
     int (length (trim (candidate_title c))) \<le> MAX_TITLE_LENGTH \<and>
     candidate_target c \<noteq> [] \<and> targetFault (candidate_target c) = None \<and>
     int (length (candidate_extensions c)) \<le> MAX_EXTENSION_KEYS \<and>
     list_all goodExtension (candidate_extensions c) \<and>
     0 \<le> candidate_confidence c \<and> candidate_confidence c \<le> 1"

text \<open>The object a producer writes for a candidate.\<close>

definition candidateFields :: "PageCandidate \<Rightarrow> (string \<times> js) list" where
  "candidateFields c =
     [(''schema'', Str PAGE_CANDIDATE_SCHEMA), (''type'', Str (candidate_type c)),
      (''title'', Str (candidate_title c)), (''target'', Str (candidate_target c)),
      (''extensions'', Obj (candidate_extensions c)), (''confidence'', Num (candidate_confidence c))]"

lemma tooLong_iff [simp]: "0 \<le> limit \<Longrightarrow> tooLong s limit \<longleftrightarrow> limit < int (length s)"
  by (auto simp: tooLong_def)

lemma extension_not_owned: "EXTENSION_KEY k \<Longrightarrow> k \<notin> set FLOOR_OWNED_KEYS"
  by (auto simp: FLOOR_OWNED_KEYS_def EXTENSION_KEY_def)

lemma extension_not_index: "EXTENSION_KEY k \<Longrightarrow> \<not> isIndex k"
  by (auto simp: EXTENSION_KEY_def isIndex_def isDigit_def in_range_def split: list.splits)

lemma validateExtensionValue_same: "validateExtensionValue k v = Inr w \<Longrightarrow> w = v"
  by (cases v) (auto split: if_splits)

lemma scanExtension_sound:
  assumes "list_all goodExtension (snd acc)"
  shows "list_all goodExtension (snd (scanExtension acc e)) \<and>
    length (snd (scanExtension acc e)) \<le> length (snd acc) + 1"
  using assms
  by (cases acc; cases e)
    (auto simp: scanExtension_def goodExtension_def dest: validateExtensionValue_same split: sum.split)

lemma scanExtensions_sound:
  assumes "list_all goodExtension (snd acc)"
  shows "list_all goodExtension (snd (foldl scanExtension acc es)) \<and>
    length (snd (foldl scanExtension acc es)) \<le> length (snd acc) + length es"
  using assms
proof (induction es arbitrary: acc)
  case (Cons e es)
  note one = scanExtension_sound [OF Cons.prems, of e]
  from Cons.IH [OF conjunct1 [OF one]] one show ?case by simp
qed simp

lemma scanExtensions_good:
  assumes "list_all goodExtension es"
  shows "foldl scanExtension acc es = (fst acc, snd acc @ es)"
  using assms
proof (induction es arbitrary: acc)
  case (Cons e es)
  have "scanExtension acc e = (fst acc, snd acc @ [e])"
    using Cons.prems extension_not_owned
    by (cases acc; cases e) (auto simp: scanExtension_def goodExtension_def)
  then show ?case using Cons by simp
qed simp

lemma length_objectEntries [simp]: "length (objectEntries v) = length (entriesOf v)"
  by (simp add: objectEntries_def sum_length_filter_compl)

lemma objectEntries_named:
  assumes "list_all goodExtension es"
  shows "objectEntries (Obj es) = es"
proof -
  have "filter (\<lambda>e. isIndex (fst e)) es = []" "filter (\<lambda>e. \<not> isIndex (fst e)) es = es"
    using assms extension_not_index by (auto simp: list_all_iff goodExtension_def filter_empty_conv)
  then show ?thesis by (simp add: objectEntries_def)
qed

lemma validateExtensions_facts:
  assumes "validateExtensions v = (errors, es)"
  shows "list_all goodExtension es \<and> int (length es) \<le> MAX_EXTENSION_KEYS"
proof (cases v)
  case (Obj kvs)
  show ?thesis
    using assms scanExtensions_sound [of "([], [])" "objectEntries (Obj kvs)"]
    by (auto simp: Obj MAX_EXTENSION_KEYS_def split: if_splits)
qed (use assms in \<open>auto simp: MAX_EXTENSION_KEYS_def\<close>)

text \<open>Extensions without an error are kept whole.\<close>

lemma scanExtensions_errors:
  assumes "fst (foldl scanExtension acc es) = []"
  shows "list_all goodExtension es"
  using assms
proof (induction es arbitrary: acc)
  case (Cons e es)
  have grows: "fst (foldl scanExtension a es) = [] \<Longrightarrow> fst a = []" for a es
  proof (induction es arbitrary: a)
    case (Cons e es)
    have "fst (scanExtension a e) = []" using Cons by simp
    then show ?case by (auto simp: scanExtension_def split: prod.splits if_splits sum.splits)
  qed simp
  have "fst (scanExtension acc e) = []" using grows Cons.prems by simp
  then have "goodExtension e"
    by (cases acc; cases e)
      (auto simp: scanExtension_def goodExtension_def split: if_splits sum.splits
        dest: validateExtensionValue_same)
  then show ?case using Cons by simp
qed simp

lemma accepted_extensions:
  assumes "validateExtensions (Obj kvs) = (errors, es)" "errors = []"
  shows "list_all goodExtension kvs \<and> int (length kvs) \<le> MAX_EXTENSION_KEYS"
proof -
  have "list_all goodExtension (objectEntries (Obj kvs))" "int (length kvs) \<le> MAX_EXTENSION_KEYS"
    using assms scanExtensions_errors [of "([], [])" "objectEntries (Obj kvs)"]
    by (auto split: if_splits)
  then show ?thesis by (simp add: list_all_iff)
qed

lemma accepted_candidate:
  assumes "validatePageCandidate metadata = Some (Inr c)"
  shows "wellFormedCandidate c"
proof -
  obtain v where "map_of metadata PAGE_CANDIDATE_KEY = Some v"
    using assms by (cases "map_of metadata PAGE_CANDIDATE_KEY") (simp_all add: validatePageCandidate_def)
  then obtain raw where raw: "map_of metadata PAGE_CANDIDATE_KEY = Some (Obj raw)"
    using assms by (cases v) (simp_all add: validatePageCandidate_def)
  obtain errors es where es: "validateExtensions (field raw ''extensions'') = (errors, es)"
    by (cases "validateExtensions (field raw ''extensions'')")
  show ?thesis
    using assms raw es validateExtensions_facts [OF es]
    by (auto simp: validatePageCandidate_def wellFormedCandidate_def titleErrors_def targetErrors_def
        isUnitNumber_iff list_all_iff list_ex_iff MAX_TITLE_LENGTH_def
        split: if_splits js.splits option.splits)
qed

lemma refused_candidate:
  "validatePageCandidate metadata = Some (Inl errors) \<Longrightarrow> errors \<noteq> []"
  by (auto simp: validatePageCandidate_def Let_def split: option.splits js.splits prod.splits if_splits)

lemma candidateFields_fields:
  "field (candidateFields c) ''schema'' = Str PAGE_CANDIDATE_SCHEMA"
  "field (candidateFields c) ''type'' = Str (candidate_type c)"
  "field (candidateFields c) ''title'' = Str (candidate_title c)"
  "field (candidateFields c) ''target'' = Str (candidate_target c)"
  "field (candidateFields c) ''extensions'' = Obj (candidate_extensions c)"
  "field (candidateFields c) ''confidence'' = Num (candidate_confidence c)"
  by (simp_all add: candidateFields_def field_def)

lemma text_errors_Nil:
  "titleErrors (Str (candidate_title c)) @ targetErrors (Str (candidate_target c)) = [] \<longleftrightarrow>
     list_all (\<lambda>d. \<not> isControl d) (candidate_title c) \<and> trim (candidate_title c) \<noteq> [] \<and>
     int (length (trim (candidate_title c))) \<le> MAX_TITLE_LENGTH \<and>
     candidate_target c \<noteq> [] \<and> targetFault (candidate_target c) = None"
  by (auto simp: titleErrors_def targetErrors_def list_all_iff list_ex_iff MAX_TITLE_LENGTH_def
      split: option.split)

lemma written_candidate:
  "if wellFormedCandidate c
   then validatePageCandidate [(PAGE_CANDIDATE_KEY, Obj (candidateFields c))] = Some (Inr c)
   else \<exists>errors. validatePageCandidate [(PAGE_CANDIDATE_KEY, Obj (candidateFields c))] = Some (Inl errors)"
proof -
  obtain errors es where es: "validateExtensions (Obj (candidate_extensions c)) = (errors, es)"
    by fastforce
  have good: "errors = []" "es = candidate_extensions c" if "wellFormedCandidate c"
    using that es scanExtensions_good [of "candidate_extensions c" "([], [])"]
      objectEntries_named [of "candidate_extensions c"]
    by (auto simp: wellFormedCandidate_def)
  show ?thesis
  proof (cases "wellFormedCandidate c")
    case True
    then show ?thesis
      using good text_errors_Nil [of c]
      by (auto simp: validatePageCandidate_def candidateFields_fields es wellFormedCandidate_def
          simp del: validateExtensions.simps)
  next
    case False
    have "list_all goodExtension (candidate_extensions c) \<and>
        int (length (candidate_extensions c)) \<le> MAX_EXTENSION_KEYS" if "errors = []"
      using es that by (rule accepted_extensions)
    then show ?thesis
      using False text_errors_Nil [of c]
      by (auto simp: validatePageCandidate_def candidateFields_fields es wellFormedCandidate_def
          simp del: validateExtensions.simps)
  qed
qed

section \<open>The file a target names\<close>

datatype CanonWriteError =
    WriterBusy | ClaimNotLive | ClaimKindRetired | ClaimUnknown | ClaimMismatch | BatchMismatch
  | BatchTooLarge | NothingToWrite | PageExists | PageRequired | PageMissing | PageTooLarge
  | UnresolvedProvenance | FrontmatterReserved | FrontmatterConflict | FrontmatterInvalid
  | PageTypeInvalid | TargetInvalid TargetRule | PathInvalid | WriterInvalid | DecisionStale
  | CanonCeiling | CanonScanIncomplete

definition pageRelPath :: "string \<Rightarrow> string option \<Rightarrow> CanonWriteError + string" where
  "pageRelPath claimId target =
     (case target of
        None \<Rightarrow> Inr (''captures/'' @ claimId @ ''.md'')
      | Some t \<Rightarrow>
          if t = [] then Inr (''captures/'' @ claimId @ ''.md'')
          else (case targetRefusal t of
                  Some rule \<Rightarrow> Inl (TargetInvalid rule)
                | None \<Rightarrow> Inr (join_with ''/'' (targetSegments t) @ ''.md'')))"

lemma targetSegments_nonempty [simp]: "targetSegments t \<noteq> []"
  by (simp add: targetSegments_def)

lemma segmentFault_None:
  "segmentFault segs = None \<longleftrightarrow> list_all (\<lambda>s. length s \<le> MAX_SEGMENT_LENGTH \<and> PATH_SEGMENT s) segs"
  by (induction segs) auto

lemma targetRefusal_None:
  "targetRefusal t = None \<longleftrightarrow> length (targetSegments t) \<le> MAX_SEGMENTS \<and>
    list_all (\<lambda>s. length s \<le> MAX_SEGMENT_LENGTH \<and> PATH_SEGMENT s) (targetSegments t)"
  by (auto simp: targetRefusal_def targetFault_def segmentFault_None)

lemma PATH_SEGMENT_dot_md: "PATH_SEGMENT s \<Longrightarrow> PATH_SEGMENT (s @ ''.md'')"
  by (cases s) (auto simp: PATH_SEGMENT_def isAlnum_def isLower_def in_range_def)

lemma PATH_SEGMENT_no_slash: "PATH_SEGMENT s \<Longrightarrow> CHR ''/'' \<notin> set s"
  by (cases s) (auto simp: PATH_SEGMENT_def isAlnum_def isLower_def isUpper_def isDigit_def
      in_range_def list_all_iff)

lemma join_with_last:
  "ws \<noteq> [] \<Longrightarrow> join_with sep ws @ x = join_with sep (butlast ws @ [last ws @ x])"
proof (induction sep ws rule: join_with.induct)
  case (3 sep w v ws)
  then show ?case by (cases ws) auto
qed auto

lemma segmentsOk_extended:
  assumes "segs \<noteq> []" "list_all (\<lambda>s. length s \<le> MAX_SEGMENT_LENGTH \<and> PATH_SEGMENT s) segs"
  shows "segmentsOk (butlast segs @ [last segs @ ''.md''])"
  using assms
proof (induction segs)
  case (Cons s segs)
  then show ?case by (cases segs) (auto simp: PATH_SEGMENT_dot_md Let_def)
qed simp

lemma target_path:
  assumes "t \<noteq> []" "pageRelPath claimId (Some t) = Inr path"
  shows "split_on (CHR ''/'') path = butlast (targetSegments t) @ [last (targetSegments t) @ ''.md''] \<and>
    length (targetSegments t) \<le> MAX_SEGMENTS \<and> segmentsOk (split_on (CHR ''/'') path)"
proof -
  let ?segs = "targetSegments t"
  have ok: "length ?segs \<le> MAX_SEGMENTS"
      "list_all (\<lambda>s. length s \<le> MAX_SEGMENT_LENGTH \<and> PATH_SEGMENT s) ?segs"
    and path: "path = join_with ''/'' ?segs @ ''.md''"
    using assms by (auto simp: pageRelPath_def targetRefusal_None split: option.splits)
  have "CHR ''/'' \<notin> set w" if "w \<in> set (butlast ?segs @ [last ?segs @ ''.md''])" for w
    using that ok(2) PATH_SEGMENT_no_slash in_set_butlastD [of w ?segs]
    by (auto simp: list_all_iff)
  then have "split_on (CHR ''/'') path = butlast ?segs @ [last ?segs @ ''.md'']"
    unfolding path join_with_last [OF targetSegments_nonempty] by (intro split_join) auto
  then show ?thesis using ok segmentsOk_extended [OF targetSegments_nonempty ok(2)] by simp
qed

section \<open>Properties\<close>


text \<open>C39: the file a target names stays inside the vault, and the writer accepts it unless it
  is one of the two root documents or lies in the archive - which the rule a producer can
  check beforehand does not say.\<close>

theorem derived_path_accepted:
  assumes "target \<noteq> []" "pageRelPath claimId (Some target) = Inr path"
  shows "contained path \<and>
    (assertPageRelPath (Str path) = Inr () \<longleftrightarrow>
      split_on (CHR ''/'') path ! 0 \<noteq> ''archive'' \<and> path \<noteq> ''CANON.md'' \<and> path \<noteq> ''SCHEMA.md'')"
proof -
  let ?segs = "targetSegments target" and ?parts = "split_on (CHR ''/'') path"
  note t = target_path [OF assms]
  have last: "last ?parts = last ?segs @ ''.md''" "length ?parts = length ?segs" using t by simp_all
  have "last ?segs \<noteq> []"
    using assms by (auto simp: pageRelPath_def targetRefusal_None PATH_SEGMENT_def list_all_iff
        split: option.splits list.splits dest: bspec [of _ _ "last ?segs"])
  then have md: "endsWith (last ?parts) ''.md''" "3 < length (last ?parts)"
    by (simp_all add: last endsWith_def)
  have whole: "path = join_with ''/'' ?parts" by (simp add: join_split)
  have single: "length ?parts = 1 \<and> last ?parts = doc \<longleftrightarrow> path = doc" if "CHR ''/'' \<notin> set doc" for doc
  proof
    assume "path = doc"
    then have "?parts = [doc]" using that by (auto intro: split_by_none)
    then show "length ?parts = 1 \<and> last ?parts = doc" by simp
  qed (subst whole, auto simp: length_Suc_conv)
  have "assertPageRelPath (Str path) = Inr () \<longleftrightarrow>
      ?parts ! 0 \<noteq> ''archive'' \<and> \<not> (length ?parts = 1 \<and> (last ?parts = ''CANON.md'' \<or> last ?parts = ''SCHEMA.md''))"
    using t md last by (auto simp: assertPageRelPath_def Let_def)
  moreover have "contained path"
    using segmentsOk_all PATH_SEGMENT_contained t unfolding contained_def by blast
  ultimately show ?thesis using single [of "''CANON.md''"] single [of "''SCHEMA.md''"] by auto
qed

theorem derived_path_accepted_witness:
  "assertPageRelPath (Str ''people/ada.md'') = Inr () \<and> contained ''people/ada.md''"
proof -
  have "pageRelPath ''c'' (Some ''people:ada'') = Inr ''people/ada.md''" by code_simp
  from derived_path_accepted [OF _ this] show ?thesis by (simp add: text_simps)
qed

end
