(* ===== verification/Frontmatter.thy ===== *)
theory Frontmatter
  imports Json_Text Page_Candidate
begin

text \<open>
  \<open>packages/core/src/vault/frontmatter.ts\<close>: a page of the vault as text - the reader and the
  writer of its frontmatter.

  The data of a page is its list of entries in insertion order.  A HOL character is one code
  unit below 256; an escape of a larger one is the fault \<open>OutsideAlphabet\<close>, which the
  language does not have.  The two zeros of the language are one number here.
\<close>

section \<open>Reading\<close>

record VaultPage =
  page_data :: "(string \<times> js) list"
  page_body :: string

datatype ValueFault =
    InvalidDouble | InvalidSingle | SingleNotDoubled | UnterminatedItem | EmptyItem
  | InvalidQuotedItem | OnlyStrings | UnterminatedArray | OutsideAlphabet

datatype PageSyntax =
    NoOpening | NoClosing | ExpectedPair nat | InvalidKey nat string | DuplicateKey string
  | InvalidValue string ValueFault

abbreviation APOSTROPHE :: char where "APOSTROPHE \<equiv> CHR 0x27"

definition KEY :: "string \<Rightarrow> bool" where
  "KEY s \<longleftrightarrow> s \<noteq> [] \<and> isAlnum (hd s) \<and>
     list_all (\<lambda>c. isAlnum c \<or> c = CHR ''_'' \<or> c = CHR ''-'') (tl s)"

definition NUMBER :: "string \<Rightarrow> bool" where
  "NUMBER s \<longleftrightarrow> readLiteral s \<noteq> None"

definition parseDoubleQuoted :: "string \<Rightarrow> ValueFault + string" where
  "parseDoubleQuoted raw =
     (case parseJsonString raw of
        Inr s \<Rightarrow> Inr s
      | Inl Malformed \<Rightarrow> Inl InvalidDouble
      | Inl Beyond \<Rightarrow> Inl OutsideAlphabet)"

fun undouble :: "string \<Rightarrow> ValueFault + string" where
  "undouble [] = Inr []"
| "undouble (c # rest) =
     (if c \<noteq> APOSTROPHE then andThen (undouble rest) (\<lambda>s. Inr (c # s))
      else (case rest of
              [] \<Rightarrow> Inl SingleNotDoubled
            | d # later \<Rightarrow>
                if d \<noteq> APOSTROPHE then Inl SingleNotDoubled
                else andThen (undouble later) (\<lambda>s. Inr (APOSTROPHE # s))))"

definition parseSingleQuoted :: "string \<Rightarrow> ValueFault + string" where
  "parseSingleQuoted raw =
     guard (2 \<le> length raw \<and> endsWith raw [APOSTROPHE]) InvalidSingle (undouble (butlast (tl raw)))"

text \<open>The loop of \<open>splitInlineArray\<close>: the open quote, whether a backslash was just read, the
  current item and the finished ones.\<close>

datatype Quote = NoQuote | DoubleQuote | SingleQuote

fun splitItems :: "Quote \<Rightarrow> bool \<Rightarrow> string \<Rightarrow> string list \<Rightarrow> string \<Rightarrow> ValueFault + string list" where
  "splitItems q escaped current parts [] =
     guard (q = NoQuote \<and> \<not> escaped) UnterminatedItem (Inr (parts @ [current]))"
| "splitItems DoubleQuote escaped current parts (c # rest) =
     (if escaped then splitItems DoubleQuote False (current @ [c]) parts rest
      else if c = BACKSLASH then splitItems DoubleQuote True (current @ [c]) parts rest
      else if c = QUOTE then splitItems NoQuote False (current @ [c]) parts rest
      else splitItems DoubleQuote False (current @ [c]) parts rest)"
| "splitItems SingleQuote escaped current parts (c # rest) =
     (if c = APOSTROPHE \<and> rest \<noteq> [] \<and> hd rest = APOSTROPHE
      then splitItems SingleQuote escaped (current @ [c, c]) parts (tl rest)
      else if c = APOSTROPHE then splitItems NoQuote escaped (current @ [c]) parts rest
      else splitItems SingleQuote escaped (current @ [c]) parts rest)"
| "splitItems NoQuote escaped current parts (c # rest) =
     (if c = QUOTE then splitItems DoubleQuote escaped (current @ [c]) parts rest
      else if c = APOSTROPHE then splitItems SingleQuote escaped (current @ [c]) parts rest
      else if c = CHR '','' then splitItems NoQuote escaped [] (parts @ [current]) rest
      else splitItems NoQuote escaped (current @ [c]) parts rest)"

definition splitInlineArray :: "string \<Rightarrow> ValueFault + string list" where
  "splitInlineArray inner = splitItems NoQuote False [] [] inner"

definition parseArrayItem :: "string \<Rightarrow> ValueFault + string" where
  "parseArrayItem raw =
     (let item = trim raw
      in if item = [] then Inl EmptyItem
         else if startsWith item [QUOTE] then parseDoubleQuoted item
         else if startsWith item [APOSTROPHE] then parseSingleQuoted item
         else if endsWith item [QUOTE] \<or> endsWith item [APOSTROPHE] then Inl InvalidQuotedItem
         else if item = ''true'' \<or> item = ''false'' \<or> NUMBER item then Inl OnlyStrings
         else Inr item)"

definition parseInlineArray :: "string \<Rightarrow> ValueFault + string list" where
  "parseInlineArray raw =
     guard (endsWith raw '']'') UnterminatedArray
       (let inner = trim (butlast (tl raw))
        in if inner = [] then Inr []
           else andThen (splitInlineArray inner) (mapM parseArrayItem))"

definition parseValue :: "string \<Rightarrow> ValueFault + js" where
  "parseValue raw =
     (if startsWith raw [QUOTE] then andThen (parseDoubleQuoted raw) (\<lambda>s. Inr (Str s))
      else if startsWith raw [APOSTROPHE] then andThen (parseSingleQuoted raw) (\<lambda>s. Inr (Str s))
      else if startsWith raw ''['' then andThen (parseInlineArray raw) (\<lambda>ss. Inr (Arr (map Str ss)))
      else if raw = ''true'' then Inr (Boolean True)
      else if raw = ''false'' then Inr (Boolean False)
      else (case Option.bind (readLiteral raw) literalNumber of
              Some q \<Rightarrow> Inr (Num q)
            | None \<Rightarrow> Inr (Str raw)))"

text \<open>\<open>/^---(?:\r\n|\n)/\<close>: what follows the opening line.\<close>

definition afterOpening :: "string \<Rightarrow> string option" where
  "afterOpening markdown =
     (let rest = drop 3 markdown
      in if \<not> startsWith markdown ''---'' then None
         else if startsWith rest [RETURN, NEWLINE] then Some (drop 2 rest)
         else if startsWith rest [NEWLINE] then Some (drop 1 rest)
         else None)"

text \<open>\<open>/^---(?:\r\n|\n|$)/m\<close>: at the start of a line; \<open>$\<close> also matches before a line end.\<close>

definition afterClosing :: "string \<Rightarrow> string option" where
  "afterClosing s =
     (let rest = drop 3 s
      in if \<not> startsWith s ''---'' then None
         else if startsWith rest [RETURN, NEWLINE] then Some (drop 2 rest)
         else if startsWith rest [NEWLINE] then Some (drop 1 rest)
         else if rest = [] \<or> hd rest = RETURN then Some rest
         else None)"

fun findClosing :: "bool \<Rightarrow> string \<Rightarrow> string \<Rightarrow> (string \<times> string) option" where
  "findClosing atStart taken [] = None"
| "findClosing atStart taken (c # rest) =
     (case (if atStart then afterClosing (c # rest) else None) of
        Some after \<Rightarrow> Some (taken, after)
      | None \<Rightarrow> findClosing (c = NEWLINE \<or> c = RETURN) (taken @ [c]) rest)"

text \<open>\<open>split(/\r?\n/)\<close>\<close>

definition dropReturn :: "string \<Rightarrow> string" where
  "dropReturn s = (if s \<noteq> [] \<and> last s = RETURN then butlast s else s)"

definition frontmatterLines :: "string \<Rightarrow> string list" where
  "frontmatterLines s =
     (let pieces = split_on NEWLINE s in map dropReturn (butlast pieces) @ [last pieces])"

fun parsePairs :: "nat \<Rightarrow> (string \<times> js) list \<Rightarrow> string list \<Rightarrow> PageSyntax + (string \<times> js) list" where
  "parsePairs n entries [] = Inr entries"
| "parsePairs n entries (line # rest) =
     (if trim line = [] then parsePairs (n + 1) entries rest
      else if CHR '':'' \<notin> set line \<or> hd line = CHR '':'' then Inl (ExpectedPair n)
      else
        (let key = trim (takeWhile (\<lambda>c. c \<noteq> CHR '':'') line);
             raw = trim (tl (dropWhile (\<lambda>c. c \<noteq> CHR '':'') line))
         in guard (KEY key) (InvalidKey n key)
            (guard (key \<notin> fst ` set entries) (DuplicateKey key)
              (case parseValue raw of
                 Inl e \<Rightarrow> Inl (InvalidValue key e)
               | Inr v \<Rightarrow> parsePairs (n + 1) (entries @ [(key, v)]) rest))))"

definition parseFrontmatter :: "string \<Rightarrow> PageSyntax + VaultPage" where
  "parseFrontmatter markdown =
     (case afterOpening markdown of
        None \<Rightarrow> Inl NoOpening
      | Some remainder \<Rightarrow>
          (case findClosing True [] remainder of
             None \<Rightarrow> Inl NoClosing
           | Some (frontmatter, rest) \<Rightarrow>
               andThen (parsePairs 1 [] (frontmatterLines frontmatter)) (\<lambda>entries.
                 Inr \<lparr>page_data = entries, page_body = rest\<rparr>)))"

section \<open>Writing\<close>

datatype PageUnwritable = UnwritableKey string | UnwritableValue string

definition jsonArray :: "string list \<Rightarrow> string" where
  "jsonArray ss = CHR ''['' # join_with '','' (map jsonString ss) @ '']''"

fun serializeValue :: "js \<Rightarrow> string option" where
  "serializeValue (Str s) = Some (jsonString s)"
| "serializeValue (Boolean b) = Some (if b then ''true'' else ''false'')"
| "serializeValue (Num q) = Some (numberText q)"
| "serializeValue (Arr vs) = (if list_all isString vs then Some (jsonArray (map stringOf vs)) else None)"
| "serializeValue v = None"

definition CANONICAL_FRONTMATTER_KEYS :: "string list" where
  "CANONICAL_FRONTMATTER_KEYS =
     [''id'', ''title'', ''type'', ''status'', ''sensitivity'', ''taint'', ''sources'', ''subjects'']"

definition canonicalizeFrontmatterKeys :: "(string \<times> js) list \<Rightarrow> string list" where
  "canonicalizeFrontmatterKeys entries =
     filter (\<lambda>k. k \<in> fst ` set entries) CANONICAL_FRONTMATTER_KEYS @
     filter (\<lambda>k. k \<notin> set CANONICAL_FRONTMATTER_KEYS) (sort (map fst entries))"

definition serializeLine :: "(string \<times> js) list \<Rightarrow> string \<Rightarrow> PageUnwritable + string" where
  "serializeLine entries key =
     guard (KEY key) (UnwritableKey key)
       (case serializeValue (field entries key) of
          None \<Rightarrow> Inl (UnwritableValue key)
        | Some text \<Rightarrow> Inr (key @ '': '' @ text))"

definition serializePage :: "VaultPage \<Rightarrow> PageUnwritable + string" where
  "serializePage p =
     andThen (mapM (serializeLine (page_data p)) (canonicalizeFrontmatterKeys (page_data p))) (\<lambda>lines.
       Inr (join_with [NEWLINE] ([''---''] @ lines @ [''---'']) @ NEWLINE # newlines (page_body p)))"

section \<open>What the writer prints\<close>

lemma startsWith_Cons [simp]: "startsWith (c # s) [d] \<longleftrightarrow> c = d" "\<not> startsWith [] [d]"
  by (auto simp: startsWith_def)

lemma endsWith_snoc [simp]: "endsWith (s @ [c]) [d] \<longleftrightarrow> c = d"
  by (simp add: endsWith_def)

lemma printable_not_space: "32 < (of_char c :: nat) \<Longrightarrow> of_char c \<noteq> (160 :: nat) \<Longrightarrow> \<not> isSpace c"
  by (auto simp: isSpace_def)

lemma trim_id:
  assumes "s \<noteq> []" "\<not> isSpace (hd s)" "\<not> isSpace (last s)"
  shows "trim s = s" "trim (CHR '' '' # s) = s"
proof -
  have front: "dropWhile isSpace s = s" using assms by (cases s) auto
  have "dropWhile isSpace (rev s) = rev s" using assms(1,3) by (cases s rule: rev_cases) auto
  then show "trim s = s" "trim (CHR '' '' # s) = s"
    using front by (simp_all add: trim_def) (simp_all add: isSpace_def)
qed

lemma special_not_space [simp]: "\<not> isSpace QUOTE" "\<not> isSpace (CHR ''['')" "\<not> isSpace (CHR '']'')"
  by (simp_all add: isSpace_def)

lemma alnum_code: "isAlnum c \<Longrightarrow> 48 \<le> (of_char c :: nat) \<and> (of_char c :: nat) \<le> 122 \<and> of_char c \<notin> {58, 91, 92, 93 :: nat}"
  by (auto simp: isAlnum_def isDigit_def isUpper_def isLower_def in_range_def)

lemma numeric_code: "numeric c \<Longrightarrow> 43 \<le> (of_char c :: nat) \<and> (of_char c :: nat) \<le> 101 \<and> of_char c \<notin> {91 :: nat}"
  by (auto simp: numeric_def isDigit_iff)

lemma KEY_facts:
  assumes "KEY k"
  shows "k \<noteq> []" "isAlnum (hd k)" "\<not> isSpace (hd k)" "\<not> isSpace (last k)" "CHR '':'' \<notin> set k"
    "\<forall>c\<in>set k. 45 \<le> (of_char c :: nat)" "trim k = k"
proof -
  have chars: "isAlnum c \<or> c = CHR ''_'' \<or> c = CHR ''-''" if "c \<in> set k" for c
    using assms that by (cases k) (auto simp: KEY_def list_all_iff)
  have code: "45 \<le> (of_char c :: nat) \<and> (of_char c :: nat) \<le> 122 \<and> of_char c \<noteq> (58 :: nat)" if "c \<in> set k" for c
    using chars [OF that] alnum_code [of c] by auto
  show k: "k \<noteq> []" "isAlnum (hd k)" using assms by (simp_all add: KEY_def)
  have clear: "\<not> isSpace c" if "c \<in> set k" for c using code [OF that] by (intro printable_not_space) auto
  show "\<not> isSpace (hd k)" "\<not> isSpace (last k)" using k(1) clear by simp_all
  then show "trim k = k" using trim_id k(1) by blast
  show "CHR '':'' \<notin> set k" using code [of "CHR '':''"] by auto
  show "\<forall>c\<in>set k. 45 \<le> (of_char c :: nat)" using code by blast
qed

text \<open>Items of a printed array.\<close>

lemma splitItems_quoteChar:
  "splitItems DoubleQuote False current parts (quoteChar c @ rest) =
     splitItems DoubleQuote False (current @ quoteChar c) parts rest"
proof -
  have hex: "hexDigit d \<noteq> BACKSLASH \<and> hexDigit d \<noteq> QUOTE" if "d < 16" for d
  proof -
    have "of_char (hexDigit d) \<notin> {34, 92 :: nat}"
      using that by (auto simp: hexDigit_def digitChar_def of_char_of)
    then show ?thesis by auto
  qed
  have "of_char c div 16 < (16 :: nat)" "of_char c mod 16 < (16 :: nat)" if "of_char c < (32 :: nat)"
    using that by auto
  moreover have "c \<noteq> QUOTE \<and> c \<noteq> BACKSLASH" if "map_of escapes c = None"
    using that by (auto simp: escapes_def split: if_splits)
  ultimately show ?thesis using hex by (auto simp: quoteChar_def split: option.split)
qed

lemma splitItems_chars:
  "splitItems DoubleQuote False current parts (concat (map quoteChar s) @ QUOTE # rest) =
     splitItems NoQuote False (current @ concat (map quoteChar s) @ [QUOTE]) parts rest"
  by (induction s arbitrary: current) (simp_all add: splitItems_quoteChar)

lemma splitItems_item:
  "splitItems NoQuote False [] parts (jsonString s @ rest) = splitItems NoQuote False (jsonString s) parts rest"
  by (simp add: jsonString_def splitItems_chars)

lemma splitItems_joined:
  "ss \<noteq> [] \<Longrightarrow> splitItems NoQuote False [] parts (join_with '','' (map jsonString ss)) = Inr (parts @ map jsonString ss)"
proof (induction ss arbitrary: parts rule: induct_list012)
  case (2 s)
  then show ?case using splitItems_item [of parts s "[]"] by (simp add: guard_def)
next
  case (3 s s' ss)
  then show ?case by (simp add: splitItems_item)
qed simp

lemma jsonString_ends: "jsonString s \<noteq> []" "hd (jsonString s) = QUOTE" "last (jsonString s) = QUOTE"
  by (simp_all add: jsonString_def)

lemma parseArrayItem_jsonString: "parseArrayItem (jsonString s) = Inr s"
proof -
  have "trim (jsonString s) = jsonString s" by (intro trim_id) (simp_all add: jsonString_ends)
  moreover have "startsWith (jsonString s) [QUOTE]" by (simp add: jsonString_def)
  ultimately show ?thesis by (simp add: parseArrayItem_def parseDoubleQuoted_def jsonString_ends)
qed

lemma joined_ends:
  assumes "ss \<noteq> []"
  shows "join_with '','' (map jsonString ss) \<noteq> [] \<and> hd (join_with '','' (map jsonString ss)) = QUOTE \<and>
    last (join_with '','' (map jsonString ss)) = QUOTE"
  using assms by (induction ss rule: induct_list012) (simp_all add: jsonString_ends)

lemma parseInlineArray_jsonArray: "parseInlineArray (jsonArray ss) = Inr ss"
proof (cases "ss = []")
  case True
  have "trim [] = []" by (simp add: trim_def)
  then show ?thesis by (simp add: True parseInlineArray_def jsonArray_def guard_def endsWith_def)
next
  case False
  let ?inner = "join_with '','' (map jsonString ss)"
  have "jsonArray ss = (CHR ''['' # ?inner) @ '']''" by (simp add: jsonArray_def)
  then have "endsWith (jsonArray ss) '']''" by (simp only: endsWith_snoc)
  moreover have "butlast (tl (jsonArray ss)) = ?inner" by (simp add: jsonArray_def)
  moreover have "trim ?inner = ?inner" using joined_ends [OF False] by (intro trim_id) simp_all
  moreover have "mapM parseArrayItem (map jsonString ss) = Inr ss"
    by (induction ss) (simp_all add: parseArrayItem_jsonString)
  ultimately show ?thesis
    using joined_ends [OF False] splitItems_joined [OF False, of "[]"]
    by (simp add: parseInlineArray_def guard_def splitInlineArray_def Let_def)
qed

text \<open>Values of a page: what a producer may hand to the writer.\<close>

fun pageValue :: "js \<Rightarrow> bool" where
  "pageValue (Str s) \<longleftrightarrow> True"
| "pageValue (Boolean b) \<longleftrightarrow> True"
| "pageValue (Num q) \<longleftrightarrow> isDouble q"
| "pageValue (Arr vs) \<longleftrightarrow> list_all isString vs"
| "pageValue v \<longleftrightarrow> False"

lemma serializeValue_total: "pageValue v \<Longrightarrow> \<exists>t. serializeValue v = Some t"
  by (cases v) auto

lemma Str_stringOf: "list_all isString vs \<Longrightarrow> map Str (map stringOf vs) = vs"
  by (induction vs) (auto elim: isString.elims)

lemma parseValue_other:
  assumes "t \<noteq> []" "hd t \<noteq> QUOTE" "hd t \<noteq> APOSTROPHE" "hd t \<noteq> CHR ''[''" "t \<noteq> ''true''" "t \<noteq> ''false''"
  shows "parseValue t = (case Option.bind (readLiteral t) literalNumber of Some q \<Rightarrow> Inr (Num q) | None \<Rightarrow> Inr (Str t))"
proof -
  have "\<not> startsWith t [QUOTE]" "\<not> startsWith t [APOSTROPHE]" "\<not> startsWith t ''[''"
    using assms(1-4) by (cases t; simp)+
  then show ?thesis using assms(5,6) by (simp add: parseValue_def)
qed

lemma parseValue_number:
  assumes "isDouble q"
  shows "parseValue (numberText q) = Inr (Num q)" "\<not> isSpace (hd (numberText q))" "\<not> isSpace (last (numberText q))"
    "\<forall>c\<in>set (numberText q). 32 \<le> (of_char c :: nat)"
proof -
  note n = numberText_reads [OF assms]
  have code: "43 \<le> (of_char c :: nat) \<and> (of_char c :: nat) \<le> 101 \<and> of_char c \<noteq> (91 :: nat)"
    if "c \<in> set (numberText q)" for c
    using n(3) that numeric_code by (auto simp: list_all_iff)
  have first: "hd (numberText q) \<in> set (numberText q)" "last (numberText q) \<in> set (numberText q)" using n(2) by simp_all
  have "numberText q \<noteq> ''true''" "numberText q \<noteq> ''false''"
    using code [of "CHR ''t''"] n(3) by (auto simp: numeric_def isDigit_iff)
  then show "parseValue (numberText q) = Inr (Num q)"
    using code [OF first(1)] n(1,2) by (subst parseValue_other) auto
  show "\<not> isSpace (hd (numberText q))" "\<not> isSpace (last (numberText q))"
    using code [OF first(1)] code [OF first(2)] by (auto simp: isSpace_def)
  show "\<forall>c\<in>set (numberText q). 32 \<le> (of_char c :: nat)" using code by fastforce
qed

lemma joined_printable: "c \<in> set (jsonArray ss) \<Longrightarrow> 32 \<le> (of_char c :: nat)"
proof -
  have "c \<in> set (join_with '','' (map jsonString ss)) \<Longrightarrow> 32 \<le> (of_char c :: nat)"
    by (induction ss rule: induct_list012) (auto dest: jsonString_printable)
  then show "c \<in> set (jsonArray ss) \<Longrightarrow> 32 \<le> (of_char c :: nat)" by (auto simp: jsonArray_def)
qed

lemma value_roundtrip:
  assumes "pageValue v" "serializeValue v = Some t"
  shows "parseValue t = Inr v" "t \<noteq> []" "\<not> isSpace (hd t)" "\<not> isSpace (last t)" "\<forall>c\<in>set t. 32 \<le> (of_char c :: nat)"
proof -
  have "parseValue t = Inr v \<and> t \<noteq> [] \<and> \<not> isSpace (hd t) \<and> \<not> isSpace (last t) \<and> (\<forall>c\<in>set t. 32 \<le> (of_char c :: nat))"
  proof (cases v)
    case (Str s)
    then have "startsWith t [QUOTE]" "t = jsonString s" using assms(2) by (auto simp: jsonString_def)
    then show ?thesis
      using jsonString_printable [of _ s] Str by (simp add: jsonString_ends parseValue_def parseDoubleQuoted_def)
  next
    case (Boolean b)
    have "parseValue ''true'' = Inr (Boolean True)" "parseValue ''false'' = Inr (Boolean False)"
      by (simp_all add: parseValue_def)
    moreover have "\<not> isSpace (CHR ''t'')" "\<not> isSpace (CHR ''e'')" "\<not> isSpace (CHR ''f'')" by (simp_all add: isSpace_def)
    ultimately show ?thesis using assms(2) Boolean by (cases b) auto
  next
    case (Num q)
    then show ?thesis using assms parseValue_number [of q] numberText_reads(2) [of q] by auto
  next
    case (Arr vs)
    then have t: "t = jsonArray (map stringOf vs)" "list_all isString vs" using assms by auto
    have "startsWith t ''[''" "\<not> startsWith t [QUOTE]" "\<not> startsWith t [APOSTROPHE]"
      by (simp_all add: t jsonArray_def)
    then have "parseValue t = Inr (Arr vs)"
      using parseInlineArray_jsonArray [of "map stringOf vs"] Str_stringOf [OF t(2)] t(1) by (simp add: parseValue_def)
    moreover have "last t = CHR '']''" "hd t = CHR ''[''" "t \<noteq> []" by (simp_all add: t jsonArray_def)
    moreover have "\<forall>c\<in>set t. 32 \<le> (of_char c :: nat)" using joined_printable unfolding t(1) by blast
    ultimately show ?thesis by (simp add: Arr)
  qed (use assms in auto)
  then show "parseValue t = Inr v" "t \<noteq> []" "\<not> isSpace (hd t)" "\<not> isSpace (last t)"
    "\<forall>c\<in>set t. 32 \<le> (of_char c :: nat)" by blast+
qed

section \<open>A printed page is read back\<close>

definition pageLine :: "(string \<times> js) list \<Rightarrow> string \<Rightarrow> string \<Rightarrow> bool" where
  "pageLine entries key line \<longleftrightarrow>
     KEY key \<and> (\<exists>t. serializeValue (field entries key) = Some t \<and> line = key @ '': '' @ t)"

lemma serializeLine_Inr: "serializeLine entries key = Inr line \<longleftrightarrow> pageLine entries key line"
  by (auto simp: serializeLine_def pageLine_def result_simps split: option.split)

lemma pageLine_facts:
  assumes "pageLine entries key line" "pageValue (field entries key)"
  shows "NEWLINE \<notin> set line" "RETURN \<notin> set line" "isAlnum (hd line)" "line \<noteq> []"
    and "trim line \<noteq> []" "CHR '':'' \<in> set line" "hd line \<noteq> CHR '':''"
    and "trim (takeWhile (\<lambda>c. c \<noteq> CHR '':'') line) = key"
    and "parseValue (trim (tl (dropWhile (\<lambda>c. c \<noteq> CHR '':'') line))) = Inr (field entries key)"
proof -
  obtain t where k: "KEY key" and t: "serializeValue (field entries key) = Some t" "line = key @ '': '' @ t"
    using assms(1) by (auto simp: pageLine_def)
  note key = KEY_facts [OF k] and val = value_roundtrip [OF assms(2) t(1)]
  have "32 \<le> (of_char c :: nat)" if "c \<in> set line" for c using that key(6) val(5) by (auto simp: t(2))
  from this [of NEWLINE] this [of RETURN] show "NEWLINE \<notin> set line" "RETURN \<notin> set line" by auto
  show "isAlnum (hd line)" "line \<noteq> []" "CHR '':'' \<in> set line" using key(1,2) by (simp_all add: t(2))
  show "hd line \<noteq> CHR '':''" using key(1,5) by (cases key) (auto simp: t(2))
  have "trim line = line" using key(1,3) val(2,4) by (intro trim_id) (simp_all add: t(2))
  then show "trim line \<noteq> []" using key(1) by (simp add: t(2))
  have split: "takeWhile (\<lambda>c. c \<noteq> CHR '':'') line = key" "dropWhile (\<lambda>c. c \<noteq> CHR '':'') line = '': '' @ t"
    using key(5) unfolding t(2) by (subst takeWhile_append2 dropWhile_append2; auto)+
  show "trim (takeWhile (\<lambda>c. c \<noteq> CHR '':'') line) = key" using key(7) split by simp
  show "parseValue (trim (tl (dropWhile (\<lambda>c. c \<noteq> CHR '':'') line))) = Inr (field entries key)"
    using split trim_id(2) [OF val(2-4)] val(1) by simp
qed

lemma parseLines_printed:
  assumes "list_all2 (pageLine entries) keys lines" "\<forall>k\<in>set keys. pageValue (field entries k)"
    and "distinct (map fst acc @ keys)"
  shows "parsePairs n acc (lines @ [[]]) = Inr (acc @ map (\<lambda>k. (k, field entries k)) keys)"
  using assms
proof (induction keys lines arbitrary: n acc rule: list_all2_induct)
  case Nil
  then show ?case by (simp add: trim_def)
next
  case (Cons k keys line lines)
  have v: "pageValue (field entries k)" using Cons.prems(1) by simp
  note line = pageLine_facts [OF Cons.hyps(1) v]
  have "KEY k" using Cons.hyps(1) by (simp add: pageLine_def)
  moreover have "k \<notin> fst ` set acc" using Cons.prems(2) by auto
  moreover have "parsePairs (n + 1) (acc @ [(k, field entries k)]) (lines @ [[]]) =
      Inr ((acc @ [(k, field entries k)]) @ map (\<lambda>k. (k, field entries k)) keys)"
    using Cons.prems by (intro Cons.IH) simp_all
  ultimately show ?case using line by (simp add: Let_def guard_def)
qed

text \<open>The lines of a page, each with its end, and the closing line.\<close>

lemma findClosing_line:
  assumes "NEWLINE \<notin> set l" "RETURN \<notin> set l"
  shows "findClosing False taken (l @ NEWLINE # rest) = findClosing True (taken @ l @ [NEWLINE]) rest"
  using assms by (induction l arbitrary: taken) auto

lemma findClosing_first:
  assumes "l \<noteq> []" "hd l \<noteq> CHR ''-''" "NEWLINE \<notin> set l" "RETURN \<notin> set l"
  shows "findClosing True taken (l @ NEWLINE # rest) = findClosing True (taken @ l @ [NEWLINE]) rest"
proof -
  obtain c r where l: "l = c # r" using assms(1) by (cases l) auto
  then have "afterClosing (c # r @ NEWLINE # rest) = None" using assms(2) by (simp add: afterClosing_def startsWith_def)
  then show ?thesis using findClosing_line [of r "taken @ [c]" rest] assms(3,4) l by auto
qed

definition closedLines :: "string list \<Rightarrow> string" where
  "closedLines lines = concat (map (\<lambda>l. l @ [NEWLINE]) lines)"

definition plainLine :: "string \<Rightarrow> bool" where
  "plainLine l \<longleftrightarrow> l \<noteq> [] \<and> hd l \<noteq> CHR ''-'' \<and> NEWLINE \<notin> set l \<and> RETURN \<notin> set l"

lemma findClosing_lines:
  assumes "list_all plainLine lines"
  shows "findClosing True taken (closedLines lines @ ''---'' @ NEWLINE # rest) = Some (taken @ closedLines lines, rest)"
  using assms
proof (induction lines arbitrary: taken)
  case Nil
  then show ?case by (simp add: closedLines_def afterClosing_def startsWith_def)
next
  case (Cons l ls)
  then have "findClosing True taken (l @ NEWLINE # closedLines ls @ ''---'' @ NEWLINE # rest) =
      findClosing True (taken @ l @ [NEWLINE]) (closedLines ls @ ''---'' @ NEWLINE # rest)"
    by (intro findClosing_first) (simp_all add: plainLine_def)
  then show ?case using Cons by (simp add: closedLines_def)
qed

lemma splitLines_closed:
  assumes "list_all plainLine lines"
  shows "frontmatterLines (closedLines lines) = lines @ [[]]"
proof -
  have "split_on NEWLINE (closedLines lines) = lines @ [[]]"
    using assms
  proof (induction lines)
    case (Cons l ls)
    then have "\<forall>c\<in>set l. c \<noteq> NEWLINE" by (auto simp: plainLine_def)
    then show ?case
      using Cons split_by_append_sep [of "\<lambda>x. x = NEWLINE" NEWLINE l "closedLines ls"] by (simp add: closedLines_def)
  qed (simp add: closedLines_def)
  moreover have "map dropReturn lines = lines"
    using assms last_in_set by (intro map_idI) (fastforce simp: list_all_iff plainLine_def dropReturn_def)
  ultimately show ?thesis by (simp add: frontmatterLines_def)
qed

lemma join_closed: "join_with [NEWLINE] (lines @ [w]) = closedLines lines @ w"
proof (induction lines)
  case (Cons l ls)
  then show ?case by (cases ls) (simp_all add: closedLines_def)
qed (simp add: closedLines_def)

definition canonicalPage :: "VaultPage \<Rightarrow> VaultPage" where
  "canonicalPage p =
     \<lparr>page_data = map (\<lambda>k. (k, field (page_data p) k)) (canonicalizeFrontmatterKeys (page_data p)),
      page_body = newlines (page_body p)\<rparr>"

lemma canonicalKeys_facts:
  assumes "distinct (map fst entries)"
  shows "distinct (canonicalizeFrontmatterKeys entries)"
    "set (canonicalizeFrontmatterKeys entries) = fst ` set entries"
proof -
  have "distinct CANONICAL_FRONTMATTER_KEYS" by code_simp
  then show "distinct (canonicalizeFrontmatterKeys entries)"
    using assms by (auto simp: canonicalizeFrontmatterKeys_def)
qed (auto simp: canonicalizeFrontmatterKeys_def)

lemma serializePage_Inr:
  assumes "serializePage p = Inr t"
  obtains lines where "list_all2 (pageLine (page_data p)) (canonicalizeFrontmatterKeys (page_data p)) lines"
    "t = ''---'' @ NEWLINE # closedLines lines @ ''---'' @ NEWLINE # newlines (page_body p)"
proof -
  obtain lines where lines: "mapM (serializeLine (page_data p)) (canonicalizeFrontmatterKeys (page_data p)) = Inr lines"
      "t = join_with [NEWLINE] ([''---''] @ lines @ [''---'']) @ NEWLINE # newlines (page_body p)"
    using assms by (auto simp: serializePage_def result_simps)
  have "join_with [NEWLINE] ([''---''] @ lines @ [''---'']) = ''---'' @ NEWLINE # closedLines lines @ ''---''"
    using join_closed [of "''---'' # lines" "''---''"] by (simp add: closedLines_def)
  then show ?thesis
    using that [of lines] lines by (simp add: mapM_Inr serializeLine_Inr)
qed

lemma field_member: "distinct (map fst entries) \<Longrightarrow> (k, v) \<in> set entries \<Longrightarrow> field entries k = v"
  by (simp add: field_def)

lemma alnum_not_dash: "isAlnum c \<Longrightarrow> c \<noteq> CHR ''-''"
  using alnum_code [of c] by auto

lemma plain_pageLines:
  assumes "list_all2 (pageLine entries) keys lines" "\<forall>k\<in>set keys. pageValue (field entries k)"
  shows "list_all plainLine lines"
  using assms
proof (induction keys lines rule: list_all2_induct)
  case (Cons k keys line lines)
  then show ?case
    using pageLine_facts [of entries k line] alnum_not_dash [of "hd line"] by (simp add: plainLine_def)
qed simp

lemma printed_page_read:
  assumes "distinct (map fst (page_data p))" "\<forall>(k, v)\<in>set (page_data p). pageValue v" "serializePage p = Inr t"
  shows "parseFrontmatter t = Inr (canonicalPage p)"
proof -
  let ?keys = "canonicalizeFrontmatterKeys (page_data p)"
  obtain lines where lines: "list_all2 (pageLine (page_data p)) ?keys lines"
      "t = ''---'' @ NEWLINE # closedLines lines @ ''---'' @ NEWLINE # newlines (page_body p)"
    by (rule serializePage_Inr [OF assms(3)])
  note keys = canonicalKeys_facts [OF assms(1)]
  have vals: "\<forall>k\<in>set ?keys. pageValue (field (page_data p) k)"
    using assms(2) field_member [OF assms(1)] unfolding keys(2) by fastforce
  note plain = plain_pageLines [OF lines(1) vals]
  have "afterOpening t = Some (closedLines lines @ ''---'' @ NEWLINE # newlines (page_body p))"
    by (simp add: lines(2) afterOpening_def startsWith_def)
  moreover have "parsePairs 1 [] (lines @ [[]]) = Inr (map (\<lambda>k. (k, field (page_data p) k)) ?keys)"
    using parseLines_printed [OF lines(1) vals, of "[]" 1] keys(1) by simp
  ultimately show ?thesis
    using findClosing_lines [OF plain, of "[]"] splitLines_closed [OF plain]
    by (simp add: parseFrontmatter_def canonicalPage_def)
qed

section \<open>A read page can be written\<close>

lemma parseValue_pageValue: "parseValue raw = Inr v \<Longrightarrow> pageValue v"
  by (auto simp: parseValue_def result_simps list_all_iff bind_eq_Some_conv dest: literalNumber_double
      split: if_splits option.splits)

definition wfEntries :: "(string \<times> js) list \<Rightarrow> bool" where
  "wfEntries entries \<longleftrightarrow> distinct (map fst entries) \<and> list_all (\<lambda>(k, v). KEY k \<and> pageValue v) entries"

lemma parseLines_wf:
  "parsePairs n acc lines = Inr entries \<Longrightarrow> wfEntries acc \<Longrightarrow> wfEntries entries"
proof (induction n acc lines rule: parsePairs.induct)
  case (2 n acc line rest)
  show ?case
  proof (cases "trim line = []")
    case True
    then show ?thesis using 2 by simp
  next
    case False
    let ?key = "trim (takeWhile (\<lambda>c. c \<noteq> CHR '':'') line)"
    let ?raw = "trim (tl (dropWhile (\<lambda>c. c \<noteq> CHR '':'') line))"
    from 2(3) False obtain v where v: "parseValue ?raw = Inr v" "KEY ?key" "?key \<notin> fst ` set acc"
        "parsePairs (n + 1) (acc @ [(?key, v)]) rest = Inr entries" "CHR '':'' \<in> set line" "hd line \<noteq> CHR '':''"
      by (auto simp: Let_def result_simps split: if_splits sum.splits)
    then have "wfEntries (acc @ [(?key, v)])"
      using 2(4) parseValue_pageValue [OF v(1)] by (auto simp: wfEntries_def)
    then show ?thesis using 2(2) False v by simp
  qed
qed simp

lemma parsed_wf: "parseFrontmatter t = Inr p \<Longrightarrow> wfEntries (page_data p)"
  using parseLines_wf [of 1 "[]"]
  by (auto simp: parseFrontmatter_def result_simps wfEntries_def split: option.splits)

lemma mapM_total: "(\<And>x. x \<in> set xs \<Longrightarrow> \<exists>y. f x = Inr y) \<Longrightarrow> \<exists>ys. mapM f xs = Inr ys"
  by (induction xs) fastforce+

lemma wf_serializes:
  assumes "wfEntries (page_data p)"
  shows "\<exists>t. serializePage p = Inr t"
proof -
  let ?keys = "canonicalizeFrontmatterKeys (page_data p)"
  have d: "distinct (map fst (page_data p))" using assms by (simp add: wfEntries_def)
  have "\<exists>line. serializeLine (page_data p) k = Inr line" if k: "k \<in> set ?keys" for k
  proof -
    obtain v where kv: "(k, v) \<in> set (page_data p)" using k canonicalKeys_facts(2) [OF d] by auto
    then have "KEY k" "pageValue (field (page_data p) k)"
      using assms field_member [OF d kv] by (auto simp: wfEntries_def list_all_iff)
    then show ?thesis using serializeValue_total by (fastforce simp: serializeLine_Inr pageLine_def)
  qed
  then have "\<exists>lines. mapM (serializeLine (page_data p)) ?keys = Inr lines" by (intro mapM_total) blast
  then show ?thesis by (auto simp: serializePage_def)
qed

end
