(* ===== verification/Page_Schema.thy ===== *)
theory Page_Schema
  imports Frontmatter
begin

text \<open>
  \<open>packages/core/src/vault/schema.ts\<close> and \<open>subject-type.ts\<close>: which frontmatter a page of the
  vault may have, and the properties of pages as text that hold for such frontmatter.
\<close>

section \<open>The validator\<close>

datatype SchemaError =
    Required string | EmptyText string | NotOneOf string | NotStrings string | UnknownKey string
  | StringTooLong string | NotFinite string | TooManyItems string | ItemNotString string nat
  | ItemTooLong string nat | NotFlat string | SourcesMissing | SourcesEmpty | SourceBlank

definition PAGE_STATUSES :: "string list" where
  "PAGE_STATUSES = [''draft'', ''active'', ''archived'']"

definition PAGE_SENSITIVITIES :: "string list" where
  "PAGE_SENSITIVITIES = [''public'', ''personal'', ''private'']"

definition PAGE_TAINTS :: "string list" where "PAGE_TAINTS = [''clean'', ''quoted'']"

definition MAX_FRONTMATTER_STRING_CHARS :: nat where "MAX_FRONTMATTER_STRING_CHARS = 4096"
definition MAX_FRONTMATTER_ARRAY_ITEMS :: nat where "MAX_FRONTMATTER_ARRAY_ITEMS = 100"

definition REQUIRED_KEYS :: "string list" where
  "REQUIRED_KEYS = [''id'', ''title'', ''type'', ''status'', ''sensitivity'', ''taint'']"

definition FORBIDDEN_KEY_PARTS :: "string list" where
  "FORBIDDEN_KEY_PARTS = [''__proto__'', ''prototype'', ''constructor'']"

definition hasOwn :: "(string \<times> js) list \<Rightarrow> string \<Rightarrow> bool" where
  "hasOwn entries key \<longleftrightarrow> key \<in> fst ` set entries"

text \<open>\<open>toLowerCase\<close> on the ASCII letters; the parts it is compared with are ASCII.\<close>

definition lowerChar :: "char \<Rightarrow> char" where
  "lowerChar c = (if isUpper c then char_of (of_char c + (32 :: nat)) else c)"

definition keyParts :: "string \<Rightarrow> string list" where
  "keyParts key =
     split_by (\<lambda>c. c = CHR ''-'' \<or> c = CHR ''_'' \<or> c = CHR ''.'') (map lowerChar key)"

definition keyLooksHostile :: "string \<Rightarrow> bool" where
  "keyLooksHostile key \<longleftrightarrow> list_ex (\<lambda>part. part \<in> set (keyParts key)) FORBIDDEN_KEY_PARTS"

definition validateEnum :: "(string \<times> js) list \<Rightarrow> string \<Rightarrow> string list \<Rightarrow> SchemaError list" where
  "validateEnum entries key choices =
     (if \<not> hasOwn entries key then []
      else (case field entries key of
              Str s \<Rightarrow> if s \<in> set choices then [] else [NotOneOf key]
            | _ \<Rightarrow> [NotOneOf key]))"

fun itemErrors :: "string \<Rightarrow> nat \<times> js \<Rightarrow> SchemaError list" where
  "itemErrors key (i, Str s) = (if length s > MAX_FRONTMATTER_STRING_CHARS then [ItemTooLong key i] else [])"
| "itemErrors key (i, v) = [ItemNotString key i]"

fun validateFrontmatterValue :: "js \<Rightarrow> string \<Rightarrow> SchemaError list" where
  "validateFrontmatterValue (Str s) key =
     (if length s > MAX_FRONTMATTER_STRING_CHARS then [StringTooLong key] else [])"
| "validateFrontmatterValue (Boolean b) key = []"
| "validateFrontmatterValue (Num q) key = []"
| "validateFrontmatterValue NaN key = [NotFinite key]"
| "validateFrontmatterValue (Infinite s) key = [NotFinite key]"
| "validateFrontmatterValue (Arr vs) key =
     (if length vs > MAX_FRONTMATTER_ARRAY_ITEMS then [TooManyItems key] else []) @
     concat (map (itemErrors key) (enumerate 0 vs))"
| "validateFrontmatterValue v key = [NotFlat key]"

fun isStringArray :: "js \<Rightarrow> bool" where
  "isStringArray (Arr vs) \<longleftrightarrow> list_all isString vs"
| "isStringArray v \<longleftrightarrow> False"

definition isDeterministicRollup :: "(string \<times> js) list \<Rightarrow> bool" where
  "isDeterministicRollup entries \<longleftrightarrow>
     field entries ''type'' = Str ''rollup'' \<and> field entries ''x-brief-producer'' = Str ''deterministic''"

fun sourceTexts :: "js \<Rightarrow> string list" where
  "sourceTexts (Arr vs) = map stringOf vs"
| "sourceTexts v = []"

definition parsePageSources :: "(string \<times> js) list \<Rightarrow> SchemaError list + string list" where
  "parsePageSources entries =
     (let sources = field entries ''sources''; texts = sourceTexts sources
      in if \<not> hasOwn entries ''sources'' then Inl [SourcesMissing]
         else if \<not> isStringArray sources then Inl [NotStrings ''sources'']
         else
           (let errors = validateFrontmatterValue sources ''sources'' @
              (if texts = [] \<and> field entries ''status'' \<noteq> Str ''archived'' \<and> \<not> isDeterministicRollup entries
               then [SourcesEmpty] else []) @
              (if list_ex (\<lambda>s. trim s = []) texts then [SourceBlank] else [])
            in if errors = [] then Inr texts else Inl errors))"

definition keyErrors :: "(string \<times> js) list \<Rightarrow> string \<Rightarrow> SchemaError list" where
  "keyErrors entries key =
     (if keyLooksHostile key then [UnknownKey key]
      else
        (if key \<notin> set CANONICAL_FRONTMATTER_KEYS \<and> \<not> startsWith key ''x-'' then [UnknownKey key] else []) @
        validateFrontmatterValue (field entries key) key)"

definition stringsErrors :: "(string \<times> js) list \<Rightarrow> string \<Rightarrow> SchemaError list" where
  "stringsErrors entries key =
     (if hasOwn entries key \<and> \<not> isStringArray (field entries key) then [NotStrings key] else [])"

text \<open>\<open>Object.keys\<close> lists the keys of an object as \<open>Object.entries\<close> does.\<close>

definition validatePage :: "(string \<times> js) list \<Rightarrow> SchemaError list" where
  "validatePage entries =
     map Required (filter (\<lambda>k. \<not> hasOwn entries k) REQUIRED_KEYS) @
     map EmptyText (filter (\<lambda>k. hasOwn entries k \<and> \<not> isNonEmptyString (field entries k)) [''id'', ''title'']) @
     validateEnum entries ''type'' PAGE_TYPES @
     validateEnum entries ''status'' PAGE_STATUSES @
     validateEnum entries ''sensitivity'' PAGE_SENSITIVITIES @
     validateEnum entries ''taint'' PAGE_TAINTS @
     stringsErrors entries ''sources'' @
     stringsErrors entries ''subjects'' @
     concat (map (keyErrors entries) (map fst (objectEntries (Obj entries))))"

text \<open>\<open>subject-type.ts\<close>: only an explicit namespace establishes the type of a subject's page.\<close>

definition subjectPageType :: "string \<Rightarrow> string" where
  "subjectPageType subject =
     (let namespace = takeWhile (\<lambda>c. c \<noteq> CHR '':'') subject;
          rest = dropWhile (\<lambda>c. c \<noteq> CHR '':'') subject
      in if rest = [] \<or> namespace = [] \<or> tl rest = [] then ''topic''
         else if namespace \<in> set PAGE_TYPES then namespace else ''topic'')"

section \<open>What the validator accepts\<close>

fun flatValue :: "js \<Rightarrow> bool" where
  "flatValue (Str s) \<longleftrightarrow> length s \<le> 4096"
| "flatValue (Boolean b) \<longleftrightarrow> True"
| "flatValue (Num q) \<longleftrightarrow> True"
| "flatValue (Arr vs) \<longleftrightarrow> length vs \<le> 100 \<and> (\<forall>v\<in>set vs. \<exists>s. v = Str s \<and> length s \<le> 4096)"
| "flatValue v \<longleftrightarrow> False"

lemma itemErrors_Nil: "itemErrors key (i, v) = [] \<longleftrightarrow> (\<exists>s. v = Str s \<and> length s \<le> 4096)"
  by (cases v) (auto simp: MAX_FRONTMATTER_STRING_CHARS_def)

lemma validateFrontmatterValue_Nil: "validateFrontmatterValue v key = [] \<longleftrightarrow> flatValue v"
proof (cases v)
  case (Arr vs)
  have "concat (map (itemErrors key) (enumerate n vs)) = [] \<longleftrightarrow>
      (\<forall>v\<in>set vs. \<exists>s. v = Str s \<and> length s \<le> 4096)" for n
    by (induction vs arbitrary: n) (auto simp: itemErrors_Nil)
  then show ?thesis by (auto simp: Arr MAX_FRONTMATTER_ARRAY_ITEMS_def)
qed (auto simp: MAX_FRONTMATTER_STRING_CHARS_def)

lemma validateEnum_Nil:
  "validateEnum entries key choices = [] \<longleftrightarrow>
     (hasOwn entries key \<longrightarrow> (\<exists>s\<in>set choices. field entries key = Str s))"
  by (auto simp: validateEnum_def split: js.splits)

lemma isStringArray_iff: "isStringArray v \<longleftrightarrow> (\<exists>ss. v = Arr (map Str ss))"
proof
  assume "isStringArray v"
  then obtain vs where "v = Arr vs" "list_all isString vs" by (cases v) auto
  then show "\<exists>ss. v = Arr (map Str ss)" using Str_stringOf by metis
qed (auto simp: list_all_iff)

lemma known_not_hostile: "k \<in> set CANONICAL_FRONTMATTER_KEYS \<Longrightarrow> \<not> keyLooksHostile k"
proof -
  have "list_all (\<lambda>k. \<not> keyLooksHostile k) CANONICAL_FRONTMATTER_KEYS" by code_simp
  then show "k \<in> set CANONICAL_FRONTMATTER_KEYS \<Longrightarrow> \<not> keyLooksHostile k" unfolding list_all_iff by blast
qed

text \<open>The accepted frontmatter in its own words.\<close>

definition wellFormedPage :: "(string \<times> js) list \<Rightarrow> bool" where
  "wellFormedPage entries \<longleftrightarrow>
     (\<forall>k\<in>{''id'', ''title''}. \<exists>s. s \<noteq> [] \<and> field entries k = Str s) \<and>
     (\<exists>s\<in>set PAGE_TYPES. field entries ''type'' = Str s) \<and>
     (\<exists>s\<in>set PAGE_STATUSES. field entries ''status'' = Str s) \<and>
     (\<exists>s\<in>set PAGE_SENSITIVITIES. field entries ''sensitivity'' = Str s) \<and>
     (\<exists>s\<in>set PAGE_TAINTS. field entries ''taint'' = Str s) \<and>
     (\<forall>k\<in>{''sources'', ''subjects''}. hasOwn entries k \<longrightarrow> (\<exists>ss. field entries k = Arr (map Str ss))) \<and>
     (\<forall>k\<in>fst ` set entries. flatValue (field entries k) \<and>
        (k \<in> set CANONICAL_FRONTMATTER_KEYS \<or> (startsWith k ''x-'' \<and> \<not> keyLooksHostile k)))"

lemma hasOwn_field: "field entries k = Str s \<Longrightarrow> hasOwn entries k"
  by (auto simp: field_def hasOwn_def split: option.splits dest: map_of_SomeD intro: rev_image_eqI)

lemma keyErrors_Nil:
  "keyErrors entries k = [] \<longleftrightarrow>
     flatValue (field entries k) \<and> (k \<in> set CANONICAL_FRONTMATTER_KEYS \<or> (startsWith k ''x-'' \<and> \<not> keyLooksHostile k))"
  using known_not_hostile [of k] by (auto simp: keyErrors_def validateFrontmatterValue_Nil)

lemma required_choice:
  "hasOwn entries k \<and> (hasOwn entries k \<longrightarrow> (\<exists>s\<in>A. field entries k = Str s)) \<longleftrightarrow> (\<exists>s\<in>A. field entries k = Str s)"
  by (blast dest: hasOwn_field)

lemma required_text:
  "hasOwn entries k \<and> (hasOwn entries k \<longrightarrow> isNonEmptyString (field entries k)) \<longleftrightarrow>
     (\<exists>s. s \<noteq> [] \<and> field entries k = Str s)"
  unfolding isNonEmptyString_iff by (blast dest: hasOwn_field)

lemma validatePage_Nil: "validatePage entries = [] \<longleftrightarrow> wellFormedPage entries"
proof -
  let ?has = "hasOwn entries"
  let ?choice = "\<lambda>k A. ?has k \<longrightarrow> (\<exists>s\<in>set A. field entries k = Str s)"
  have keys: "concat (map (keyErrors entries) (map fst (objectEntries (Obj entries)))) = [] \<longleftrightarrow>
      (\<forall>k\<in>fst ` set entries. keyErrors entries k = [])"
    by (auto simp: concat_eq_Nil_conv)
  have required: "filter (\<lambda>k. \<not> ?has k) REQUIRED_KEYS = [] \<longleftrightarrow>
      ?has ''id'' \<and> ?has ''title'' \<and> ?has ''type'' \<and> ?has ''status'' \<and> ?has ''sensitivity'' \<and> ?has ''taint''"
    by (simp add: REQUIRED_KEYS_def)
  have texts: "filter (\<lambda>k. ?has k \<and> \<not> isNonEmptyString (field entries k)) [''id'', ''title''] = [] \<longleftrightarrow>
      (?has ''id'' \<longrightarrow> isNonEmptyString (field entries ''id'')) \<and>
      (?has ''title'' \<longrightarrow> isNonEmptyString (field entries ''title''))"
    by auto
  have strings: "stringsErrors entries k = [] \<longleftrightarrow> (?has k \<longrightarrow> (\<exists>ss. field entries k = Arr (map Str ss)))" for k
    by (simp add: stringsErrors_def isStringArray_iff)
  have "validatePage entries = [] \<longleftrightarrow>
      (?has ''id'' \<and> (?has ''id'' \<longrightarrow> isNonEmptyString (field entries ''id''))) \<and>
      (?has ''title'' \<and> (?has ''title'' \<longrightarrow> isNonEmptyString (field entries ''title''))) \<and>
      (?has ''type'' \<and> ?choice ''type'' PAGE_TYPES) \<and> (?has ''status'' \<and> ?choice ''status'' PAGE_STATUSES) \<and>
      (?has ''sensitivity'' \<and> ?choice ''sensitivity'' PAGE_SENSITIVITIES) \<and>
      (?has ''taint'' \<and> ?choice ''taint'' PAGE_TAINTS) \<and>
      stringsErrors entries ''sources'' = [] \<and> stringsErrors entries ''subjects'' = [] \<and>
      (\<forall>k\<in>fst ` set entries. keyErrors entries k = [])"
    unfolding validatePage_def append_is_Nil_conv map_is_Nil_conv keys required texts validateEnum_Nil by blast
  then show ?thesis
    unfolding required_choice required_text strings keyErrors_Nil wellFormedPage_def by simp
qed

section \<open>Properties\<close>

lemma same_fields_valid:
  assumes "fst ` set entries' = fst ` set entries" "\<And>k. field entries' k = field entries k"
  shows "validatePage entries' = [] \<longleftrightarrow> validatePage entries = []"
  unfolding validatePage_Nil wellFormedPage_def hasOwn_def assms ..

lemma map_of_field: "map_of entries k = (if k \<in> fst ` set entries then Some (field entries k) else None)"
  by (auto simp: field_def map_of_eq_None_iff split: option.split)

lemma canonicalPage_fields:
  assumes "distinct (map fst (page_data p))"
  shows "fst ` set (page_data (canonicalPage p)) = fst ` set (page_data p)"
    "field (page_data (canonicalPage p)) k = field (page_data p) k"
    "distinct (map fst (page_data (canonicalPage p)))"
proof -
  let ?keys = "canonicalizeFrontmatterKeys (page_data p)"
  note keys = canonicalKeys_facts [OF assms]
  have fst: "map fst (page_data (canonicalPage p)) = ?keys" by (simp add: canonicalPage_def comp_def)
  show "fst ` set (page_data (canonicalPage p)) = fst ` set (page_data p)"
    using arg_cong [OF fst, of set] keys(2) by simp
  show "distinct (map fst (page_data (canonicalPage p)))" using fst keys(1) by simp
  have "map_of (map (\<lambda>k. (k, f k)) ks) k = (if k \<in> set ks then Some (f k) else None)" for ks and f :: "string \<Rightarrow> js"
    by (induction ks) auto
  moreover have "k \<notin> set ?keys \<Longrightarrow> map_of (page_data p) k = None" unfolding keys(2) by (simp add: map_of_eq_None_iff)
  ultimately show "field (page_data (canonicalPage p)) k = field (page_data p) k"
    by (simp add: canonicalPage_def field_def)
qed

lemma newlines_no_return: "RETURN \<notin> set (newlines s)"
  by (induction s rule: newlines.induct) auto

lemma canonicalPage_serializes:
  assumes "distinct (map fst (page_data p))"
  shows "serializePage (canonicalPage p) = serializePage p"
proof -
  let ?d = "page_data (canonicalPage p)"
  note c = canonicalPage_fields [OF assms]
  have "sort (map fst ?d) = sort (map fst (page_data p))"
    using c(1,3) assms by (intro sorted_distinct_set_unique) simp_all
  then have keys: "canonicalizeFrontmatterKeys ?d = canonicalizeFrontmatterKeys (page_data p)"
    unfolding canonicalizeFrontmatterKeys_def c(1) by simp
  have "serializeLine ?d = serializeLine (page_data p)" by (simp add: fun_eq_iff serializeLine_def c(2))
  moreover have "newlines (page_body (canonicalPage p)) = newlines (page_body p)"
    by (simp add: canonicalPage_def newlines_id newlines_no_return)
  ultimately show ?thesis unfolding serializePage_def keys by simp
qed

lemma flat_pageValue: "flatValue v \<Longrightarrow> (\<And>q. v = Num q \<Longrightarrow> isDouble q) \<Longrightarrow> pageValue v"
  by (cases v) (auto simp: list_all_iff)




text \<open>A key is split at its underscores, so no part of it is ever \<open>__proto__\<close>.\<close>

lemma proto_never_a_part: "''__proto__'' \<notin> set (keyParts key)"
  using split_by_parts [of "''__proto__''" "\<lambda>c. c = CHR ''-'' \<or> c = CHR ''_'' \<or> c = CHR ''.''"]
  by (auto simp: keyParts_def)

lemma proto_extension_accepted: "\<not> keyLooksHostile ''x-__proto__''"
  by code_simp

section \<open>Witnesses\<close>

definition demoPage :: VaultPage where
  "demoPage = \<lparr>page_data = [(''x-open'', Boolean True), (''title'', Str ''Ada: a \"note\"''), (''id'', Str ''p1''),
     (''type'', Str ''person''), (''status'', Str ''active''), (''sensitivity'', Str ''private''),
     (''taint'', Str ''clean''), (''sources'', Arr [Str ''e1'', Str ''a, b''])],
     page_body = ''One'' @ [RETURN, NEWLINE] @ ''two''\<rparr>"


definition demoText :: string where
  "demoText = join_with [NEWLINE] [''---'', ''title: 7'', ''id: p1'', ''tags: [a, \"b, c\"]'', ''---'', ''text'']"


end
