(* ===== verification/Ics.thy ===== *)
theory Ics
  imports Kizuki_Prelude
begin

text \<open>
  \<open>packages/connector-ics/src/unfold.ts\<close> and \<open>packages/connector-ics/src/parse.ts\<close>: the lines
  of a calendar file and the components the connector reads from them.

  A character is a code unit below 256, so a text has no byte order mark.  A map of the code
  is an association list in insertion order whose entries are replaced in place.  The stack
  of open components is a list with the innermost first.
\<close>

datatype IcsError =
    TextTooLong | TooManyLines | TooManyComponents | ContentOutside | SecondCalendar
  | NestedTooDeeply | Unbalanced | NoCalendar | EndsInside

section \<open>Lines\<close>

definition MAX_ICS_CHARS :: int where "MAX_ICS_CHARS = 8 * 1024 * 1024"
definition MAX_CONTENT_LINES :: int where "MAX_CONTENT_LINES = 50000"

definition chompReturn :: "string \<Rightarrow> string" where
  "chompReturn raw = (if raw \<noteq> [] \<and> last raw = CHR 0x0D then butlast raw else raw)"

definition unfoldLine :: "string list \<Rightarrow> string \<Rightarrow> IcsError + string list" where
  "unfoldLine content raw =
     (let line = chompReturn raw
      in if line \<noteq> [] \<and> (hd line = CHR '' '' \<or> hd line = CHR 0x09)
         then Inr (if content = [] then content else butlast content @ [last content @ tl line])
         else if line = [] then Inr content
         else if int (length content) \<ge> MAX_CONTENT_LINES then Inl TooManyLines
         else Inr (content @ [line]))"

definition unfold :: "string \<Rightarrow> IcsError + string list" where
  "unfold text =
     (if int (length text) > MAX_ICS_CHARS then Inl TextTooLong
      else foldM unfoldLine [] (split_on (CHR 0x0A) text))"

section \<open>Content lines\<close>

record ContentLine =
  line_name :: string
  line_params :: "(string \<times> string list) list"
  line_value :: string

fun unescapeText :: "string \<Rightarrow> string" where
  "unescapeText [] = []"
| "unescapeText (c # cs) =
     (if c \<noteq> CHR 0x5C then c # unescapeText cs
      else (case cs of
              [] \<Rightarrow> []
            | next_char # rest \<Rightarrow>
                (if next_char = CHR ''n'' \<or> next_char = CHR ''N'' then CHR 0x0A else next_char)
                  # unescapeText rest))"

text \<open>The pieces between semicolons outside quotes, quotes kept.\<close>

fun splitPieces :: "bool \<Rightarrow> string \<Rightarrow> string \<Rightarrow> string list" where
  "splitPieces quoted current [] = [current]"
| "splitPieces quoted current (c # cs) =
     (if c = CHR 0x22 then splitPieces (\<not> quoted) (current @ [c]) cs
      else if c = CHR '';'' \<and> \<not> quoted then current # splitPieces quoted [] cs
      else splitPieces quoted (current @ [c]) cs)"

text \<open>The values between commas outside quotes, quotes dropped.\<close>

fun splitValues :: "bool \<Rightarrow> string \<Rightarrow> string \<Rightarrow> string list" where
  "splitValues inside value [] = [value]"
| "splitValues inside value (c # cs) =
     (if c = CHR 0x22 then splitValues (\<not> inside) value cs
      else if c = CHR '','' \<and> \<not> inside then value # splitValues inside [] cs
      else splitValues inside (value @ [c]) cs)"

definition addParam :: "(string \<times> string list) list \<Rightarrow> string \<Rightarrow> (string \<times> string list) list" where
  "addParam params piece =
     (if CHR ''='' \<notin> set piece then params
      else
        (let key = toUpperCase (trim (takeWhile (\<lambda>c. c \<noteq> CHR ''='') piece));
             values = splitValues False [] (tl (dropWhile (\<lambda>c. c \<noteq> CHR ''='') piece))
         in if key \<noteq> [] then setKey key values params else params))"

definition splitParams :: "string \<Rightarrow> string \<times> (string \<times> string list) list" where
  "splitParams head =
     (let pieces = splitPieces False [] head
      in (toUpperCase (trim (hd pieces)), foldl addParam [] (tl pieces)))"

text \<open>The position of the first colon outside quotes.\<close>

fun findColon :: "bool \<Rightarrow> nat \<Rightarrow> string \<Rightarrow> nat option" where
  "findColon quoted index [] = None"
| "findColon quoted index (c # cs) =
     (let quoted' = (if c = CHR 0x22 then \<not> quoted else quoted)
      in if c = CHR '':'' \<and> \<not> quoted' then Some index else findColon quoted' (index + 1) cs)"

definition parseContentLine :: "string \<Rightarrow> ContentLine option" where
  "parseContentLine line =
     (case findColon False 0 line of
        None \<Rightarrow> None
      | Some colon \<Rightarrow>
          if colon = 0 then None
          else
            (let (name, params) = splitParams (take colon line)
             in if name = [] then None
                else Some \<lparr>line_name = name, line_params = params, line_value = drop (colon + 1) line\<rparr>))"

text \<open>\<open>/^([+-])(\d{2})(\d{2})(\d{2})?$/\<close>\<close>

definition offsetMinutes :: "string \<Rightarrow> int option" where
  "offsetMinutes value =
     (case trim value of
        s # ds \<Rightarrow>
          if (s = CHR ''+'' \<or> s = CHR ''-'') \<and> (length ds = 4 \<or> length ds = 6) \<and> list_all isDigit ds
          then Some ((if s = CHR ''-'' then -1 else 1) *
                 (int (digitsVal (take 2 ds)) * 60 + int (digitsVal (take 2 (drop 2 ds)))))
          else None
      | [] \<Rightarrow> None)"

section \<open>Components\<close>

definition MAX_COMPONENTS :: int where "MAX_COMPONENTS = 20000"
definition MAX_NESTING :: nat where "MAX_NESTING = 8"

definition EVENT_PROPERTIES :: "string list" where
  "EVENT_PROPERTIES =
     [''UID'', ''DTSTART'', ''DTEND'', ''DURATION'', ''SUMMARY'', ''DESCRIPTION'', ''LOCATION'',
      ''ORGANIZER'', ''ATTENDEE'', ''STATUS'', ''CLASS'', ''SEQUENCE'', ''CREATED'', ''LAST-MODIFIED'',
      ''URL'', ''RRULE'', ''RDATE'', ''EXDATE'', ''RECURRENCE-ID'', ''ATTACH'']"

record ZoneInfo =
  tzid :: string
  standardOffsetMinutes :: "int option"

record ParsedCalendar =
  cal_name :: "string option"
  cal_prodid :: "string option"
  cal_zones :: "(string \<times> ZoneInfo) list"
  cal_events :: "ContentLine list list"

record Frame =
  frame_name :: string
  frame_lines :: "ContentLine list"

datatype ZoneSection = Standard | Daylight

record IcsState =
  stack :: "Frame list"
  parsed :: ParsedCalendar
  components :: int
  sawCalendar :: bool
  zone :: "ZoneInfo option"
  zoneSection :: "ZoneSection option"

definition icsStart :: IcsState where
  "icsStart =
     \<lparr>stack = [],
      parsed = \<lparr>cal_name = None, cal_prodid = None, cal_zones = [], cal_events = []\<rparr>,
      components = 0, sawCalendar = False, zone = None, zoneSection = None\<rparr>"

definition beginComponent :: "string \<Rightarrow> IcsState \<Rightarrow> IcsError + IcsState" where
  "beginComponent component st =
     guard (components st + 1 \<le> MAX_COMPONENTS) TooManyComponents
     (guard (\<not> (stack st = [] \<and> component \<noteq> ''VCALENDAR'')) ContentOutside
     (guard (\<not> (stack st = [] \<and> sawCalendar st)) SecondCalendar
     (guard (length (stack st) + 1 \<le> MAX_NESTING) NestedTooDeeply
       (Inr (st\<lparr>components := components st + 1,
                stack := \<lparr>frame_name = component, frame_lines = []\<rparr> # stack st,
                sawCalendar := (sawCalendar st \<or> component = ''VCALENDAR''),
                zone := (if component = ''VTIMEZONE''
                         then Some \<lparr>tzid = [], standardOffsetMinutes = None\<rparr> else zone st),
                zoneSection := (if component = ''STANDARD'' then Some Standard
                                else if component = ''DAYLIGHT'' then Some Daylight
                                else zoneSection st)\<rparr>)))))"

definition closeZone :: "IcsState \<Rightarrow> IcsState" where
  "closeZone st =
     (case zone st of
        None \<Rightarrow> st
      | Some z \<Rightarrow>
          st\<lparr>zone := None,
             parsed := (if tzid z \<noteq> [] then (parsed st)\<lparr>cal_zones := setKey (tzid z) z (cal_zones (parsed st))\<rparr>
                        else parsed st)\<rparr>)"

definition endComponent :: "string \<Rightarrow> IcsState \<Rightarrow> IcsError + IcsState" where
  "endComponent component st =
     (case stack st of
        [] \<Rightarrow> Inl Unbalanced
      | frame # rest \<Rightarrow>
          if frame_name frame \<noteq> component then Inl Unbalanced
          else
            (let st1 = st\<lparr>stack := rest\<rparr>;
                 st2 = (if component = ''VEVENT''
                        then st1\<lparr>parsed := (parsed st1)\<lparr>cal_events := cal_events (parsed st1) @ [frame_lines frame]\<rparr>\<rparr>
                        else st1);
                 st3 = (if component = ''VTIMEZONE'' then closeZone st2 else st2)
             in Inr (if component = ''STANDARD'' \<or> component = ''DAYLIGHT''
                     then st3\<lparr>zoneSection := None\<rparr> else st3)))"

definition property :: "ContentLine \<Rightarrow> IcsState \<Rightarrow> IcsState" where
  "property line st =
     (case stack st of
        [] \<Rightarrow> st
      | frame # rest \<Rightarrow>
          if frame_name frame = ''VCALENDAR''
          then st\<lparr>parsed := (parsed st)
                    \<lparr>cal_name := (if line_name line = ''X-WR-CALNAME''
                                   then Some (unescapeText (line_value line)) else cal_name (parsed st)),
                     cal_prodid := (if line_name line = ''PRODID''
                                    then Some (unescapeText (line_value line)) else cal_prodid (parsed st))\<rparr>\<rparr>
          else
            (case zone st of
               Some z \<Rightarrow>
                 (let z1 = (if line_name line = ''TZID'' \<and> frame_name frame = ''VTIMEZONE''
                            then z\<lparr>tzid := trim (line_value line)\<rparr> else z)
                  in st\<lparr>zone := Some
                          (if line_name line = ''TZOFFSETTO'' \<and> zoneSection st = Some Standard
                           then z1\<lparr>standardOffsetMinutes := offsetMinutes (line_value line)\<rparr> else z1)\<rparr>)
             | None \<Rightarrow>
                 if frame_name frame = ''VEVENT'' \<and> line_name line \<in> set EVENT_PROPERTIES
                 then st\<lparr>stack := frame\<lparr>frame_lines := frame_lines frame @ [line]\<rparr> # rest\<rparr>
                 else st))"

definition icsStep :: "IcsState \<Rightarrow> string \<Rightarrow> IcsError + IcsState" where
  "icsStep st raw =
     (case parseContentLine raw of
        None \<Rightarrow> Inr st
      | Some line \<Rightarrow>
          if line_name line = ''BEGIN'' then beginComponent (toUpperCase (trim (line_value line))) st
          else if line_name line = ''END'' then endComponent (toUpperCase (trim (line_value line))) st
          else Inr (property line st))"

definition parseLines :: "string list \<Rightarrow> IcsError + ParsedCalendar" where
  "parseLines content =
     andThen (foldM icsStep icsStart content) (\<lambda>st.
       guard (sawCalendar st) NoCalendar (guard (stack st = []) EndsInside (Inr (parsed st))))"

definition parseIcs :: "string \<Rightarrow> IcsError + ParsedCalendar" where
  "parseIcs text = andThen (unfold text) parseLines"

definition firstValue :: "ContentLine list \<Rightarrow> string \<Rightarrow> ContentLine option" where
  "firstValue event name = List.find (\<lambda>line. line_name line = name) event"

definition allValues :: "ContentLine list \<Rightarrow> string \<Rightarrow> ContentLine list" where
  "allValues event name = filter (\<lambda>line. line_name line = name) event"

section \<open>A closed calendar stays closed\<close>

lemma closed_step:
  assumes "icsStep st raw = Inr st'" "stack st = []" "sawCalendar st"
  shows "st' = st"
  using assms
  by (auto simp: icsStep_def beginComponent_def endComponent_def property_def result_simps
      split: option.splits if_splits)

lemma closed_run:
  assumes "foldM icsStep st content = Inr st'" "stack st = []" "sawCalendar st"
  shows "st' = st"
  using assms
proof (induction content arbitrary: st)
  case (Cons raw content)
  then obtain st1 where "icsStep st raw = Inr st1" "foldM icsStep st1 content = Inr st'"
    by (auto simp: result_simps)
  moreover from this(1) have "st1 = st" using Cons.prems by (intro closed_step)
  ultimately show ?case using Cons by blast
qed simp

section \<open>What an accepted calendar holds\<close>

definition icsInv :: "IcsState \<Rightarrow> bool" where
  "icsInv st \<longleftrightarrow>
     length (stack st) \<le> MAX_NESTING \<and>
     0 \<le> components st \<and> components st \<le> MAX_COMPONENTS \<and>
     int (length (cal_events (parsed st)) + length (stack st)) \<le> components st \<and>
     list_all (list_all (\<lambda>l. line_name l \<in> set EVENT_PROPERTIES)) (cal_events (parsed st)) \<and>
     list_all (\<lambda>f. list_all (\<lambda>l. line_name l \<in> set EVENT_PROPERTIES) (frame_lines f)) (stack st)"

lemma icsStep_inv:
  assumes "icsStep st raw = Inr st'" "icsInv st"
  shows "icsInv st'"
proof (cases "parseContentLine raw")
  case None
  then show ?thesis using assms by (simp add: icsStep_def)
next
  case (Some line)
  consider "line_name line = ''BEGIN''" | "line_name line = ''END''"
    | "line_name line \<noteq> ''BEGIN''" "line_name line \<noteq> ''END''" by blast
  then show ?thesis
  proof cases
    case 1
    then show ?thesis
      using assms Some by (auto simp: icsStep_def beginComponent_def result_simps icsInv_def)
  next
    case 2
    then have "endComponent (toUpperCase (trim (line_value line))) st = Inr st'"
      using assms(1) Some by (simp add: icsStep_def)
    then obtain frame rest where "stack st = frame # rest" "frame_name frame = toUpperCase (trim (line_value line))"
      by (auto simp: endComponent_def split: list.splits if_splits)
    then show ?thesis
      using assms(2) \<open>endComponent _ st = Inr st'\<close>
      by (auto simp: endComponent_def closeZone_def Let_def icsInv_def split: if_splits option.splits)
  next
    case 3
    then have "st' = property line st" using assms(1) Some by (simp add: icsStep_def)
    then show ?thesis
      using assms(2)
      by (auto simp: property_def icsInv_def Let_def split: list.split option.split)
  qed
qed

lemma icsStart_inv: "icsInv icsStart"
  by (simp add: icsInv_def icsStart_def MAX_COMPONENTS_def)

lemma parseLines_inv:
  assumes "parseLines content = Inr cal"
  shows "int (length (cal_events cal)) \<le> MAX_COMPONENTS \<and>
    list_all (list_all (\<lambda>l. line_name l \<in> set EVENT_PROPERTIES)) (cal_events cal)"
proof -
  obtain st where "foldM icsStep icsStart content = Inr st" "cal = parsed st"
    using assms by (auto simp: parseLines_def result_simps)
  moreover from this(1) have "icsInv st"
    by (rule foldM_invariant) (auto simp: icsStart_inv intro: icsStep_inv)
  ultimately show ?thesis by (auto simp: icsInv_def)
qed

section \<open>Property\<close>

text \<open>C40: no beginning of a calendar that was cut off is read as a smaller calendar.  If the
  whole file is accepted and the beginning of its lines is accepted too, then both give
  the same calendar: whatever was cut off lay after its end.  Its events are bounded in
  number and hold only the properties the connector knows.\<close>

theorem truncation_refused:
  assumes "parseLines (beginning @ remainder) = Inr cal" "parseLines beginning = Inr cal'"
  shows "cal' = cal \<and> int (length (cal_events cal)) \<le> MAX_COMPONENTS \<and>
    list_all (list_all (\<lambda>l. line_name l \<in> set EVENT_PROPERTIES)) (cal_events cal)"
proof -
  obtain st where st: "foldM icsStep icsStart beginning = Inr st" "sawCalendar st" "stack st = []"
      "cal' = parsed st"
    using assms(2) by (auto simp: parseLines_def result_simps)
  from assms(1) obtain st' where "foldM icsStep st remainder = Inr st'" "cal = parsed st'"
    by (auto simp: parseLines_def foldM_append st(1) result_simps)
  moreover from this(1) have "st' = st" using st(2,3) by (intro closed_run)
  ultimately show ?thesis using parseLines_inv [OF assms(1)] st(4) by simp
qed

definition demoLines :: "string list" where
  "demoLines = [''BEGIN:VCALENDAR'', ''BEGIN:VEVENT'', ''UID:1'', ''END:VEVENT'', ''END:VCALENDAR'']"

lemma demo_calendar:
  "parseLines demoLines = Inr
     \<lparr>cal_name = None, cal_prodid = None, cal_zones = [],
      cal_events = [[\<lparr>line_name = ''UID'', line_params = [], line_value = ''1''\<rparr>]]\<rparr>"
  "parseLines (demoLines @ [''X-NOTE:1'']) = parseLines demoLines"
  by code_simp+

theorem truncation_refused_witness:
  "\<exists>cal. parseLines demoLines = Inr cal \<and> int (length (cal_events cal)) \<le> MAX_COMPONENTS"
  using truncation_refused [of demoLines "[''X-NOTE:1'']"] demo_calendar by metis

end
