(* ===== verification/Claim_Store.thy ===== *)
theory Claim_Store
  imports Conflict
begin

text \<open>
  \<open>packages/core/src/claims/store.ts\<close>: the claim tables and the operations that read them or
  move a claim through its life - supersession, undo of a write, skipping, purge.

  The state is the set of tables these operations touch, after \<open>initClaims\<close> has created
  them.  A table is the list of its rows in insertion order; a query without \<open>ORDER BY\<close>
  returns them in that order.  An operation of the code runs in one transaction: one that
  throws leaves the tables as they were, so it returns \<open>Inl\<close> the error alone.  The times an
  operation stamps are arguments.  Identifiers of retrieval operations are left out, and the event
  rows are ones the readers of the ledger accept.
\<close>

section \<open>Tables\<close>

record EventRow =
  ev_id :: string
  ev_connector :: string
  ev_record :: string
  ev_text :: string
  ev_self :: bool
  ev_hint :: js
  ev_native :: bool

record Supersession =
  winner :: string
  loser :: string
  sup_rule :: ConflictRule
  prior_valid_to :: "string option"
  sup_receipt_id :: string
  sup_at :: string

datatype OpState = Pending | Done | Cancelled

record RetrievalOp =
  op_store :: string
  op_doc :: string
  op_state :: OpState
  op_created_at :: string
  op_done_at :: "string option"

record ClaimsDb =
  events :: "EventRow list"
  claims :: "Claim list"
  supersessions :: "Supersession list"
  retrieval_ops :: "RetrievalOp list"
  proposals :: "(string \<times> string) list"
  erasure_pending :: bool
  labels :: SensitivityDb

datatype StoreError =
    ErasurePending | SourceAccessDenied | ProvenanceUnresolved | EventOriginUnavailable
  | SelfOrigin | SchemaInvalid | UnknownPredicate | UniqueClaimId
  | StoreTime TimeError | NoProvenance

text \<open>\<open>assertPositiveAuthorityMutationAllowed\<close> before the rest of a transaction\<close>

definition fenced :: "ClaimsDb \<Rightarrow> (StoreError + 'a) \<Rightarrow> StoreError + 'a" where
  "fenced db k = guard (\<not> erasure_pending db) ErasurePending k"

fun timely :: "TimeError + 'a \<Rightarrow> StoreError + 'a" where
  "timely (Inl e) = Inl (StoreTime e)"
| "timely (Inr x) = Inr x"

lemma timely_Inr [result_simps]: "timely m = Inr x \<longleftrightarrow> m = Inr x"
  by (cases m) auto

section \<open>Reading\<close>

definition getClaim :: "ClaimsDb \<Rightarrow> string \<Rightarrow> Claim option" where
  "getClaim db claimId = List.find (\<lambda>c. claim_id c = claimId) (claims db)"

definition listByAge :: "Claim list \<Rightarrow> Claim list" where
  "listByAge = sort_key (\<lambda>c. (created_at c, claim_id c))"

record ListOptions =
  opt_status :: "ClaimStatus option"
  opt_claim_key :: "string option"
  opt_subject :: "string option"
  opt_keyed :: bool
  opt_limit :: "int option"
  opt_visible :: "Claim \<Rightarrow> bool"

definition anyClaim :: ListOptions where
  "anyClaim = \<lparr>opt_status = None, opt_claim_key = None, opt_subject = None, opt_keyed = False,
     opt_limit = None, opt_visible = (\<lambda>_. True)\<rparr>"

definition selects :: "ListOptions \<Rightarrow> Claim \<Rightarrow> bool" where
  "selects opts c \<longleftrightarrow>
     (case opt_status opts of None \<Rightarrow> True | Some s \<Rightarrow> status c = s) \<and>
     (case opt_claim_key opts of None \<Rightarrow> True | Some k \<Rightarrow> claim_key c = Some k) \<and>
     (case opt_subject opts of None \<Rightarrow> True | Some s \<Rightarrow> subject c = Some s) \<and>
     (opt_keyed opts \<longrightarrow> claim_key c \<noteq> None) \<and>
     opt_visible opts c"

definition listClaims :: "ClaimsDb \<Rightarrow> ListOptions \<Rightarrow> Claim list" where
  "listClaims db opts =
     (let limit = (case opt_limit opts of None \<Rightarrow> 200 | Some n \<Rightarrow> n);
          rows = filter (selects opts) (listByAge (claims db))
      in if limit < 0 then rows else take (nat limit) rows)"

definition countClaims :: "ClaimsDb \<Rightarrow> ClaimStatus option \<Rightarrow> nat" where
  "countClaims db wanted =
     (case wanted of
        None \<Rightarrow> length (claims db)
      | Some s \<Rightarrow> length (filter (\<lambda>c. status c = s) (claims db)))"

record LiveClaimProducers =
  by_model :: nat
  by_deterministic :: nat
  by_owner :: nat
  by_agent :: nat

definition countLiveClaimsByProducer :: "ClaimsDb \<Rightarrow> LiveClaimProducers" where
  "countLiveClaimsByProducer db =
     (let live = filter (\<lambda>c. status c = Live) (claims db);
          made = (\<lambda>p. length (filter (\<lambda>c. p (producer c)) live))
      in \<lparr>by_model = made (\<lambda>p. p = Model), by_deterministic = made (\<lambda>p. p = Deterministic),
          by_owner = made (\<lambda>p. p = Owner), by_agent = made (\<lambda>p. startsWith (producerText p) ''agent:'')\<rparr>)"

definition countWrittenLiveClaims :: "ClaimsDb \<Rightarrow> nat" where
  "countWrittenLiveClaims db =
     length (filter (\<lambda>c. status c = Live \<and> receipt_id c \<noteq> None) (claims db))"

definition liveByKey :: "ClaimsDb \<Rightarrow> string \<Rightarrow> (Claim \<Rightarrow> bool) \<Rightarrow> Claim list" where
  "liveByKey db key visible =
     filter (\<lambda>c. claim_key c = Some key \<and> status c = Live \<and> visible c) (claims db)"

definition listSupersessions :: "ClaimsDb \<Rightarrow> (string \<times> string \<times> ConflictRule) list" where
  "listSupersessions db =
     map (\<lambda>s. (winner s, loser s, sup_rule s))
       (sort_key (\<lambda>s. (sup_at s, winner s, loser s)) (supersessions db))"

definition supersessionsForReceipt ::
  "ClaimsDb \<Rightarrow> string \<Rightarrow> (string \<times> string \<times> string option \<times> ConflictRule) list" where
  "supersessionsForReceipt db receiptId =
     map (\<lambda>s. (winner s, loser s, prior_valid_to s, sup_rule s))
       (sort_key (\<lambda>s. (sup_at s, loser s))
         (filter (\<lambda>s. sup_receipt_id s = receiptId) (supersessions db)))"

definition RETRIEVAL_SWEEP_LIMIT :: int where "RETRIEVAL_SWEEP_LIMIT = 32"

text \<open>Operations of one creation time keep their insertion order: their identifiers ascend.\<close>

definition pendingRetrievalOps :: "ClaimsDb \<Rightarrow> int \<Rightarrow> string option \<Rightarrow> RetrievalOp list" where
  "pendingRetrievalOps db limit store =
     (let rows = sort_key op_created_at
            (filter (\<lambda>p. op_state p = Pending \<and> (store = None \<or> store = Some (op_store p)))
              (retrieval_ops db))
      in if limit < 0 then rows else take (nat limit) rows)"

definition countPendingRetrievalOps :: "ClaimsDb \<Rightarrow> string option \<Rightarrow> nat" where
  "countPendingRetrievalOps db store =
     length (filter (\<lambda>p. op_state p = Pending \<and> (store = None \<or> store = Some (op_store p)))
       (retrieval_ops db))"

section \<open>Provenance\<close>

definition eventRow :: "ClaimsDb \<Rightarrow> string \<Rightarrow> EventRow option" where
  "eventRow db i = List.find (\<lambda>e. ev_id e = i) (events db)"

text \<open>\<open>SELECT count(*) FROM events WHERE event_id IN (ids)\<close>\<close>

definition countEvents :: "ClaimsDb \<Rightarrow> string list \<Rightarrow> nat" where
  "countEvents db ids = length (filter (\<lambda>e. ev_id e \<in> set ids) (events db))"

definition resolveProvenance :: "ClaimsDb \<Rightarrow> string list \<Rightarrow> StoreError + unit" where
  "resolveProvenance db ids =
     guard (countEvents db ids = length ids) ProvenanceUnresolved (Inr ())"

definition provenanceGone :: "ClaimsDb \<Rightarrow> Claim \<Rightarrow> bool" where
  "provenanceGone db c \<longleftrightarrow> provenance c = [] \<or> countEvents db (provenance c) = 0"

definition remainingProvenanceCount :: "ClaimsDb \<Rightarrow> Claim \<Rightarrow> nat" where
  "remainingProvenanceCount db c =
     (if provenance c = [] then 0 else countEvents db (provenance c))"

fun requireExternalEvents :: "ClaimsDb \<Rightarrow> string list \<Rightarrow> StoreError + unit" where
  "requireExternalEvents db [] = Inr ()"
| "requireExternalEvents db (i # ids) =
     (case eventRow db i of
        None \<Rightarrow> Inl EventOriginUnavailable
      | Some e \<Rightarrow> if ev_self e then Inl SelfOrigin else requireExternalEvents db ids)"

definition externalEvidence :: "ClaimsDb \<Rightarrow> string list \<Rightarrow> StoreError + bool" where
  "externalEvidence db ids =
     (case requireExternalEvents db ids of
        Inr _ \<Rightarrow> Inr True
      | Inl SelfOrigin \<Rightarrow> Inr False
      | Inl e \<Rightarrow> Inl e)"

text \<open>The independent witnesses behind a set of events.\<close>

definition sourceRoots :: "ClaimsDb \<Rightarrow> string list \<Rightarrow> (string \<times> string) list" where
  "sourceRoots db ids =
     List.map_filter
       (\<lambda>i. map_option
          (\<lambda>e. (case Option.bind (source_event_bindings (labels db)) (\<lambda>bs. map_of bs i) of
                  None \<Rightarrow> ev_connector e | Some key \<Rightarrow> key, ev_record e))
          (eventRow db i)) ids"

section \<open>Writing\<close>

definition updateClaim :: "string \<Rightarrow> (Claim \<Rightarrow> Claim) \<Rightarrow> ClaimsDb \<Rightarrow> ClaimsDb" where
  "updateClaim claimId f db =
     db\<lparr>claims := map (\<lambda>c. if claim_id c = claimId then f c else c) (claims db)\<rparr>"

definition persisted :: "Claim \<Rightarrow> Claim \<Rightarrow> Claim" where
  "persisted c row =
     row\<lparr>confidence := confidence c, status := status c, retracted_at := retracted_at c,
        superseded_by := superseded_by c, valid_to := valid_to c,
        corroboration := corroboration c, last_confirmed_at := last_confirmed_at c,
        authority := authority c, frontmatter := frontmatter c\<rparr>"

definition persistClaim :: "Claim \<Rightarrow> ClaimsDb \<Rightarrow> ClaimsDb" where
  "persistClaim c = updateClaim (claim_id c) (persisted c)"

definition insertClaimRow :: "Claim \<Rightarrow> ClaimsDb \<Rightarrow> StoreError + ClaimsDb" where
  "insertClaimRow c db =
     guard (claim_id c \<notin> set (map claim_id (claims db))) UniqueClaimId
       (Inr (db\<lparr>claims := claims db @ [c]\<rparr>))"

definition writeSupersession ::
  "string \<Rightarrow> string \<Rightarrow> ConflictRule \<Rightarrow> string option \<Rightarrow> string \<Rightarrow> ClaimsDb \<Rightarrow> ClaimsDb" where
  "writeSupersession win lose rule prior stamp db =
     db\<lparr>supersessions := filter (\<lambda>s. \<not> (winner s = win \<and> loser s = lose)) (supersessions db) @
        [\<lparr>winner = win, loser = lose, sup_rule = rule, prior_valid_to = prior,
          sup_receipt_id = win, sup_at = stamp\<rparr>]\<rparr>"

definition enqueueClaimRetrieval :: "string option \<Rightarrow> Claim \<Rightarrow> string \<Rightarrow> ClaimsDb \<Rightarrow> ClaimsDb" where
  "enqueueClaimRetrieval store c stamp db =
     (case store of
        None \<Rightarrow> db
      | Some s \<Rightarrow>
          db\<lparr>retrieval_ops := retrieval_ops db @
             [\<lparr>op_store = s, op_doc = claim_id c, op_state = Pending, op_created_at = stamp,
               op_done_at = None\<rparr>]\<rparr>)"

definition withdrawProposal :: "string \<Rightarrow> ClaimsDb \<Rightarrow> ClaimsDb" where
  "withdrawProposal i db =
     db\<lparr>proposals := map (\<lambda>(k, s). if k = i \<and> s = ''pending'' then (k, ''withdrawn'') else (k, s))
        (proposals db)\<rparr>"

definition minTimestamp :: "string option \<Rightarrow> string option \<Rightarrow> StoreError + string option" where
  "minTimestamp left right =
     (case (left, right) of
        (Some l, Some r) \<Rightarrow>
          if l = [] then Inr right
          else if r = [] then Inr left
          else andThen (timely (compareRfc3339 l ''valid_to'' r ''valid_from''))
                 (\<lambda>c. Inr (if c \<le> 0 then left else right))
      | (None, _) \<Rightarrow> Inr right
      | (_, None) \<Rightarrow> Inr left)"

definition higherAuthority :: "AuthorityTier \<Rightarrow> AuthorityTier \<Rightarrow> AuthorityTier" where
  "higherAuthority left right =
     (if AUTHORITY_TIERS left \<ge> AUTHORITY_TIERS right then left else right)"

section \<open>Supersession\<close>

text \<open>The loser's row as the winner leaves it, journalled with the end it had.\<close>

definition supersede :: "string \<Rightarrow> string \<Rightarrow> string \<Rightarrow> ConflictRule \<Rightarrow> Claim \<Rightarrow> ClaimsDb \<Rightarrow> StoreError + ClaimsDb" where
  "supersede win winnerFrom stamp rule live db =
     andThen (minTimestamp (valid_to live) (Some winnerFrom)) (\<lambda>until.
       Inr (writeSupersession win (claim_id live) rule (valid_to live) stamp
         (persistClaim (live\<lparr>status := Superseded, superseded_by := Some win,
            retracted_at := Some stamp, valid_to := until\<rparr>) db)))"

definition supersedeLiveGroup ::
  "ClaimsDb \<Rightarrow> Claim \<Rightarrow> string \<Rightarrow> (Claim \<Rightarrow> bool) \<Rightarrow> StoreError + ClaimsDb \<times> string list" where
  "supersedeLiveGroup db win stamp visible =
     fenced db
       (case claim_key win of
          None \<Rightarrow> Inr (db, [])
        | Some key \<Rightarrow>
            (let live = filter (\<lambda>c. claim_id c \<noteq> claim_id win) (liveByKey db key visible)
             in andThen (foldM (\<lambda>d c. supersede (claim_id win) (valid_from win) stamp R5 c d) db live)
                  (\<lambda>db'. Inr (db', map claim_id live))))"

definition supersedeExactClaim ::
  "ClaimsDb \<Rightarrow> string option \<Rightarrow> Claim \<Rightarrow> string \<Rightarrow> string option \<Rightarrow> string \<Rightarrow> StoreError + ClaimsDb" where
  "supersedeExactClaim db store win loserId expectedKey stamp =
     fenced db
       (case getClaim db loserId of
          None \<Rightarrow> Inl SchemaInvalid
        | Some old \<Rightarrow>
            guard (\<not> (status old \<noteq> Live \<or> claim_key old \<noteq> expectedKey \<or>
                (expectedKey \<noteq> None \<and>
                  (subject old \<noteq> subject win \<or> predicate old \<noteq> predicate win \<or>
                   AUTHORITY_TIERS (authority win) < AUTHORITY_TIERS (authority old))) \<or>
                status win \<noteq> Live \<or> claim_id win = loserId)) SchemaInvalid
              (andThen (supersede (claim_id win) (valid_from win) stamp R5 old db) (\<lambda>db'.
                Inr (enqueueClaimRetrieval store old stamp db'))))"

section \<open>Undo, skipping and revival\<close>

definition markClaimReverted :: "ClaimsDb \<Rightarrow> string \<Rightarrow> string \<Rightarrow> StoreError + ClaimsDb" where
  "markClaimReverted db claimId stamp =
     fenced db
       (case getClaim db claimId of
          None \<Rightarrow> Inr db
        | Some c \<Rightarrow> Inr (persistClaim (c\<lparr>status := Reverted, retracted_at := Some stamp\<rparr>) db))"

definition reinstateClaim :: "ClaimsDb \<Rightarrow> string \<Rightarrow> string option \<Rightarrow> StoreError + ClaimsDb" where
  "reinstateClaim db claimId prior =
     fenced db
       (case getClaim db claimId of
          None \<Rightarrow> Inr db
        | Some c \<Rightarrow>
            Inr (persistClaim (c\<lparr>status := Live, superseded_by := None, retracted_at := None,
                   valid_to := prior\<rparr>) db))"

definition resupersedeClaim ::
  "ClaimsDb \<Rightarrow> string \<Rightarrow> string \<Rightarrow> string \<Rightarrow> string option \<Rightarrow> StoreError + ClaimsDb" where
  "resupersedeClaim db claimId win stamp until =
     fenced db
       (case getClaim db claimId of
          None \<Rightarrow> Inr db
        | Some c \<Rightarrow>
            Inr (persistClaim (c\<lparr>status := Superseded, superseded_by := Some win,
                   retracted_at := Some stamp, valid_to := until\<rparr>) db))"

definition skipUnwrittenClaim :: "ClaimsDb \<Rightarrow> string \<Rightarrow> string \<Rightarrow> StoreError + ClaimsDb \<times> bool" where
  "skipUnwrittenClaim db claimId stamp =
     fenced db
       (let hit = (\<lambda>c. claim_id c = claimId \<and> status c = Live \<and> receipt_id c = None);
            skipped = list_ex hit (claims db);
            db' = db\<lparr>claims := map (\<lambda>c. if hit c then c\<lparr>status := Skipped, retracted_at := Some stamp\<rparr> else c)
                     (claims db)\<rparr>
        in Inr (if skipped then withdrawProposal claimId db' else db', skipped))"

definition revivable :: "ClaimsDb \<Rightarrow> Claim \<Rightarrow> bool" where
  "revivable db c \<longleftrightarrow>
     status c = Skipped \<and> retracted_at c = None \<and> superseded_by c = None \<and>
     (claim_key c = None \<or>
      claim_key c \<notin> claim_key ` {r \<in> set (claims db). status r = Live \<and> claim_key r \<noteq> None})"

definition reviveUncontestedSkipped :: "ClaimsDb \<Rightarrow> StoreError + ClaimsDb \<times> nat" where
  "reviveUncontestedSkipped db =
     fenced db
       (Inr (db\<lparr>claims := map (\<lambda>c. if revivable db c then c\<lparr>status := Live\<rparr> else c) (claims db)\<rparr>,
             length (filter (revivable db) (claims db))))"

section \<open>Purge\<close>

definition purgeOne :: "string \<Rightarrow> ClaimsDb \<times> string list \<Rightarrow> Claim \<Rightarrow> ClaimsDb \<times> string list" where
  "purgeOne stamp acc c =
     (let (db, purged) = acc
      in if \<not> provenanceGone db c then acc
         else (persistClaim (c\<lparr>status := Purged, retracted_at := Some stamp\<rparr>) db, purged @ [claim_id c]))"

definition markClaimsPurged :: "ClaimsDb \<Rightarrow> string \<Rightarrow> ClaimsDb \<times> string list" where
  "markClaimsPurged db stamp =
     foldl (purgeOne stamp) (db, []) (listClaims db (anyClaim\<lparr>opt_status := Some Live\<rparr>))"

type_synonym purge_state = "ClaimsDb \<times> string list \<times> string list"

definition purgeRow :: "string \<Rightarrow> purge_state \<Rightarrow> Claim \<Rightarrow> purge_state" where
  "purgeRow stamp acc c =
     (let (db, purged, reduced) = acc;
          remaining = remainingProvenanceCount db c
      in if remaining = 0
         then (persistClaim (c\<lparr>status := Purged, retracted_at := Some stamp\<rparr>) db, purged @ [claim_id c], reduced)
         else if remaining < length (provenance c) \<and> status c = Live
         then (persistClaim (c\<lparr>status := ProvenanceReduced\<rparr>) db, purged, reduced @ [claim_id c])
         else acc)"

text \<open>\<open>status IN ('live', 'provenance_reduced')\<close> and \<open>claim_id > after\<close>\<close>

definition alive :: "Claim \<Rightarrow> bool" where
  "alive c \<longleftrightarrow> status c = Live \<or> status c = ProvenanceReduced"

definition beyond :: "string option \<Rightarrow> string \<Rightarrow> bool" where
  "beyond after i \<longleftrightarrow> (case after of None \<Rightarrow> True | Some a \<Rightarrow> a < i)"

definition purgeBatch :: "nat \<Rightarrow> ClaimsDb \<Rightarrow> string option \<Rightarrow> Claim list" where
  "purgeBatch batch db after =
     take batch (sort_key claim_id
       (filter (\<lambda>c. alive c \<and> beyond after (claim_id c)) (claims db)))"

text \<open>Neither the identities of the claims nor the events change.\<close>

lemma updateClaim_ids [simp]:
  assumes "\<And>c. claim_id (f c) = claim_id c"
  shows "map claim_id (claims (updateClaim i f db)) = map claim_id (claims db)"
  using assms by (simp add: updateClaim_def)

lemma persisted_id [simp]: "claim_id (persisted c row) = claim_id row"
  by (simp add: persisted_def)

lemma persistClaim_frame [simp]:
  "map claim_id (claims (persistClaim c db)) = map claim_id (claims db)"
  "events (persistClaim c db) = events db"
  "supersessions (persistClaim c db) = supersessions db"
  "erasure_pending (persistClaim c db) = erasure_pending db"
  by (simp_all add: persistClaim_def updateClaim_def)

lemma purgeRow_frame [simp]:
  "map claim_id (claims (fst (purgeRow stamp acc c))) = map claim_id (claims (fst acc))"
  "events (fst (purgeRow stamp acc c)) = events (fst acc)"
  by (cases acc; simp add: purgeRow_def Let_def)+

lemma purgeRows_frame [simp]:
  "map claim_id (claims (fst (foldl (purgeRow stamp) acc rows))) = map claim_id (claims (fst acc))"
  "events (fst (foldl (purgeRow stamp) acc rows)) = events (fst acc)"
  by (induction rows arbitrary: acc) auto

lemma purgeBatch_beyond: "c \<in> set (purgeBatch batch db after) \<Longrightarrow> c \<in> set (claims db) \<and> beyond after (claim_id c)"
  using set_take_subset by (fastforce simp: purgeBatch_def)

lemma beyond_shrinks:
  assumes "i \<in> set ids" "beyond after i"
  shows "length (filter (beyond (Some i)) ids) < length (filter (beyond after) ids)"
proof -
  have "filter (beyond (Some i)) ids = filter (beyond (Some i)) (filter (beyond after) ids)"
    using assms(2) by (auto simp: beyond_def intro!: filter_cong split: option.splits)
  also have "length \<dots> < length (filter (beyond after) ids)"
    using assms by (intro length_filter_less [of i]) (auto simp: beyond_def)
  finally show ?thesis .
qed

text \<open>The loop of \<open>markClaimsAfterPurge\<close>: batch after batch, behind the last identity seen.\<close>

function purgeLoop :: "nat \<Rightarrow> string \<Rightarrow> string option \<Rightarrow> purge_state \<Rightarrow> purge_state" where
  "purgeLoop batch stamp after acc =
     (let rows = purgeBatch batch (fst acc) after
      in if rows = [] then acc
         else purgeLoop batch stamp (Some (claim_id (last rows))) (foldl (purgeRow stamp) acc rows))"
  by pat_completeness auto

termination
proof (relation "measure (\<lambda>(batch, stamp, after, acc).
    length (filter (beyond after) (map claim_id (claims (fst acc)))))", goal_cases)
  case (2 batch stamp after acc rows)
  have "last rows \<in> set (purgeBatch batch (fst acc) after)" using 2 by simp
  note b = purgeBatch_beyond [OF this]
  show ?case
    using beyond_shrinks [of "claim_id (last rows)" "map claim_id (claims (fst acc))" after] b
    by (simp only: in_measure prod.case purgeRows_frame) simp
qed simp

declare purgeLoop.simps [simp del]

definition markClaimsAfterPurge :: "ClaimsDb \<Rightarrow> string \<Rightarrow> purge_state" where
  "markClaimsAfterPurge db stamp = purgeLoop 500 stamp None (db, [], [])"

section \<open>What a purge leaves\<close>

text \<open>The reference: every claim on its own.\<close>

definition reducedBy :: "ClaimsDb \<Rightarrow> Claim \<Rightarrow> bool" where
  "reducedBy db c \<longleftrightarrow>
     status c = Live \<and> 0 < remainingProvenanceCount db c \<and>
     remainingProvenanceCount db c < length (provenance c)"

definition afterPurge :: "ClaimsDb \<Rightarrow> string \<Rightarrow> Claim \<Rightarrow> Claim" where
  "afterPurge db stamp c =
     (if alive c \<and> remainingProvenanceCount db c = 0
      then c\<lparr>status := Purged, retracted_at := Some stamp\<rparr>
      else if reducedBy db c then c\<lparr>status := ProvenanceReduced\<rparr>
      else c)"

lemma remaining_events:
  "events d = events db \<Longrightarrow> remainingProvenanceCount d c = remainingProvenanceCount db c"
  by (simp add: remainingProvenanceCount_def countEvents_def)

lemma afterPurge_id [simp]: "claim_id (afterPurge db stamp c) = claim_id c"
  by (simp add: afterPurge_def)

lemma afterPurge_dead: "\<not> alive c \<Longrightarrow> afterPurge db stamp c = c"
  by (auto simp: afterPurge_def reducedBy_def alive_def)

lemma persistClaim_claims:
  assumes "distinct (map claim_id xs)" "c \<in> set xs" "claim_id c' = claim_id c" "persisted c' c = c'"
    and "claims d = map f xs" "\<And>r. claim_id (f r) = claim_id r" "f c = c"
  shows "claims (persistClaim c' d) = map (\<lambda>r. if r = c then c' else f r) xs"
proof -
  have "r = c" if "r \<in> set xs" "claim_id r = claim_id c" for r
    using assms(1,2) that by (metis eq_key_imp_eq_value distinct_map inj_on_def)
  then show ?thesis using assms by (auto simp: persistClaim_def updateClaim_def)
qed

definition purgedTo :: "ClaimsDb \<Rightarrow> string \<Rightarrow> string set \<Rightarrow> purge_state \<Rightarrow> bool" where
  "purgedTo db stamp D acc \<longleftrightarrow>
     events (fst acc) = events db \<and>
     claims (fst acc) = map (\<lambda>r. if claim_id r \<in> D then afterPurge db stamp r else r) (claims db) \<and>
     set (fst (snd acc)) =
       claim_id ` {c \<in> set (claims db). claim_id c \<in> D \<and> alive c \<and> remainingProvenanceCount db c = 0} \<and>
     set (snd (snd acc)) = claim_id ` {c \<in> set (claims db). claim_id c \<in> D \<and> reducedBy db c}"

lemma persisted_status [simp]:
  "persisted (c\<lparr>status := s, retracted_at := t\<rparr>) c = c\<lparr>status := s, retracted_at := t\<rparr>"
  "persisted (c\<lparr>status := s\<rparr>) c = c\<lparr>status := s\<rparr>"
  by (simp_all add: persisted_def)

lemma purgeRow_purgedTo:
  assumes "distinct (map claim_id (claims db))" "purgedTo db stamp D acc"
    and "c \<in> set (claims db)" "claim_id c \<notin> D" "alive c"
  shows "purgedTo db stamp (insert (claim_id c) D) (purgeRow stamp acc c)"
proof -
  let ?f = "\<lambda>r. if claim_id r \<in> D then afterPurge db stamp r else r"
  let ?g = "\<lambda>r. if claim_id r \<in> insert (claim_id c) D then afterPurge db stamp r else r"
  have only: "r = c" if "r \<in> set (claims db)" "claim_id r = claim_id c" for r
    using assms(1,3) that by (metis distinct_map inj_on_def)
  have grown: "{r \<in> set (claims db). claim_id r \<in> insert (claim_id c) D \<and> P r} =
      {r \<in> set (claims db). claim_id r \<in> D \<and> P r} \<union> (if P c then {c} else {})" for P
    using assms(3) by (auto dest: only)
  obtain d p q where acc: "acc = (d, p, q)" by (cases acc)
  have d: "events d = events db" "claims d = map ?f (claims db)"
    and p: "set p = claim_id ` {c \<in> set (claims db). claim_id c \<in> D \<and> alive c \<and>
        remainingProvenanceCount db c = 0}"
    and q: "set q = claim_id ` {c \<in> set (claims db). claim_id c \<in> D \<and> reducedBy db c}"
    using assms(2) by (simp_all add: purgedTo_def acc)
  note left = remaining_events [OF d(1)]
  have new: "claims (persistClaim c' d) = map (\<lambda>r. if r = c then c' else ?f r) (claims db)"
    if "claim_id c' = claim_id c" "persisted c' c = c'" for c'
    by (rule persistClaim_claims [OF assms(1,3) that d(2)]) (simp_all add: assms(4))
  have step: "map (\<lambda>r. if r = c then afterPurge db stamp c else ?f r) (claims db) = map ?g (claims db)"
  proof (rule map_cong [OF refl])
    fix r assume r: "r \<in> set (claims db)"
    show "(if r = c then afterPurge db stamp c else ?f r) = ?g r"
      using only [OF r] assms(4) by (cases "r = c") auto
  qed
  consider (gone) "remainingProvenanceCount db c = 0"
    | (less) "remainingProvenanceCount db c \<noteq> 0" "reducedBy db c"
    | (kept) "remainingProvenanceCount db c \<noteq> 0" "\<not> reducedBy db c" by blast
  then show ?thesis
  proof cases
    case gone
    then have c': "afterPurge db stamp c = c\<lparr>status := Purged, retracted_at := Some stamp\<rparr>" "\<not> reducedBy db c"
      using assms(5) by (simp_all add: afterPurge_def reducedBy_def)
    have row: "purgeRow stamp acc c =
        (persistClaim (c\<lparr>status := Purged, retracted_at := Some stamp\<rparr>) d, p @ [claim_id c], q)"
      using gone by (simp add: purgeRow_def acc Let_def left)
    have "claims (persistClaim (c\<lparr>status := Purged, retracted_at := Some stamp\<rparr>) d) = map ?g (claims db)"
      using new [of "c\<lparr>status := Purged, retracted_at := Some stamp\<rparr>"] step unfolding c'(1) by simp
    then show ?thesis
      unfolding purgedTo_def row fst_conv snd_conv grown by (simp add: d(1) p q c'(2) gone assms(5))
  next
    case less
    then have c': "afterPurge db stamp c = c\<lparr>status := ProvenanceReduced\<rparr>"
      by (simp add: afterPurge_def)
    have row: "purgeRow stamp acc c =
        (persistClaim (c\<lparr>status := ProvenanceReduced\<rparr>) d, p, q @ [claim_id c])"
      using less by (simp add: purgeRow_def acc Let_def left reducedBy_def)
    have "claims (persistClaim (c\<lparr>status := ProvenanceReduced\<rparr>) d) = map ?g (claims db)"
      using new [of "c\<lparr>status := ProvenanceReduced\<rparr>"] step unfolding c' by simp
    then show ?thesis
      unfolding purgedTo_def row fst_conv snd_conv grown by (simp add: d(1) p q less)
  next
    case kept
    then have c': "afterPurge db stamp c = c" by (simp add: afterPurge_def)
    have row: "purgeRow stamp acc c = (d, p, q)"
      using kept by (auto simp: purgeRow_def acc Let_def left reducedBy_def)
    have "map ?f (claims db) = map ?g (claims db)"
      by (rule trans [OF _ step]) (simp add: c' assms(4))
    then show ?thesis
      unfolding purgedTo_def row fst_conv snd_conv grown by (simp add: d p q kept)
  qed
qed

lemma purgeRows_purgedTo:
  assumes "distinct (map claim_id (claims db))" "purgedTo db stamp D acc"
    and "set rows \<subseteq> set (claims db)" "distinct (map claim_id rows)"
    and "claim_id ` set rows \<inter> D = {}" "list_all alive rows"
  shows "purgedTo db stamp (D \<union> claim_id ` set rows) (foldl (purgeRow stamp) acc rows)"
  using assms
proof (induction rows arbitrary: acc D)
  case (Cons c rows)
  have "purgedTo db stamp (insert (claim_id c) D) (purgeRow stamp acc c)"
    using Cons.prems by (intro purgeRow_purgedTo) auto
  then have "purgedTo db stamp (insert (claim_id c) D \<union> claim_id ` set rows)
      (foldl (purgeRow stamp) (purgeRow stamp acc c) rows)"
    using Cons.prems by (intro Cons.IH) auto
  then show ?case by simp
qed simp

lemma purgeBatch_alive: "list_all alive (purgeBatch batch db after)"
  using set_take_subset by (fastforce simp: purgeBatch_def list_all_iff)

lemma purgeBatch_distinct:
  assumes "distinct (map claim_id (claims db))"
  shows "distinct (map claim_id (purgeBatch batch db after))"
  using assms unfolding purgeBatch_def
  by (auto simp: distinct_map take_map [symmetric] intro: inj_on_subset dest: in_set_takeD intro!: distinct_take)

text \<open>A batch takes the smallest identities, so none is skipped when the next one starts behind it.\<close>

lemma sorted_take_last:
  fixes f :: "'a \<Rightarrow> 'k :: linorder"
  assumes "sorted_wrt (<) (map f xs)" "take n xs \<noteq> []"
    and "x \<in> set xs" "f x \<le> f (last (take n xs))"
  shows "x \<in> set (take n xs)"
proof (rule ccontr)
  assume "x \<notin> set (take n xs)"
  then have "x \<in> set (drop n xs)"
    using assms(3) by (metis Un_iff append_take_drop_id set_append)
  moreover have "last (take n xs) \<in> set (take n xs)" using assms(2) by simp
  moreover have "sorted_wrt (<) (map f (take n xs) @ map f (drop n xs))"
    using assms(1) by (simp flip: map_append)
  ultimately have "f (last (take n xs)) < f x" by (auto simp: sorted_wrt_append)
  then show False using assms(4) by (simp add: leD)
qed

lemma purgeBatch_covers:
  assumes "distinct (map claim_id (claims db))" "purgeBatch batch db after \<noteq> []"
    and "c \<in> set (claims db)" "alive c" "beyond after (claim_id c)"
    and "claim_id c \<le> claim_id (last (purgeBatch batch db after))"
  shows "c \<in> set (purgeBatch batch db after)"
proof -
  let ?xs = "sort_key claim_id (filter (\<lambda>c. alive c \<and> beyond after (claim_id c)) (claims db))"
  have "sorted_wrt (<) (map claim_id ?xs)"
    using assms(1) by (auto simp: strict_sorted_iff distinct_map intro: inj_on_subset)
  then show ?thesis
    using assms(2-) sorted_take_last [of claim_id ?xs batch c] by (simp add: purgeBatch_def)
qed

lemma purgeBatch_empty:
  assumes "purgeBatch batch db after = []" "0 < batch" "c \<in> set (claims db)" "alive c"
  shows "\<not> beyond after (claim_id c)"
proof -
  have "length (filter (\<lambda>c. alive c \<and> beyond after (claim_id c)) (claims db)) = 0"
    using assms(1,2) unfolding purgeBatch_def by (simp flip: length_0_conv)
  then show ?thesis using assms(3,4) by (simp add: filter_empty_conv)
qed

text \<open>What a batch reads behind the last identity is still what the tables held at first.\<close>

lemma filter_map_keep:
  assumes "\<And>x. P (g x) = P x" "\<And>x. P x \<Longrightarrow> g x = x"
  shows "filter P (map g xs) = filter P xs"
  by (induction xs) (auto simp: assms)

lemma purgeBatch_same:
  assumes "claims d = map (\<lambda>r. if claim_id r \<in> {i. \<not> beyond after i} then f r else r) (claims db)"
    and "\<And>r. claim_id (f r) = claim_id r"
  shows "purgeBatch batch d after = purgeBatch batch db after"
  unfolding purgeBatch_def assms(1)
  by (subst filter_map_keep) (auto simp: assms(2))

text \<open>Only the claims still alive matter.\<close>

lemma purgedTo_cong:
  assumes "purgedTo db stamp D acc"
    and same: "\<And>c. c \<in> set (claims db) \<Longrightarrow> alive c \<Longrightarrow> claim_id c \<in> E \<longleftrightarrow> claim_id c \<in> D"
  shows "purgedTo db stamp E acc"
proof -
  have "(if claim_id r \<in> D then afterPurge db stamp r else r) =
      (if claim_id r \<in> E then afterPurge db stamp r else r)" if "r \<in> set (claims db)" for r
    using same [OF that] afterPurge_dead [of r db stamp] by (cases "alive r") auto
  then have rows: "map (\<lambda>r. if claim_id r \<in> E then afterPurge db stamp r else r) (claims db) =
      map (\<lambda>r. if claim_id r \<in> D then afterPurge db stamp r else r) (claims db)"
    by simp
  have gone: "{c \<in> set (claims db). claim_id c \<in> E \<and> alive c \<and> remainingProvenanceCount db c = 0} =
      {c \<in> set (claims db). claim_id c \<in> D \<and> alive c \<and> remainingProvenanceCount db c = 0}"
    using same by auto
  have less: "{c \<in> set (claims db). claim_id c \<in> E \<and> reducedBy db c} =
      {c \<in> set (claims db). claim_id c \<in> D \<and> reducedBy db c}"
    using same by (auto simp: reducedBy_def alive_def)
  show ?thesis
    using assms(1) unfolding purgedTo_def rows gone less .
qed

lemma last_is_largest: "x \<in> set xs \<Longrightarrow> sorted (map f xs) \<Longrightarrow> f x \<le> f (last xs)"
  by (cases xs rule: rev_cases) (auto simp: sorted_append)

lemma purgeBatch_sorted: "sorted (map claim_id (purgeBatch batch db after))"
  by (simp add: purgeBatch_def take_map [symmetric] sorted_wrt_take)

lemma purgeLoop_purged:
  assumes "distinct (map claim_id (claims db))" "0 < batch"
    and "purgedTo db stamp {i. \<not> beyond after i} acc"
  shows "purgedTo db stamp UNIV (purgeLoop batch stamp after acc)"
  using assms(2,3)
proof (induction batch stamp after acc rule: purgeLoop.induct)
  case (1 batch stamp after acc)
  let ?D = "\<lambda>after. {i. \<not> beyond after i}"
  let ?rows = "purgeBatch batch (fst acc) after"
  have rows: "?rows = purgeBatch batch db after"
    using "1.prems"(2) by (intro purgeBatch_same [where f = "afterPurge db stamp"]) (auto simp: purgedTo_def)
  show ?case
  proof (cases "?rows = []")
    case True
    then have "purgedTo db stamp UNIV acc"
      using purgeBatch_empty "1.prems" rows by (intro purgedTo_cong [OF "1.prems"(2)]) auto
    then show ?thesis using True by (subst purgeLoop.simps) (simp add: Let_def)
  next
    case False
    have "purgedTo db stamp (?D after \<union> claim_id ` set ?rows) (foldl (purgeRow stamp) acc ?rows)"
      using purgeBatch_distinct [OF assms(1), of batch after] purgeBatch_alive [of batch db after]
        purgeBatch_beyond [of _ batch db after]
      by (intro purgeRows_purgedTo [OF assms(1) "1.prems"(2)]) (auto simp: rows)
    then have "purgedTo db stamp (?D (Some (claim_id (last ?rows)))) (foldl (purgeRow stamp) acc ?rows)"
    proof (rule purgedTo_cong)
      fix c assume c: "c \<in> set (claims db)" "alive c"
      have "beyond after (claim_id (last ?rows))"
        using False purgeBatch_beyond [of "last ?rows" batch db after] by (simp add: rows)
      then have "claim_id c \<le> claim_id (last ?rows)" if "\<not> beyond after (claim_id c)"
        using that by (auto simp: beyond_def split: option.splits)
      moreover have "claim_id c \<le> claim_id (last ?rows)" if "claim_id c \<in> claim_id ` set ?rows"
        using that last_is_largest [OF _ purgeBatch_sorted [of batch db after]] by (auto simp: rows)
      moreover have "c \<in> set ?rows" if "claim_id c \<le> claim_id (last ?rows)" "beyond after (claim_id c)"
        using that c False purgeBatch_covers [OF assms(1)] by (simp add: rows)
      ultimately show "claim_id c \<in> ?D (Some (claim_id (last ?rows))) \<longleftrightarrow>
          claim_id c \<in> ?D after \<union> claim_id ` set ?rows"
        by (auto simp: beyond_def not_less)
    qed
    then show ?thesis
      using "1.IH" [OF refl False "1.prems"(1)] False by (subst purgeLoop.simps) (simp add: Let_def)
  qed
qed

lemma purge_finishes:
  assumes "distinct (map claim_id (claims db))"
  shows "purgedTo db stamp UNIV (markClaimsAfterPurge db stamp)"
  unfolding markClaimsAfterPurge_def
  by (rule purgeLoop_purged [OF assms]) (simp_all add: purgedTo_def beyond_def)

section \<open>Coherent claims\<close>

text \<open>What a status says of the other columns.\<close>

definition coherent :: "Claim \<Rightarrow> bool" where
  "coherent c \<longleftrightarrow>
     provenance c \<noteq> [] \<and>
     (case status c of
        Live \<Rightarrow> retracted_at c = None \<and> superseded_by c = None
      | ProvenanceReduced \<Rightarrow> retracted_at c = None \<and> superseded_by c = None
      | Superseded \<Rightarrow> retracted_at c \<noteq> None \<and> superseded_by c \<noteq> None
      | Skipped \<Rightarrow> superseded_by c = None
      | _ \<Rightarrow> retracted_at c \<noteq> None)"

text \<open>What no operation on a row may change, with the columns it may change blanked out.\<close>

definition content :: "Claim \<Rightarrow> Claim" where
  "content c =
     c\<lparr>confidence := 0, status := Live, retracted_at := None, superseded_by := None,
       valid_to := None, corroboration := 0, last_confirmed_at := None,
       authority := OwnerAuthored, frontmatter := [], provenance := [], claim_sensitivity := Public\<rparr>"

text \<open>A later version of a row: its identity and content are the same, its label is not
  weaker, its citations are not fewer.\<close>

definition later :: "Claim \<Rightarrow> Claim \<Rightarrow> bool" where
  "later r c \<longleftrightarrow>
     content c = content r \<and>
     claim_sensitivity r \<le> claim_sensitivity c \<and> set (provenance r) \<subseteq> set (provenance c) \<and>
     corroboration r \<le> corroboration c"

definition wfStore :: "ClaimsDb \<Rightarrow> bool" where
  "wfStore db \<longleftrightarrow>
     distinct (map claim_id (claims db)) \<and> list_all coherent (claims db) \<and>
     distinct (map (\<lambda>s. (winner s, loser s)) (supersessions db))"

definition grown :: "ClaimsDb \<Rightarrow> ClaimsDb \<Rightarrow> bool" where
  "grown db db' \<longleftrightarrow>
     events db' = events db \<and>
     (\<exists>rows added. claims db' = rows @ added \<and> list_all2 later (claims db) rows) \<and>
     (\<lambda>s. (winner s, loser s)) ` set (supersessions db) \<subseteq>
       (\<lambda>s. (winner s, loser s)) ` set (supersessions db')"

lemma content_id [simp]: "claim_id (content c) = claim_id c"
  by (simp add: content_def)

lemma content_persisted [simp]: "content (persisted c r) = content r"
  by (simp add: content_def persisted_def)

lemma later_refl [simp]: "later c c"
  by (simp add: later_def)

lemma later_id: "later r c \<Longrightarrow> claim_id c = claim_id r"
  by (metis later_def content_id)

lemma later_trans: "later a b \<Longrightarrow> later b c \<Longrightarrow> later a c"
  by (auto simp: later_def)

lemma later_persisted [simp]: "later r (persisted c r) \<longleftrightarrow> corroboration r \<le> corroboration c"
  by (simp add: later_def) (simp add: persisted_def)

lemma grown_refl [simp]: "grown db db"
  unfolding grown_def
  by (intro conjI exI [of _ "claims db"] exI [of _ "[]"]) (auto intro: list.rel_refl)

lemma grown_trans:
  assumes "grown a b" "grown b c"
  shows "grown a c"
proof -
  obtain rows added where b: "claims b = rows @ added" "list_all2 later (claims a) rows"
    using assms(1) by (auto simp: grown_def)
  obtain rows' added' where c: "claims c = rows' @ added'" "list_all2 later (rows @ added) rows'"
    using assms(2) b(1) by (auto simp: grown_def)
  then obtain front tail where "rows' = front @ tail" "list_all2 later rows front"
    by (auto simp: list_all2_append1)
  moreover have "list_all2 later (claims a) front"
  proof (rule list_all2_trans)
    show "later x y \<Longrightarrow> later y z \<Longrightarrow> later x z" for x y z by (rule later_trans)
    show "list_all2 later (claims a) rows" by (rule b(2))
    show "list_all2 later rows front" by fact
  qed
  ultimately have "claims c = front @ tail @ added' \<and> list_all2 later (claims a) front"
    using c(1) by simp
  then have "\<exists>rows added. claims c = rows @ added \<and> list_all2 later (claims a) rows" by blast
  moreover have "events c = events a" using assms by (simp add: grown_def)
  moreover have "(\<lambda>s. (winner s, loser s)) ` set (supersessions a) \<subseteq>
      (\<lambda>s. (winner s, loser s)) ` set (supersessions c)"
    using assms unfolding grown_def by (elim conjE) (rule subset_trans)
  ultimately show ?thesis by (simp add: grown_def)
qed

lemma only_claim:
  assumes "wfStore db" "r \<in> set (claims db)" "c \<in> set (claims db)" "claim_id r = claim_id c"
  shows "r = c"
  using assms by (auto simp: wfStore_def distinct_map dest: inj_onD)

lemma getClaim_member:
  assumes "getClaim db i = Some c"
  shows "c \<in> set (claims db)" "claim_id c = i"
  using assms by (auto simp: getClaim_def find_Some_iff)

lemma getClaim_known: "wfStore db \<Longrightarrow> c \<in> set (claims db) \<Longrightarrow> getClaim db (claim_id c) = Some c"
proof (cases "getClaim db (claim_id c)")
  case (Some x)
  assume "wfStore db" "c \<in> set (claims db)"
  then have "x = c" using getClaim_member [OF Some] by (intro only_claim)
  then show ?thesis using Some by simp
qed (auto simp: getClaim_def find_None_iff)

lemma persistClaim_row:
  assumes "wfStore db" "r \<in> set (claims db)" "claim_id c = claim_id r"
  shows "claims (persistClaim c db) = map (\<lambda>x. if x = r then persisted c r else x) (claims db)"
  using assms only_claim [OF assms(1) _ assms(2)]
  by (auto simp: persistClaim_def updateClaim_def)

lemma grown_map:
  assumes "claims d = map f (claims db)" "\<And>r. r \<in> set (claims db) \<Longrightarrow> later r (f r)"
    and "events d = events db"
    and "(\<lambda>s. (winner s, loser s)) ` set (supersessions db) \<subseteq>
       (\<lambda>s. (winner s, loser s)) ` set (supersessions d)"
  shows "grown db d"
  using assms unfolding grown_def
  by (intro conjI exI [of _ "map f (claims db)"] exI [of _ "[]"])
    (auto simp: list_all2_map2 list.rel_refl_strong)

lemma wfStore_map:
  assumes "wfStore db" "claims d = map f (claims db)" "\<And>r. claim_id (f r) = claim_id r"
    and "\<And>r. r \<in> set (claims db) \<Longrightarrow> coherent (f r)"
    and "distinct (map (\<lambda>s. (winner s, loser s)) (supersessions d))"
  shows "wfStore d"
  using assms by (auto simp: wfStore_def list_all_iff comp_def)

lemma persistClaim_keeps:
  assumes "wfStore db" "r \<in> set (claims db)" "claim_id c = claim_id r"
    and "coherent (persisted c r)" "corroboration r \<le> corroboration c"
  shows "wfStore (persistClaim c db) \<and> grown db (persistClaim c db)"
proof
  note rows = persistClaim_row [OF assms(1-3)]
  show "wfStore (persistClaim c db)"
    using assms(1,4) by (intro wfStore_map [OF assms(1) rows]) (auto simp: wfStore_def list_all_iff)
  show "grown db (persistClaim c db)"
    using assms(5) by (intro grown_map [OF rows]) auto
qed

section \<open>Every operation keeps the tables coherent\<close>

lemma writeSupersession_frame [simp]:
  "claims (writeSupersession w l rule prior stamp db) = claims db"
  "events (writeSupersession w l rule prior stamp db) = events db"
  by (simp_all add: writeSupersession_def)

lemma writeSupersession_keys:
  "distinct (map (\<lambda>s. (winner s, loser s)) (supersessions db)) \<Longrightarrow>
     distinct (map (\<lambda>s. (winner s, loser s)) (supersessions (writeSupersession w l rule prior stamp db)))"
  "(\<lambda>s. (winner s, loser s)) ` set (supersessions db) \<subseteq>
     (\<lambda>s. (winner s, loser s)) ` set (supersessions (writeSupersession w l rule prior stamp db))"
  by (auto simp: writeSupersession_def distinct_map intro: inj_on_subset)

lemma writeSupersession_keeps:
  assumes "wfStore db"
  shows "wfStore (writeSupersession w l rule prior stamp db) \<and> grown db (writeSupersession w l rule prior stamp db)"
proof
  show "wfStore (writeSupersession w l rule prior stamp db)"
    using assms writeSupersession_keys(1) by (simp add: wfStore_def)
  show "grown db (writeSupersession w l rule prior stamp db)"
    using writeSupersession_keys(2) by (intro grown_map [where f = id]) simp_all
qed

lemma enqueue_frame [simp]:
  "claims (enqueueClaimRetrieval store c stamp db) = claims db"
  "events (enqueueClaimRetrieval store c stamp db) = events db"
  "supersessions (enqueueClaimRetrieval store c stamp db) = supersessions db"
  "erasure_pending (enqueueClaimRetrieval store c stamp db) = erasure_pending db"
  "labels (enqueueClaimRetrieval store c stamp db) = labels db"
  by (simp_all add: enqueueClaimRetrieval_def split: option.split)

lemma withdraw_frame [simp]:
  "claims (withdrawProposal i db) = claims db"
  "events (withdrawProposal i db) = events db"
  "supersessions (withdrawProposal i db) = supersessions db"
  by (simp_all add: withdrawProposal_def)

lemma same_tables_keep:
  assumes "wfStore db" "claims d = claims db" "events d = events db" "supersessions d = supersessions db"
  shows "wfStore d \<and> grown db d"
  using assms grown_map [of d id db] by (simp add: wfStore_def)

lemma fenced_Inr [result_simps]: "fenced db k = Inr x \<longleftrightarrow> \<not> erasure_pending db \<and> k = Inr x"
  by (simp add: fenced_def result_simps)

text \<open>A row as its winner leaves it.\<close>

definition ended :: "string \<Rightarrow> string \<Rightarrow> string option \<Rightarrow> Claim \<Rightarrow> Claim" where
  "ended w stamp until c =
     c\<lparr>status := Superseded, superseded_by := Some w, retracted_at := Some stamp, valid_to := until\<rparr>"

lemma persisted_ended [simp]: "persisted (ended w stamp until c) c = ended w stamp until c"
  by (simp add: persisted_def ended_def)

lemma ended_simps [simp]:
  "claim_id (ended w stamp until c) = claim_id c"
  "corroboration (ended w stamp until c) = corroboration c"
  "provenance (ended w stamp until c) = provenance c"
  "status (ended w stamp until c) = Superseded"
  by (simp_all add: ended_def)

lemma coherent_ended: "coherent c \<Longrightarrow> coherent (ended w stamp until c)"
  by (simp add: coherent_def ended_def)

lemma supersede_Inr:
  "supersede w from' stamp rule live db = Inr db' \<longleftrightarrow>
     (\<exists>until. minTimestamp (valid_to live) (Some from') = Inr until \<and>
        db' = writeSupersession w (claim_id live) rule (valid_to live) stamp
                (persistClaim (ended w stamp until live) db))"
  by (auto simp: supersede_def result_simps ended_def)

lemma coherent_row: "wfStore db \<Longrightarrow> c \<in> set (claims db) \<Longrightarrow> coherent c"
  by (simp add: wfStore_def list_all_iff)

lemma supersede_keeps:
  assumes "wfStore db" "live \<in> set (claims db)" "supersede w from' stamp rule live db = Inr db'"
  shows "wfStore db' \<and> grown db db'"
proof -
  obtain until where db': "db' = writeSupersession w (claim_id live) rule (valid_to live) stamp
      (persistClaim (ended w stamp until live) db)"
    using assms(3) by (auto simp: supersede_Inr)
  have "wfStore (persistClaim (ended w stamp until live) db) \<and>
      grown db (persistClaim (ended w stamp until live) db)"
    using assms(1,2) coherent_ended [OF coherent_row [OF assms(1,2)]] by (intro persistClaim_keeps) auto
  then show ?thesis using writeSupersession_keeps grown_trans unfolding db' by blast
qed

lemma supersede_rows:
  assumes "wfStore db" "live \<in> set (claims db)" "supersede w from' stamp rule live db = Inr db'"
  shows "\<exists>until. claims db' = map (\<lambda>c. if c = live then ended w stamp until c else c) (claims db)"
proof -
  obtain until where "db' = writeSupersession w (claim_id live) rule (valid_to live) stamp
      (persistClaim (ended w stamp until live) db)"
    using assms(3) by (auto simp: supersede_Inr)
  then have "claims db' = map (\<lambda>c. if c = live then ended w stamp until live else c) (claims db)"
    using persistClaim_row [OF assms(1,2), of "ended w stamp until live"] by simp
  then show ?thesis by (intro exI [of _ until]) (auto cong: if_cong)
qed

text \<open>One winner ends several claims.\<close>

definition journalled :: "string \<Rightarrow> string \<Rightarrow> ConflictRule \<Rightarrow> Claim \<Rightarrow> Supersession" where
  "journalled w stamp rule c =
     \<lparr>winner = w, loser = claim_id c, sup_rule = rule, prior_valid_to = valid_to c,
      sup_receipt_id = w, sup_at = stamp\<rparr>"

abbreviation supersedeAll ::
  "string \<Rightarrow> string \<Rightarrow> string \<Rightarrow> ConflictRule \<Rightarrow> ClaimsDb \<Rightarrow> Claim list \<Rightarrow> StoreError + ClaimsDb" where
  "supersedeAll w from' stamp rule \<equiv> foldM (\<lambda>d c. supersede w from' stamp rule c d)"

lemma supersedeAll_keeps:
  assumes "supersedeAll w from' stamp rule db rows = Inr db'"
    and "wfStore db" "set rows \<subseteq> set (claims db)" "distinct (map claim_id rows)"
  shows "wfStore db' \<and> grown db db' \<and>
    (\<exists>until. claims db' = map (\<lambda>c. if c \<in> set rows then ended w stamp (until c) c else c) (claims db))"
  using assms
proof (induction rows arbitrary: db)
  case Nil
  then show ?case by simp
next
  case (Cons c rows)
  obtain d where d: "supersede w from' stamp rule c db = Inr d" "supersedeAll w from' stamp rule d rows = Inr db'"
    using Cons.prems(1) by (auto simp: result_simps)
  have c: "c \<in> set (claims db)" "c \<notin> set rows" using Cons.prems(3,4) by auto
  obtain u where u: "claims d = map (\<lambda>x. if x = c then ended w stamp u x else x) (claims db)"
    using supersede_rows [OF Cons.prems(2) c(1) d(1)] by blast
  note keep = supersede_keeps [OF Cons.prems(2) c(1) d(1)]
  have "set rows \<subseteq> set (claims d)" using Cons.prems(3) c(2) unfolding u by auto
  then obtain until where rest: "wfStore db'" "grown d db'"
      "claims db' = map (\<lambda>x. if x \<in> set rows then ended w stamp (until x) x else x) (claims d)"
    using Cons.IH [OF d(2) conjunct1 [OF keep]] Cons.prems(4) by auto
  have other: "ended w stamp u c \<notin> set rows"
  proof
    assume "ended w stamp u c \<in> set rows"
    then have "claim_id (ended w stamp u c) \<in> claim_id ` set rows" by (rule imageI)
    then show False using Cons.prems(4) by simp
  qed
  have "claims db' = map (\<lambda>x. if x \<in> set (c # rows) then ended w stamp ((until(c := u)) x) x else x) (claims db)"
    unfolding rest(3) u using c(2) other by simp
  then show ?case using rest(1) grown_trans [OF conjunct2 [OF keep] rest(2)] by blast
qed

lemma supersede_journal:
  assumes "supersede w from' stamp rule c db = Inr db'"
    and "claim_id c \<notin> loser ` set (filter (\<lambda>s. sup_receipt_id s = w) (supersessions db))"
  shows "filter (\<lambda>s. sup_receipt_id s = w) (supersessions db') =
    filter (\<lambda>s. sup_receipt_id s = w) (supersessions db) @ [journalled w stamp rule c]"
proof -
  have "filter (\<lambda>s. sup_receipt_id s = w) (filter (\<lambda>s. winner s = w \<longrightarrow> loser s \<noteq> claim_id c) ss) =
      filter (\<lambda>s. sup_receipt_id s = w) ss"
    if "claim_id c \<notin> loser ` set (filter (\<lambda>s. sup_receipt_id s = w) ss)" for ss
    unfolding filter_filter by (rule filter_cong [OF refl]) (use that in \<open>auto simp: image_iff\<close>)
  then show ?thesis
    using assms by (auto simp: supersede_Inr writeSupersession_def journalled_def)
qed

lemma supersedeAll_journal:
  assumes "supersedeAll w from' stamp rule db rows = Inr db'" "distinct (map claim_id rows)"
    and "claim_id ` set rows \<inter> loser ` set (filter (\<lambda>s. sup_receipt_id s = w) (supersessions db)) = {}"
  shows "filter (\<lambda>s. sup_receipt_id s = w) (supersessions db') =
    filter (\<lambda>s. sup_receipt_id s = w) (supersessions db) @ map (journalled w stamp rule) rows"
  using assms
proof (induction rows arbitrary: db)
  case (Cons c rows)
  obtain d where d: "supersede w from' stamp rule c db = Inr d" "supersedeAll w from' stamp rule d rows = Inr db'"
    using Cons.prems(1) by (auto simp: result_simps)
  have "filter (\<lambda>s. sup_receipt_id s = w) (supersessions d) =
      filter (\<lambda>s. sup_receipt_id s = w) (supersessions db) @ [journalled w stamp rule c]"
    using Cons.prems by (intro supersede_journal [OF d(1)]) auto
  then show ?case
    using Cons.IH [OF d(2)] Cons.prems by (auto simp: journalled_def)
qed simp

text \<open>What the undo of a write does with the journal rows of its receipt.\<close>

definition reinstateLosers :: "ClaimsDb \<Rightarrow> string \<Rightarrow> StoreError + ClaimsDb" where
  "reinstateLosers db receiptId =
     foldM (\<lambda>d (w, l, prior, rule). reinstateClaim d l prior) db (supersessionsForReceipt db receiptId)"

definition reinstated :: "string option \<Rightarrow> Claim \<Rightarrow> Claim" where
  "reinstated prior c = c\<lparr>status := Live, superseded_by := None, retracted_at := None, valid_to := prior\<rparr>"

lemma persisted_reinstated [simp]: "persisted (reinstated prior c) c = reinstated prior c"
  by (simp add: persisted_def reinstated_def)

lemma reinstated_simps [simp]:
  "claim_id (reinstated prior c) = claim_id c"
  "corroboration (reinstated prior c) = corroboration c"
  by (simp_all add: reinstated_def)

lemma coherent_reinstated: "coherent c \<Longrightarrow> coherent (reinstated prior c)"
  by (simp add: coherent_def reinstated_def)

lemma reinstated_ended: "coherent c \<Longrightarrow> status c = Live \<Longrightarrow> reinstated (valid_to c) (ended w stamp until c) = c"
  by (simp add: coherent_def reinstated_def ended_def)

lemma reinstateClaim_open:
  assumes "\<not> erasure_pending db"
  shows "reinstateClaim db l prior = Inr
    (case getClaim db l of None \<Rightarrow> db | Some c \<Rightarrow> persistClaim (reinstated prior c) db)"
  using assms by (auto simp: reinstateClaim_def fenced_def guard_def reinstated_def split: option.split)

lemma reinstate_rows:
  assumes "wfStore db" "\<not> erasure_pending db"
  defines "out \<equiv> (\<lambda>L. foldM (\<lambda>d (w, l, prior, rule). reinstateClaim d l prior) db L)"
  assumes "distinct (map (fst \<circ> snd) L)"
  shows "\<exists>d. out L = Inr d \<and>
    claims d = map (\<lambda>c. case map_of (map (\<lambda>(w, l, p, r). (l, p)) L) (claim_id c) of
      None \<Rightarrow> c | Some p \<Rightarrow> reinstated p c) (claims db)"
  using assms(1,2,4) unfolding out_def
proof (induction L arbitrary: db)
  case (Cons x L)
  obtain w l p r where x: "x = (w, l, p, r)" by (cases x)
  obtain d where d: "reinstateClaim db l p = Inr d"
      "claims d = map (\<lambda>c. if claim_id c = l then reinstated p c else c) (claims db)"
      "wfStore d" "\<not> erasure_pending d"
  proof (cases "getClaim db l")
    case None
    then have "claim_id c \<noteq> l" if "c \<in> set (claims db)" for c
      using that by (auto simp: getClaim_def find_None_iff)
    then have "claims db = map (\<lambda>c. if claim_id c = l then reinstated p c else c) (claims db)"
      by (intro map_idI [symmetric]) simp
    then show ?thesis using that [of db] None Cons.prems by (simp add: reinstateClaim_open)
  next
    case (Some c)
    note m = getClaim_member [OF Some]
    have "claims (persistClaim (reinstated p c) db) = map (\<lambda>x. if x = c then reinstated p x else x) (claims db)"
      using persistClaim_row [OF Cons.prems(1) m(1), of "reinstated p c"] by (auto cong: if_cong)
    also have "\<dots> = map (\<lambda>x. if claim_id x = l then reinstated p x else x) (claims db)"
    proof (intro map_cong refl)
      fix y assume "y \<in> set (claims db)"
      then have "y = c \<longleftrightarrow> claim_id y = l" using only_claim [OF Cons.prems(1) _ m(1)] m(2) by metis
      then show "(if y = c then reinstated p y else y) = (if claim_id y = l then reinstated p y else y)"
        by simp
    qed
    finally show ?thesis
      using that [of "persistClaim (reinstated p c) db"] Some Cons.prems(2)
        persistClaim_keeps [OF Cons.prems(1) m(1), of "reinstated p c"]
        coherent_reinstated [OF coherent_row [OF Cons.prems(1) m(1)]]
      by (simp add: reinstateClaim_open)
  qed
  obtain e where e: "foldM (\<lambda>d (w, l, prior, rule). reinstateClaim d l prior) d L = Inr e"
      "claims e = map (\<lambda>c. case map_of (map (\<lambda>(w, l, p, r). (l, p)) L) (claim_id c) of
        None \<Rightarrow> c | Some p \<Rightarrow> reinstated p c) (claims d)"
    using Cons.IH [OF d(3,4)] Cons.prems(3) by auto
  have "map_of (map (\<lambda>(w, l, p, r). (l, p)) L) l = None"
    using Cons.prems(3) by (auto simp: map_of_eq_None_iff x rev_image_eqI)
  then have "claims e = map (\<lambda>c. case map_of (map (\<lambda>(w, l, p, r). (l, p)) (x # L)) (claim_id c) of
      None \<Rightarrow> c | Some p \<Rightarrow> reinstated p c) (claims db)"
    unfolding e(2) d(2) by (simp add: x)
  then show ?case using d(1) e(1) by (simp add: x)
qed simp

text \<open>The group a correction supersedes.\<close>

lemma distinct_ids: "wfStore db \<Longrightarrow> distinct (map claim_id (filter P (claims db)))"
  by (simp add: wfStore_def distinct_map_filter)

definition groupOf :: "ClaimsDb \<Rightarrow> Claim \<Rightarrow> (Claim \<Rightarrow> bool) \<Rightarrow> Claim list" where
  "groupOf db win visible =
     (case claim_key win of
        None \<Rightarrow> []
      | Some key \<Rightarrow> filter (\<lambda>c. claim_id c \<noteq> claim_id win) (liveByKey db key visible))"

lemma groupOf_facts:
  assumes "wfStore db"
  shows "set (groupOf db win visible) \<subseteq> {c \<in> set (claims db). status c = Live}"
    and "distinct (map claim_id (groupOf db win visible))"
  using distinct_ids [OF assms]
  by (auto simp: groupOf_def liveByKey_def filter_filter split: option.split)

lemma supersedeLiveGroup_Inr:
  assumes "supersedeLiveGroup db win stamp visible = Inr (db', ids)"
  shows "\<not> erasure_pending db" "ids = map claim_id (groupOf db win visible)"
    and "supersedeAll (claim_id win) (valid_from win) stamp R5 db (groupOf db win visible) = Inr db'"
  using assms by (auto simp: supersedeLiveGroup_def groupOf_def result_simps Let_def split: option.splits)

lemma supersede_fence: "supersede w f stamp rule c db = Inr db' \<Longrightarrow> erasure_pending db' = erasure_pending db"
  by (auto simp: supersede_Inr writeSupersession_def)

lemma supersedeAll_fence: "supersedeAll w f stamp rule db rows = Inr db' \<Longrightarrow> erasure_pending db' = erasure_pending db"
  by (induction rows arbitrary: db) (auto simp: result_simps dest: supersede_fence)

lemma group_undone:
  assumes "wfStore db" "supersedeLiveGroup db win stamp visible = Inr (db', ids)"
    and "list_all (\<lambda>s. sup_receipt_id s \<noteq> claim_id win) (supersessions db)"
  shows "\<exists>db''. reinstateLosers db' (claim_id win) = Inr db'' \<and> claims db'' = claims db"
proof -
  let ?w = "claim_id win" and ?rows = "groupOf db win visible"
  note op = supersedeLiveGroup_Inr [OF assms(2)]
  note rows = groupOf_facts [OF assms(1), of win visible]
  have none: "filter (\<lambda>s. sup_receipt_id s = ?w) (supersessions db) = []"
    using assms(3) by (auto simp: filter_empty_conv list_all_iff)
  have member: "set ?rows \<subseteq> set (claims db)" using rows(1) by auto
  from supersedeAll_keeps [OF op(3) assms(1) member rows(2)]
  obtain until where kept: "wfStore db'"
      "claims db' = map (\<lambda>c. if c \<in> set ?rows then ended ?w stamp (until c) c else c) (claims db)"
    by blast
  let ?L = "supersessionsForReceipt db' ?w"
  have journal: "filter (\<lambda>s. sup_receipt_id s = ?w) (supersessions db') = map (journalled ?w stamp R5) ?rows"
    using supersedeAll_journal [OF op(3) rows(2)] none by simp
  then have perm: "mset ?L = mset (map (\<lambda>c. (?w, claim_id c, valid_to c, R5)) ?rows)"
    unfolding supersessionsForReceipt_def journal
    by (simp add: image_mset.compositionality comp_def journalled_def)
  have losers: "mset (map (fst \<circ> snd) ?L) = mset (map claim_id ?rows)"
    using arg_cong [OF perm, of "image_mset (fst \<circ> snd)"]
    by (simp add: image_mset.compositionality comp_def)
  then have distinct: "distinct (map (fst \<circ> snd) ?L)"
    using rows(2) by (metis mset_eq_imp_distinct_iff)
  have entries: "set (map (\<lambda>(w, l, p, r). (l, p)) ?L) = (\<lambda>c. (claim_id c, valid_to c)) ` set ?rows"
    using mset_eq_setD [OF perm] by (auto simp: image_image)
  have find: "map_of (map (\<lambda>(w, l, p, r). (l, p)) ?L) (claim_id c) =
      (if c \<in> set ?rows then Some (valid_to c) else None)" if "c \<in> set (claims db)" for c
  proof (cases "c \<in> set ?rows")
    case True
    have "distinct (map fst (map (\<lambda>(w, l, p, r). (l, p)) ?L))"
      using distinct by (simp add: comp_def split_def)
    moreover have "(claim_id c, valid_to c) \<in> set (map (\<lambda>(w, l, p, r). (l, p)) ?L)"
      unfolding entries using True by (rule imageI)
    ultimately show ?thesis using True by (simp only: map_of_is_SomeI if_True)
  next
    case False
    then have "claim_id c \<notin> claim_id ` set ?rows"
      using only_claim [OF assms(1) that] member by (metis imageE subset_iff)
    then have "claim_id c \<notin> fst ` set (map (\<lambda>(w, l, p, r). (l, p)) ?L)"
      unfolding entries by (simp add: image_image)
    then have "map_of (map (\<lambda>(w, l, p, r). (l, p)) ?L) (claim_id c) = None"
      by (simp only: map_of_eq_None_iff not_False_eq_True)
    then show ?thesis using False by (simp only: if_False)
  qed
  obtain d where d: "reinstateLosers db' ?w = Inr d"
      "claims d = map (\<lambda>c. case map_of (map (\<lambda>(w, l, p, r). (l, p)) ?L) (claim_id c) of
        None \<Rightarrow> c | Some p \<Rightarrow> reinstated p c) (claims db')"
    using reinstate_rows [OF kept(1) _ distinct] op(1) supersedeAll_fence [OF op(3)]
    by (auto simp: reinstateLosers_def)
  have "(case map_of (map (\<lambda>(w, l, p, r). (l, p)) ?L) (claim_id c) of
        None \<Rightarrow> c' | Some p \<Rightarrow> reinstated p c') = c"
    if "c \<in> set (claims db)" "c' = (if c \<in> set ?rows then ended ?w stamp (until c) c else c)" for c c'
    using find [OF that(1)] that rows(1) coherent_row [OF assms(1) that(1)]
    by (auto simp: reinstated_ended)
  then have "claims d = claims db"
    unfolding d(2) kept(2) map_map by (intro map_idI) (auto simp: comp_def)
  then show ?thesis using d(1) by blast
qed

end
