(* ===== verification/Claim_Insert.thy ===== *)
theory Claim_Insert
  imports Claim_Store Claim_Authority
begin

text \<open>
  \<open>packages/core/src/claims/store.ts\<close>: the filing of one claim - what it must bring, what it is
  compared with, and what it does to the claims it meets.

  The model covers an ordinary claim: no typed world meaning, no correction of a whole
  source page, no deletion control and no permit to replay a historical write, whose checks
  read other tables.  What the source
  grants say of a set of events, the floor they put on a label, and the reader's view are
  queries on tables the filing does not write; their answers during the transaction are
  fields of \<open>ClaimsIo\<close>, as are the hash function of the runtime, the clock, the fresh
  identifier and the store of the retrieval port.  The nominees are the claims a
  vector search proposed.
\<close>

section \<open>What a caller hands in\<close>

record InsertClaimInput =
  in_kind :: ClaimKind
  in_target :: "string option"
  in_subject :: "string option"
  in_predicate :: "string option"
  in_object :: "string option"
  in_polarity :: "ClaimPolarity option"
  in_body :: string
  in_frontmatter :: "(string \<times> js) list"
  in_provenance :: "string list"
  in_subjects :: "string list option"
  in_producer :: Producer
  in_model_ref :: "string option"
  in_confidence :: rat
  in_sensitivity :: "Sensitivity option"
  in_taint :: "ClaimTaint option"
  in_valid_from :: "string option"
  in_valid_to :: "string option"
  in_claim_id :: "string option"
  in_intent :: "Intent option"
  in_relay_ceiling :: "AuthorityTier option"

record ClaimsIo =
  io_store :: "string option"
  io_visible :: "Claim \<Rightarrow> bool"
  io_allowed :: "string list \<Rightarrow> bool"
  io_floor :: "string list \<Rightarrow> Sensitivity \<Rightarrow> Sensitivity"
  io_hash :: "string \<Rightarrow> string"
  io_now :: string
  io_ulid :: string

datatype InsertResult =
    StoredClaim Claim "(string \<times> ConflictRule) list"
  | DuplicateClaim Claim
  | SkippedClaim Claim
  | ContestedClaim Claim Claim

definition assertInput :: "InsertClaimInput \<Rightarrow> StoreError + unit" where
  "assertInput i =
     guard (in_kind i \<noteq> PurgeReviewKind) SchemaInvalid
     (guard (in_provenance i \<noteq> []) SchemaInvalid
     (guard (list_all (\<lambda>p. p \<noteq> []) (in_provenance i)) SchemaInvalid
     (guard (isProducer (Str (producerText (in_producer i)))) SchemaInvalid
     (guard (0 \<le> in_confidence i \<and> in_confidence i \<le> 1) SchemaInvalid
     (guard (case in_predicate i of None \<Rightarrow> True | Some p \<Rightarrow> isRegisteredPredicate p) UnknownPredicate
     (guard (case in_valid_from i of None \<Rightarrow> True | Some t \<Rightarrow> isRfc3339 (Str t)) SchemaInvalid
     (guard (case in_valid_to i of None \<Rightarrow> True | Some t \<Rightarrow> isRfc3339 (Str t)) SchemaInvalid
       (Inr ()))))))))"

section \<open>The incoming claim\<close>

definition claimKey :: "(string \<Rightarrow> string) \<Rightarrow> string \<Rightarrow> string \<Rightarrow> string" where
  "claimKey hash subj pred = hash (subj @ [CHR 0x00] @ pred)"

definition subjectOf :: "InsertClaimInput \<Rightarrow> string option" where
  "subjectOf i =
     (case in_subject i of
        Some s \<Rightarrow> Some s
      | None \<Rightarrow> (case in_subjects i of Some (s # _) \<Rightarrow> Some s | _ \<Rightarrow> None))"

definition keyOf :: "ClaimsIo \<Rightarrow> InsertClaimInput \<Rightarrow> string option" where
  "keyOf io i =
     (case (subjectOf i, in_predicate i) of
        (Some s, Some p) \<Rightarrow> Some (claimKey (io_hash io) s p)
      | _ \<Rightarrow> None)"

definition citedRows :: "ClaimsDb \<Rightarrow> string list \<Rightarrow> EventRow list" where
  "citedRows db ids = filter (\<lambda>e. ev_id e \<in> set ids) (events db)"

definition loadEventFacts :: "ClaimsDb \<Rightarrow> string list \<Rightarrow> EventFacts list" where
  "loadEventFacts db ids =
     map (\<lambda>e. \<lparr>ef_event_id = ev_id e, ef_connector_id = ev_connector e,
               ef_taint = (if ev_native e then OwnerTaint else Untrusted), ef_text = ev_text e\<rparr>)
       (citedRows db ids)"

definition loadEventSensitivityHints :: "ClaimsDb \<Rightarrow> string list \<Rightarrow> js list" where
  "loadEventSensitivityHints db ids = map ev_hint (citedRows db ids)"

text \<open>\<open>validityOverlaps\<close> on two periods.\<close>

definition periodsOverlap ::
  "string \<times> string option \<Rightarrow> string \<times> string option \<Rightarrow> StoreError + bool" where
  "periodsOverlap left right =
     timely (andThen (startsBeforeEnd (fst left) (snd right)) (\<lambda>l.
             andThen (startsBeforeEnd (fst right) (snd left)) (\<lambda>r. Inr (l \<and> r))))"

definition periodOf :: "Claim \<Rightarrow> string \<times> string option" where
  "periodOf c = (valid_from c, valid_to c)"

definition incomingPeriod :: "ClaimsIo \<Rightarrow> InsertClaimInput \<Rightarrow> string \<times> string option" where
  "incomingPeriod io i =
     ((case in_valid_from i of None \<Rightarrow> io_now io | Some t \<Rightarrow> t), in_valid_to i)"

definition polarityOf :: "InsertClaimInput \<Rightarrow> ClaimPolarity" where
  "polarityOf i = (case in_polarity i of None \<Rightarrow> Positive | Some p \<Rightarrow> p)"

text \<open>Evidence the reader may use and that no machine wrote.\<close>

definition usable :: "ClaimsIo \<Rightarrow> ClaimsDb \<Rightarrow> Claim \<Rightarrow> StoreError + bool" where
  "usable io db c = (if io_allowed io (provenance c) then externalEvidence db (provenance c) else Inr False)"

definition corroborates :: "ClaimsIo \<Rightarrow> ClaimsDb \<Rightarrow> InsertClaimInput \<Rightarrow> Claim \<Rightarrow> StoreError + bool" where
  "corroborates io db i live =
     andThen (usable io db live) (\<lambda>ok.
       if \<not> ok \<or> polarity live \<noteq> polarityOf i \<or> \<not> objectsMatch (object live) (in_object i) then Inr False
       else andThen (periodsOverlap (incomingPeriod io i) (periodOf live)) (\<lambda>overlaps.
         Inr (overlaps \<and>
           list_ex (\<lambda>f. ef_connector_id f \<notin>
               ef_connector_id ` set (loadEventFacts db (in_provenance i)))
             (loadEventFacts db (provenance live)))))"

definition hasCorroboration :: "ClaimsIo \<Rightarrow> ClaimsDb \<Rightarrow> InsertClaimInput \<Rightarrow> StoreError + bool" where
  "hasCorroboration io db i =
     (case keyOf io i of
        None \<Rightarrow> Inr False
      | Some key \<Rightarrow> someM (corroborates io db i) (liveByKey db key (io_visible io)))"

text \<open>Only an event of the owner's own correction that says exactly this body attests it.\<close>

definition ownerAttested :: "ClaimsDb \<Rightarrow> InsertClaimInput \<Rightarrow> bool" where
  "ownerAttested db i \<longleftrightarrow>
     list_ex (\<lambda>e. ef_taint e = OwnerTaint \<and> ef_text e = in_body i) (loadEventFacts db (in_provenance i))"

definition taintOf :: "InsertClaimInput \<Rightarrow> ClaimTaint" where
  "taintOf i = (case in_taint i of None \<Rightarrow> CleanTaint | Some t \<Rightarrow> t)"

definition assignedAuthority ::
  "ClaimsDb \<Rightarrow> InsertClaimInput \<Rightarrow> bool \<Rightarrow> AuthorityError + AuthorityAssignment" where
  "assignedAuthority db i corroborated =
     (let attested = ownerAttested db i;
          who = (if in_producer i = Owner \<and> \<not> attested then Deterministic else in_producer i);
          intent = (if in_intent i = Some CorrectIntent \<and> \<not> attested then None else in_intent i);
          facts = map (\<lambda>e. e\<lparr>ef_taint := (if attested then ef_taint e else Untrusted)\<rparr>)
                    (loadEventFacts db (in_provenance i))
      in authorityFor
           \<lparr>ad_producer = canonicalizeProducer who, ad_taint = taintOf i, ad_body = in_body i,
            ad_provenance = in_provenance i, ad_confidence = in_confidence i,
            ad_intent = Some (case intent of None \<Rightarrow> ProposeIntent | Some t \<Rightarrow> t)\<rparr>
           facts
           \<lparr>ae_producer = who, ae_hasCorroboration = corroborated, ae_relayCeiling = in_relay_ceiling i\<rparr>)"

definition labelOf :: "ClaimsIo \<Rightarrow> ClaimsDb \<Rightarrow> InsertClaimInput \<Rightarrow> Sensitivity" where
  "labelOf io db i =
     (let given = (case in_sensitivity i of None \<Rightarrow> Undefined | Some s \<Rightarrow> Str (labelText s));
          corrects = (in_intent i = Some CorrectIntent)
      in io_floor io (in_provenance i)
           (sensitivity (labelClaimSensitivity (labels db)
             \<lparr>lc_events = map (\<lambda>e. (ef_event_id e, ef_connector_id e))
                             (loadEventFacts db (in_provenance i)),
              lc_event_hints = loadEventSensitivityHints db (in_provenance i),
              lc_model_label = (if corrects then Undefined else given),
              lc_owner_label = (if corrects then given else Undefined),
              lc_owner_override = (corrects \<and> in_sensitivity i \<noteq> None)\<rparr>)))"

definition newClaim ::
  "ClaimsIo \<Rightarrow> ClaimsDb \<Rightarrow> InsertClaimInput \<Rightarrow> AuthorityAssignment \<Rightarrow> Claim" where
  "newClaim io db i assigned =
     \<lparr>claim_id = (case in_claim_id i of None \<Rightarrow> io_ulid io | Some c \<Rightarrow> c),
      kind = in_kind i, target = in_target i, subject = subjectOf i, predicate = in_predicate i,
      object = in_object i, polarity = polarityOf i, claim_key = keyOf io i, body = in_body i,
      frontmatter = (case aa_relayed_by assigned of
          None \<Rightarrow> in_frontmatter i
        | Some r \<Rightarrow> setKey ''x-relayed-by'' (Str r) (in_frontmatter i)),
      provenance = in_provenance i,
      subjects = (case in_subjects i of
          Some ss \<Rightarrow> ss
        | None \<Rightarrow> (case subjectOf i of None \<Rightarrow> [] | Some s \<Rightarrow> [s])),
      producer = canonicalizeProducer (in_producer i), model_ref = in_model_ref i,
      authority = aa_authority assigned, confidence = aa_confidence assigned,
      claim_sensitivity = labelOf io db i, taint = taintOf i,
      valid_from = fst (incomingPeriod io i), valid_to = snd (incomingPeriod io i),
      asserted_at = io_now io, retracted_at = None, status = Live, superseded_by = None,
      receipt_id = None, body_hash = io_hash io (in_body i), created_at = io_now io,
      corroboration = 1, last_confirmed_at = Some (io_now io)\<rparr>"

fun authoritative :: "AuthorityError + 'a \<Rightarrow> StoreError + 'a" where
  "authoritative (Inl e) = Inl NoProvenance"
| "authoritative (Inr x) = Inr x"

definition incomingClaim :: "ClaimsIo \<Rightarrow> ClaimsDb \<Rightarrow> InsertClaimInput \<Rightarrow> StoreError + Claim" where
  "incomingClaim io db i =
     andThen (hasCorroboration io db i) (\<lambda>corroborated.
     andThen (authoritative (assignedAuthority db i corroborated)) (\<lambda>assigned.
       Inr (newClaim io db i assigned)))"

section \<open>Replays and further evidence\<close>

definition OUTCOME_PREDICATES :: "string list" where
  "OUTCOME_PREDICATES =
     [''outcome.self_report'', ''outcome.provider_ack'', ''outcome.observation'', ''outcome.review'']"

definition outcomeEvidence :: "Claim \<Rightarrow> bool" where
  "outcomeEvidence c \<longleftrightarrow> (case predicate c of None \<Rightarrow> False | Some p \<Rightarrow> p \<in> set OUTCOME_PREDICATES)"

definition sameOutcome :: "Claim \<Rightarrow> Claim \<Rightarrow> bool" where
  "sameOutcome c identity \<longleftrightarrow>
     subject c = subject identity \<and> predicate c = predicate identity \<and> object c = object identity \<and>
     producer c = producer identity \<and> polarity c = polarity identity \<and>
     sort (provenance c) = sort (provenance identity)"

definition findExact :: "ClaimsIo \<Rightarrow> ClaimsDb \<Rightarrow> Claim \<Rightarrow> Claim option" where
  "findExact io db c =
     List.find (\<lambda>r. kind r = kind c \<and>
         (case target r of None \<Rightarrow> [] | Some t \<Rightarrow> t) = (case target c of None \<Rightarrow> [] | Some t \<Rightarrow> t) \<and>
         body_hash r = body_hash c \<and> (outcomeEvidence c \<longrightarrow> sameOutcome r c) \<and> io_visible io r)
       (listByAge (claims db))"

definition exactReplay :: "ClaimsIo \<Rightarrow> ClaimsDb \<Rightarrow> Claim \<Rightarrow> StoreError + Claim option" where
  "exactReplay io db c =
     (case findExact io db c of
        None \<Rightarrow> Inr None
      | Some old \<Rightarrow>
          andThen (externalEvidence db (provenance old)) (\<lambda>external.
            Inr (if external \<and> io_allowed io (provenance old) then Some old else None)))"

text \<open>A stricter label is not new evidence.\<close>

definition relabel :: "ClaimsIo \<Rightarrow> ClaimsDb \<Rightarrow> Claim \<Rightarrow> Claim \<Rightarrow> ClaimsDb \<times> InsertResult" where
  "relabel io db old c =
     (let label = stricter (claim_sensitivity old) (claim_sensitivity c)
      in if label \<noteq> claim_sensitivity old
         then (let relabeled = old\<lparr>claim_sensitivity := label\<rparr>
               in (enqueueClaimRetrieval (io_store io) relabeled (io_now io)
                     (updateClaim (claim_id old) (\<lambda>r. r\<lparr>claim_sensitivity := label\<rparr>) db),
                   DuplicateClaim relabeled))
         else (db, DuplicateClaim old))"

definition structuralMatch :: "Claim \<Rightarrow> Claim \<Rightarrow> StoreError + bool" where
  "structuralMatch incoming live =
     (if claim_key incoming = None \<or> claim_key incoming \<noteq> claim_key live then Inr False
      else if polarity incoming \<noteq> polarity live then Inr False
      else if \<not> objectsMatch (object incoming) (object live) then Inr False
      else periodsOverlap (periodOf incoming) (periodOf live))"

definition structuralCandidates :: "ClaimsIo \<Rightarrow> ClaimsDb \<Rightarrow> Claim \<Rightarrow> string list \<Rightarrow> Claim list" where
  "structuralCandidates io db c nominees =
     (case claim_key c of None \<Rightarrow> [] | Some key \<Rightarrow> liveByKey db key (io_visible io)) @
     filter (\<lambda>r. status r = Live \<and> io_visible io r) (List.map_filter (getClaim db) nominees)"

definition structuralTwin :: "ClaimsIo \<Rightarrow> ClaimsDb \<Rightarrow> Claim \<Rightarrow> string list \<Rightarrow> StoreError + Claim option" where
  "structuralTwin io db c nominees =
     (if outcomeEvidence c then Inr None
      else findM (\<lambda>live. andThen (usable io db live) (\<lambda>ok.
               if ok then structuralMatch c live else Inr False))
             (structuralCandidates io db c nominees))"

text \<open>Every new citation is merged; only a source record the claim did not rest on is a
  further witness.\<close>

fun appendNew :: "string list \<Rightarrow> string list \<Rightarrow> string list" where
  "appendNew known [] = known"
| "appendNew known (i # ids) = appendNew (if i \<in> set known then known else known @ [i]) ids"

text \<open>Returns the live claim as it is now, and whether it changed.\<close>

definition corroborate :: "ClaimsIo \<Rightarrow> ClaimsDb \<Rightarrow> Claim \<Rightarrow> Claim \<Rightarrow> ClaimsDb \<times> Claim \<times> bool" where
  "corroborate io db live incoming =
     (let label = stricter (claim_sensitivity live) (claim_sensitivity incoming);
          existing = appendNew [] (provenance live);
          evidence = appendNew existing (provenance incoming)
      in if length evidence = length existing
         then (if label = claim_sensitivity live then (db, live, False)
               else (updateClaim (claim_id live) (\<lambda>r. r\<lparr>claim_sensitivity := label\<rparr>) db,
                     live\<lparr>claim_sensitivity := label\<rparr>, True))
         else
           (let known = sourceRoots db (provenance live);
                independent = list_ex (\<lambda>root. root \<notin> set known) (sourceRoots db (provenance incoming));
                next = live\<lparr>confidence := max (confidence live) (confidence incoming),
                            corroboration := corroboration live + (if independent then 1 else 0),
                            authority := higherAuthority (authority incoming) (authority live),
                            last_confirmed_at := Some (io_now io),
                            claim_sensitivity := label, provenance := evidence\<rparr>;
                db' = updateClaim (claim_id next)
                        (\<lambda>r. r\<lparr>provenance := evidence, claim_sensitivity := label\<rparr>) (persistClaim next db)
            in (db', case getClaim db' (claim_id live) of None \<Rightarrow> next | Some r \<Rightarrow> r, True)))"

definition confirm :: "ClaimsIo \<Rightarrow> ClaimsDb \<Rightarrow> Claim \<Rightarrow> Claim \<Rightarrow> ClaimsDb \<times> InsertResult" where
  "confirm io db live incoming =
     (let (db', confirmed, changed) = corroborate io db live incoming
      in (if changed then enqueueClaimRetrieval (io_store io) confirmed (io_now io) db' else db',
          DuplicateClaim confirmed))"

section \<open>Conflicts\<close>

definition toConflict :: "bool \<Rightarrow> Claim \<Rightarrow> ConflictClaim" where
  "toConflict purged c =
     \<lparr>cc_claim_id = claim_id c, cc_claim_key = claim_key c, cc_polarity = polarity c,
      cc_object = object c, cc_predicate = predicate c, cc_authority = authority c,
      cc_confidence = confidence c, cc_valid_from = valid_from c, cc_valid_to = valid_to c,
      cc_status = status c, cc_purged = purged\<rparr>"

definition conflictsWith :: "ClaimsIo \<Rightarrow> ClaimsDb \<Rightarrow> Claim \<Rightarrow> Claim \<Rightarrow> StoreError + bool" where
  "conflictsWith io db c live =
     andThen (usable io db live) (\<lambda>ok.
       if ok then timely (claimsConflict (toConflict False c) (toConflict (provenanceGone db live) live))
       else Inr False)"

definition conflictsOf :: "ClaimsIo \<Rightarrow> ClaimsDb \<Rightarrow> Claim \<Rightarrow> StoreError + Claim list" where
  "conflictsOf io db c =
     (case claim_key c of
        None \<Rightarrow> Inr []
      | Some key \<Rightarrow> filterM (conflictsWith io db c) (liveByKey db key (io_visible io)))"

record Met =
  met_live :: Claim
  met_purged :: bool
  met_resolution :: Resolution

definition resolve :: "ClaimsDb \<Rightarrow> Claim \<Rightarrow> Claim \<Rightarrow> StoreError + Met" where
  "resolve db c live =
     (let purged = provenanceGone db live
      in andThen (timely (resolveConflict (toConflict False c)
               (toConflict purged (if purged then live\<lparr>status := Purged\<rparr> else live)))) (\<lambda>r.
           Inr \<lparr>met_live = live, met_purged = purged, met_resolution = r\<rparr>))"

fun losesTo :: "Resolution \<Rightarrow> bool" where
  "losesTo (SkipBelowAuthority r) = True"
| "losesTo (Supersede LiveSide r) = True"
| "losesTo _ = False"

type_synonym settle_state = "ClaimsDb \<times> (string \<times> ConflictRule) list \<times> Claim option"

definition settleOne :: "ClaimsIo \<Rightarrow> Claim \<Rightarrow> settle_state \<Rightarrow> Met \<Rightarrow> StoreError + settle_state" where
  "settleOne io c st met =
     (let (db, superseded, contested) = st; live = met_live met;
          db1 = (if met_purged met \<and> status live \<noteq> Purged
                 then persistClaim (live\<lparr>status := Purged, retracted_at := Some (io_now io)\<rparr>) db else db)
      in case met_resolution met of
           Contested \<Rightarrow> Inr (db1, superseded, Some live)
         | Supersede Incoming rule \<Rightarrow>
             andThen (supersede (claim_id c) (valid_from c) (io_now io) rule live db1) (\<lambda>db2.
               Inr (enqueueClaimRetrieval (io_store io) live (io_now io) db2,
                    superseded @ [(claim_id live, rule)], contested))
         | _ \<Rightarrow> Inr (db1, superseded, contested))"

definition fileClaim :: "ClaimsIo \<Rightarrow> ClaimsDb \<Rightarrow> Claim \<Rightarrow> StoreError + ClaimsDb \<times> InsertResult" where
  "fileClaim io db c =
     andThen (conflictsOf io db c) (\<lambda>conflicts.
     andThen (mapM (resolve db c) conflicts) (\<lambda>met.
       if list_ex (\<lambda>m. losesTo (met_resolution m)) met
       then andThen (insertClaimRow (c\<lparr>status := Skipped\<rparr>) db) (\<lambda>db'.
              Inr (db', SkippedClaim (c\<lparr>status := Skipped\<rparr>)))
       else
         andThen (foldM (settleOne io c) (db, [], None) met) (\<lambda>(db1, superseded, contested).
         andThen (insertClaimRow c db1) (\<lambda>db2.
           Inr (enqueueClaimRetrieval (io_store io) c (io_now io) db2,
                case contested of
                  Some live \<Rightarrow> ContestedClaim c live
                | None \<Rightarrow> StoredClaim c superseded)))))"

section \<open>Filing\<close>

definition applyClaimInsert ::
  "ClaimsIo \<Rightarrow> ClaimsDb \<Rightarrow> InsertClaimInput \<Rightarrow> string list \<Rightarrow> StoreError + ClaimsDb \<times> InsertResult" where
  "applyClaimInsert io db i nominees =
     fenced db
       (guard (io_allowed io (in_provenance i)) SourceAccessDenied
         (andThen (resolveProvenance db (in_provenance i)) (\<lambda>_.
          andThen (requireExternalEvents db (in_provenance i)) (\<lambda>_.
          andThen (incomingClaim io db i) (\<lambda>c.
          andThen (exactReplay io db c) (\<lambda>exact.
            case exact of
              Some old \<Rightarrow> Inr (relabel io db old c)
            | None \<Rightarrow>
                andThen (structuralTwin io db c nominees) (\<lambda>twin.
                  case twin of
                    Some live \<Rightarrow> Inr (confirm io db live c)
                  | None \<Rightarrow> fileClaim io db c)))))))"

text \<open>\<open>insertClaim\<close> without the search for nominees and the publication that follows.\<close>

definition insertClaim ::
  "ClaimsIo \<Rightarrow> ClaimsDb \<Rightarrow> InsertClaimInput \<Rightarrow> string list \<Rightarrow> StoreError + ClaimsDb \<times> InsertResult" where
  "insertClaim io db i nominees =
     andThen (assertInput i) (\<lambda>_. applyClaimInsert io db i nominees)"

section \<open>Replays and further evidence change no status\<close>

definition settledAlike :: "ClaimsDb \<Rightarrow> ClaimsDb \<Rightarrow> bool" where
  "settledAlike db db' \<longleftrightarrow>
     wfStore db' \<and> grown db db' \<and>
     map (\<lambda>c. (claim_id c, status c, superseded_by c, valid_to c)) (claims db') =
       map (\<lambda>c. (claim_id c, status c, superseded_by c, valid_to c)) (claims db)"

lemma updateClaim_row:
  assumes "wfStore db" "r \<in> set (claims db)"
  shows "claims (updateClaim (claim_id r) f db) = map (\<lambda>x. if x = r then f r else x) (claims db)"
  using only_claim [OF assms(1) _ assms(2)] by (auto simp: updateClaim_def)

lemma persisted_member:
  assumes "wfStore db" "r \<in> set (claims db)" "claim_id c = claim_id r"
  shows "persisted c r \<in> set (claims (persistClaim c db))"
  unfolding persistClaim_row [OF assms] using assms(2) by (auto intro: rev_image_eqI)

lemma updateClaim_frame [simp]:
  "events (updateClaim i f db) = events db"
  "supersessions (updateClaim i f db) = supersessions db"
  by (simp_all add: updateClaim_def)

lemma updateClaim_alike:
  assumes "wfStore db" "r \<in> set (claims db)" "later r (f r)" "coherent (f r)"
    and "(status (f r), superseded_by (f r), valid_to (f r)) = (status r, superseded_by r, valid_to r)"
  shows "settledAlike db (updateClaim (claim_id r) f db)"
proof -
  note rows = updateClaim_row [OF assms(1,2), of f]
  have "wfStore (updateClaim (claim_id r) f db)"
    using assms later_id [OF assms(3)]
    by (intro wfStore_map [OF assms(1) rows]) (auto simp: wfStore_def list_all_iff)
  moreover have "grown db (updateClaim (claim_id r) f db)"
    using assms(3) by (intro grown_map [OF rows]) auto
  ultimately show ?thesis
    using assms(5) later_id [OF assms(3)] by (simp add: settledAlike_def rows)
qed

lemma settledAlike_trans: "settledAlike a b \<Longrightarrow> settledAlike b c \<Longrightarrow> settledAlike a c"
  by (auto simp: settledAlike_def intro: grown_trans)

lemma settledAlike_refl: "wfStore db \<Longrightarrow> settledAlike db db"
  by (simp add: settledAlike_def)

lemma settledAlike_enqueue:
  "settledAlike db db' \<Longrightarrow> settledAlike db (enqueueClaimRetrieval store c stamp db')"
  using same_tables_keep [of db' "enqueueClaimRetrieval store c stamp db'"]
  by (auto simp: settledAlike_def intro: grown_trans)

lemma coherent_cong:
  assumes "coherent c" "status c' = status c" "retracted_at c' = retracted_at c"
    and "superseded_by c' = superseded_by c" "provenance c' \<noteq> []"
  shows "coherent c'"
  using assms by (auto simp: coherent_def split: ClaimStatus.splits)

lemma coherent_cited: "coherent c \<Longrightarrow> provenance c \<noteq> []"
  by (simp add: coherent_def)

lemma appendNew_nonempty: "known \<noteq> [] \<Longrightarrow> appendNew known ids \<noteq> []"
  by (induction ids arbitrary: known) auto

lemma appendNew_cited: "ids \<noteq> [] \<Longrightarrow> appendNew [] ids \<noteq> []"
  by (cases ids) (simp_all add: appendNew_nonempty)

lemma relabeled_row:
  assumes "wfStore db" "r \<in> set (claims db)"
  shows "settledAlike db (updateClaim (claim_id r)
    (\<lambda>x. x\<lparr>claim_sensitivity := stricter (claim_sensitivity r) label\<rparr>) db)"
proof (rule updateClaim_alike [OF assms])
  note co = coherent_row [OF assms]
  show "coherent (r\<lparr>claim_sensitivity := stricter (claim_sensitivity r) label\<rparr>)"
    by (rule coherent_cong [OF co]) (simp_all add: coherent_cited [OF co])
qed (simp_all add: later_def content_def)

lemma relabel_alike:
  assumes "wfStore db" "old \<in> set (claims db)" "relabel io db old c = (db', res)"
  shows "settledAlike db db'"
  using assms(3) settledAlike_enqueue [OF relabeled_row [OF assms(1,2)]] settledAlike_refl [OF assms(1)]
  by (auto simp: relabel_def Let_def simp del: stricter_max split: if_splits)

lemma set_appendNew [simp]: "set (appendNew known ids) = set known \<union> set ids"
  by (induction ids arbitrary: known) auto

lemma corroborate_alike:
  assumes "wfStore db" "live \<in> set (claims db)"
  shows "settledAlike db (fst (corroborate io db live c))"
proof -
  let ?label = "stricter (claim_sensitivity live) (claim_sensitivity c)"
  let ?existing = "appendNew [] (provenance live)"
  let ?evidence = "appendNew ?existing (provenance c)"
  let ?next = "\<lambda>k. live\<lparr>confidence := max (confidence live) (confidence c),
      corroboration := corroboration live + k,
      authority := higherAuthority (authority c) (authority live),
      last_confirmed_at := Some (io_now io), claim_sensitivity := ?label, provenance := ?evidence\<rparr>"
  have "settledAlike db (updateClaim (claim_id live)
      (\<lambda>r. r\<lparr>provenance := ?evidence, claim_sensitivity := ?label\<rparr>) (persistClaim (?next k) db))"
    if "0 \<le> k" for k
  proof -
    have co: "coherent live" by (rule coherent_row [OF assms])
    have cited: "?evidence \<noteq> []"
      by (intro appendNew_nonempty appendNew_cited coherent_cited [OF co])
    have same: "coherent (persisted (?next k) live)"
      by (rule coherent_cong [OF co]) (simp_all add: persisted_def coherent_cited [OF co])
    have first: "settledAlike db (persistClaim (?next k) db)"
    proof -
      have "settledAlike db (updateClaim (claim_id live) (persisted (?next k)) db)"
      proof (rule updateClaim_alike [OF assms])
        show "later live (persisted (?next k) live)" using that by simp
      qed (rule same, simp add: persisted_def)
      then show ?thesis by (simp add: persistClaim_def)
    qed
    then have wf: "wfStore (persistClaim (?next k) db)" by (simp add: settledAlike_def)
    have member: "persisted (?next k) live \<in> set (claims (persistClaim (?next k) db))"
      by (rule persisted_member [OF assms]) simp
    have "settledAlike (persistClaim (?next k) db) (updateClaim (claim_id (persisted (?next k) live))
        (\<lambda>r. r\<lparr>provenance := ?evidence, claim_sensitivity := ?label\<rparr>) (persistClaim (?next k) db))"
    proof (rule updateClaim_alike [OF wf member])
      show "coherent ((persisted (?next k) live)\<lparr>provenance := ?evidence, claim_sensitivity := ?label\<rparr>)"
        by (rule coherent_cong [OF same]) (simp_all add: cited)
    qed (simp_all add: persisted_def later_def content_def)
    then show ?thesis using settledAlike_trans [OF first] by simp
  qed
  note merged = this
  let ?k = "if list_ex (\<lambda>root. root \<notin> set (sourceRoots db (provenance live)))
      (sourceRoots db (provenance c)) then 1 else 0"
  show ?thesis
  proof (cases "length ?evidence = length ?existing")
    case True
    show ?thesis
    proof (cases "?label = claim_sensitivity live")
      case same: True
      then have "fst (corroborate io db live c) = db"
        using True by (simp add: corroborate_def Let_def)
      then show ?thesis using settledAlike_refl [OF assms(1)] by simp
    next
      case False
      then have "fst (corroborate io db live c) =
          updateClaim (claim_id live) (\<lambda>r. r\<lparr>claim_sensitivity := ?label\<rparr>) db"
        using True by (simp add: corroborate_def Let_def)
      then show ?thesis using relabeled_row [OF assms, of "claim_sensitivity c"] by (simp only:)
    qed
  next
    case False
    then have "fst (corroborate io db live c) = updateClaim (claim_id live)
        (\<lambda>r. r\<lparr>provenance := ?evidence, claim_sensitivity := ?label\<rparr>) (persistClaim (?next ?k) db)"
      by (simp add: corroborate_def Let_def del: stricter_max)
    then show ?thesis using merged [of ?k] by (simp only:) simp
  qed
qed

lemma confirm_alike:
  assumes "wfStore db" "live \<in> set (claims db)" "confirm io db live c = (db', res)"
  shows "settledAlike db db'"
  using assms(3) corroborate_alike [OF assms(1,2), of io c] settledAlike_enqueue
  by (auto simp: confirm_def Let_def split: prod.splits if_splits)

lemma find_member: "List.find P xs = Some x \<Longrightarrow> x \<in> set xs"
  by (auto simp: find_Some_iff)

lemma findExact_member: "findExact io db c = Some old \<Longrightarrow> old \<in> set (claims db)"
  by (auto simp: findExact_def listByAge_def dest: find_member)

lemma structuralTwin_member:
  assumes "structuralTwin io db c nominees = Inr (Some live)"
  shows "live \<in> set (claims db) \<and> status live = Live"
proof -
  have "live \<in> set (structuralCandidates io db c nominees)"
    using assms by (auto simp: structuralTwin_def split: if_splits dest: findM_Some)
  then show ?thesis
    by (auto simp: structuralCandidates_def liveByKey_def map_filter_def split: option.splits
        dest: getClaim_member)
qed

section \<open>The claims an insertion meets\<close>

lemma required_events:
  "requireExternalEvents db ids = Inr u \<Longrightarrow> i \<in> set ids \<Longrightarrow> \<exists>e. eventRow db i = Some e"
  by (induction ids) (auto split: option.splits if_splits)

lemma external_present:
  assumes "externalEvidence db ids = Inr True" "ids \<noteq> []"
  shows "countEvents db ids \<noteq> 0"
proof -
  have "requireExternalEvents db ids = Inr ()"
    using assms(1) by (auto simp: externalEvidence_def split: sum.splits StoreError.splits)
  then obtain e where "eventRow db (hd ids) = Some e"
    using required_events assms(2) by fastforce
  then have "e \<in> set (events db)" "ev_id e = hd ids"
    by (auto simp: eventRow_def find_Some_iff)
  then show ?thesis
    using list.set_sel(1) [OF assms(2)]
    by (auto simp: countEvents_def filter_empty_conv intro!: bexI [of _ e])
qed

text \<open>A claim whose evidence is usable is not gone: the rule for purged claims is never reached.\<close>

lemma usable_not_gone:
  assumes "usable io db live = Inr True" "coherent live"
  shows "\<not> provenanceGone db live"
  using assms external_present [of db "provenance live"] coherent_cited [OF assms(2)]
  by (auto simp: usable_def provenanceGone_def split: if_splits)

lemma conflictsOf_facts:
  assumes "conflictsOf io db c = Inr met" "wfStore db"
  shows "met = filter (\<lambda>r. claim_key c \<noteq> None \<and> claim_key r = claim_key c \<and> status r = Live \<and>
      io_visible io r \<and> usable io db r = Inr True \<and>
      claimsConflict (toConflict False c) (toConflict False r) = Inr True) (claims db)"
proof (cases "claim_key c")
  case None
  then show ?thesis using assms(1) by (simp add: conflictsOf_def)
next
  case (Some key)
  have hit: "conflictsWith io db c r = Inr True \<longleftrightarrow> usable io db r = Inr True \<and>
      claimsConflict (toConflict False c) (toConflict False r) = Inr True" if "r \<in> set (claims db)" for r
  proof (cases "usable io db r = Inr True")
    case True
    then show ?thesis
      using usable_not_gone [OF True coherent_row [OF assms(2) that]]
      by (simp add: conflictsWith_def timely_Inr)
  next
    case False
    then show ?thesis by (cases "usable io db r") (auto simp: conflictsWith_def)
  qed
  have "filterM (conflictsWith io db c) (liveByKey db key (io_visible io)) = Inr met"
    using assms(1) by (simp add: conflictsOf_def Some)
  then have "met = filter (\<lambda>r. conflictsWith io db c r = Inr True) (liveByKey db key (io_visible io))"
    by (rule conjunct1 [OF filterM_Inr])
  also have "\<dots> = filter (\<lambda>r. (claim_key r = Some key \<and> status r = Live \<and> io_visible io r) \<and>
      conflictsWith io db c r = Inr True) (claims db)"
    by (simp only: liveByKey_def filter_filter)
  finally show ?thesis
    by (rule trans) (rule filter_cong [OF refl], use hit Some in simp)
qed

lemma resolve_facts:
  assumes "resolve db c live = Inr met" "\<not> provenanceGone db live"
  shows "met_live met = live \<and> \<not> met_purged met \<and>
    resolveConflict (toConflict False c) (toConflict False live) = Inr (met_resolution met)"
  using assms by (auto simp: resolve_def result_simps)

text \<open>No rule but the one for purged claims ends a claim of higher authority.\<close>

lemma superseded_tier:
  assumes "resolveConflict a b = Inr (Supersede Incoming rule)" "cc_status b \<noteq> Purged" "\<not> cc_purged b"
  shows "AUTHORITY_TIERS (cc_authority b) \<le> AUTHORITY_TIERS (cc_authority a) \<and> rule \<noteq> R6"
  using assms
  by (cases "cc_authority a"; cases "cc_authority b")
    (auto simp: resolveConflict_def sameTierResolution_def result_simps Let_def split: if_splits)

lemma contested_tier:
  assumes "resolveConflict a b = Inr Contested"
  shows "AUTHORITY_TIERS (cc_authority a) = AUTHORITY_TIERS (cc_authority b) \<and>
    AUTHORITY_TIERS (cc_authority a) \<le> 2"
  using assms
  by (cases "cc_authority a"; cases "cc_authority b")
    (auto simp: resolveConflict_def sameTierResolution_def result_simps Let_def split: if_splits)

lemma lost_tier:
  assumes "resolveConflict a b = Inr r" "losesTo r"
  shows "AUTHORITY_TIERS (cc_authority a) \<le> AUTHORITY_TIERS (cc_authority b)"
  using assms
  by (cases "cc_authority a"; cases "cc_authority b"; cases r)
    (auto simp: resolveConflict_def sameTierResolution_def result_simps Let_def split: if_splits)

section \<open>Settling the conflicts\<close>

text \<open>The claims that lose to the incoming one.\<close>

definition beaten :: "Met list \<Rightarrow> Claim list" where
  "beaten met =
     map met_live (filter (\<lambda>m. case met_resolution m of Supersede Incoming r \<Rightarrow> True | _ \<Rightarrow> False) met)"

definition rulesOf :: "Met list \<Rightarrow> (string \<times> ConflictRule) list" where
  "rulesOf met =
     concat (map (\<lambda>m. case met_resolution m of
        Supersede Incoming r \<Rightarrow> [(claim_id (met_live m), r)] | _ \<Rightarrow> []) met)"

lemma beaten_simps [simp]:
  "beaten [] = []"
  "beaten (m # met) =
     (case met_resolution m of Supersede Incoming r \<Rightarrow> [met_live m] | _ \<Rightarrow> []) @ beaten met"
  by (auto simp: beaten_def split: Resolution.split Side.split)

lemma rulesOf_simps [simp]:
  "rulesOf [] = []"
  "rulesOf (m # met) =
     (case met_resolution m of Supersede Incoming r \<Rightarrow> [(claim_id (met_live m), r)] | _ \<Rightarrow> []) @ rulesOf met"
  by (simp_all add: rulesOf_def)

lemma beaten_subset: "set (beaten met) \<subseteq> set (map met_live met)"
  by (auto simp: beaten_def)

lemma settle_one:
  assumes "settleOne io c (db, won, cont) m = Inr (d, won', cont')" "\<not> met_purged m"
    and "wfStore db" "met_live m \<in> set (claims db)"
  shows "wfStore d \<and> grown db d \<and> won' = won @ rulesOf [m] \<and>
    cont' = (if met_resolution m = Contested then Some (met_live m) else cont) \<and>
    (\<exists>u. claims d = map (\<lambda>x. if x \<in> set (beaten [m]) then ended (claim_id c) (io_now io) u x else x) (claims db))"
proof (cases "\<exists>r. met_resolution m = Supersede Incoming r")
  case True
  then obtain r where r: "met_resolution m = Supersede Incoming r" by blast
  obtain e where e: "supersede (claim_id c) (valid_from c) (io_now io) r (met_live m) db = Inr e"
      "d = enqueueClaimRetrieval (io_store io) (met_live m) (io_now io) e"
      "won' = won @ [(claim_id (met_live m), r)]" "cont' = cont"
    using assms(1,2) r by (auto simp: settleOne_def Let_def result_simps)
  note keep = supersede_keeps [OF assms(3,4) e(1)]
  have "wfStore d \<and> grown e d" using same_tables_keep [of e d] keep by (auto simp: e(2))
  moreover obtain u where "claims e = map (\<lambda>x. if x = met_live m then ended (claim_id c) (io_now io) u x else x) (claims db)"
    using supersede_rows [OF assms(3,4) e(1)] by blast
  ultimately show ?thesis
    using keep grown_trans e(2-4) r by auto
next
  case False
  then have "d = db" "won' = won" "rulesOf [m] = []" "beaten [m] = []"
      "cont' = (if met_resolution m = Contested then Some (met_live m) else cont)"
    using assms(1,2) by (auto simp: settleOne_def Let_def split: Resolution.splits Side.splits)
  then show ?thesis using assms(3) by simp
qed

lemma settle_facts:
  assumes "foldM (settleOne io c) (db, won, cont) met = Inr (db', won', cont')"
    and "wfStore db" "set (map met_live met) \<subseteq> set (claims db)"
    and "distinct (map (claim_id \<circ> met_live) met)" "list_all (\<lambda>m. \<not> met_purged m) met"
  shows "wfStore db' \<and> grown db db' \<and> won' = won @ rulesOf met \<and>
    (\<exists>until. claims db' =
       map (\<lambda>x. if x \<in> set (beaten met) then ended (claim_id c) (io_now io) (until x) x else x) (claims db)) \<and>
    (if list_ex (\<lambda>m. met_resolution m = Contested) met
     then \<exists>m\<in>set met. met_resolution m = Contested \<and> cont' = Some (met_live m)
     else cont' = cont)"
  using assms
proof (induction met arbitrary: db won cont)
  case Nil
  then show ?case by simp
next
  case (Cons m met)
  obtain d s k where one: "settleOne io c (db, won, cont) m = Inr (d, s, k)"
      and rest: "foldM (settleOne io c) (d, s, k) met = Inr (db', won', cont')"
    using Cons.prems(1) by (auto simp: result_simps)
  have live: "met_live m \<in> set (claims db)" "\<not> met_purged m" using Cons.prems(3,5) by auto
  have apart: "claim_id (met_live m) \<notin> claim_id ` set (map met_live met)"
    using Cons.prems(4) by (auto simp: comp_def)
  obtain u where step: "wfStore d" "grown db d" "s = won @ rulesOf [m]"
      "k = (if met_resolution m = Contested then Some (met_live m) else cont)"
      "claims d = map (\<lambda>x. if x \<in> set (beaten [m]) then ended (claim_id c) (io_now io) u x else x) (claims db)"
    using settle_one [OF one live(2) Cons.prems(2) live(1)] by blast
  have other: "x \<notin> set (beaten met)" if "claim_id x = claim_id (met_live m)" for x
    using that apart beaten_subset [of met] by (metis image_eqI subset_iff)
  have single: "set (beaten [m]) \<subseteq> {met_live m}" using beaten_subset [of "[m]"] by simp
  have "set (map met_live met) \<subseteq> set (claims d)"
  proof
    fix x assume x: "x \<in> set (map met_live met)"
    then have "claim_id x \<in> claim_id ` set (map met_live met)" by (rule imageI)
    then have "x \<noteq> met_live m" using apart by metis
    moreover have "x \<in> set (claims db)" using x Cons.prems(3) by auto
    ultimately show "x \<in> set (claims d)" unfolding step(5) using single by auto
  qed
  from Cons.IH [OF rest step(1) this] Cons.prems(4,5)
  obtain until where ih: "wfStore db'" "grown d db'" "won' = s @ rulesOf met"
      "claims db' = map (\<lambda>x. if x \<in> set (beaten met) then ended (claim_id c) (io_now io) (until x) x else x) (claims d)"
      "if list_ex (\<lambda>m. met_resolution m = Contested) met
       then \<exists>m\<in>set met. met_resolution m = Contested \<and> cont' = Some (met_live m) else cont' = k"
    by auto
  let ?until = "until(met_live m := u)"
  have rows: "claims db' = map (\<lambda>x. if x \<in> set (beaten (m # met))
      then ended (claim_id c) (io_now io) (?until x) x else x) (claims db)"
    unfolding ih(4) step(5) map_map
  proof (intro map_cong refl)
    fix x
    show "((\<lambda>x. if x \<in> set (beaten met) then ended (claim_id c) (io_now io) (until x) x else x) \<circ>
        (\<lambda>x. if x \<in> set (beaten [m]) then ended (claim_id c) (io_now io) u x else x)) x =
        (if x \<in> set (beaten (m # met)) then ended (claim_id c) (io_now io) (?until x) x else x)"
      using single other [of x] other [of "ended (claim_id c) (io_now io) u x"]
      by (cases "x \<in> set (beaten [m])") auto
  qed
  have tied: "if list_ex (\<lambda>m. met_resolution m = Contested) (m # met)
      then \<exists>m\<in>set (m # met). met_resolution m = Contested \<and> cont' = Some (met_live m) else cont' = cont"
    using ih(5) step(4) by (auto split: if_splits)
  have "won' = won @ rulesOf (m # met)" using ih(3) step(3) by simp
  then show ?case
    by (intro conjI ih(1) grown_trans [OF step(2) ih(2)] exI [of _ ?until] rows tied)
qed

section \<open>Filing\<close>

lemma mapM_resolve:
  assumes "mapM (resolve db c) lives = Inr met" "list_all (\<lambda>l. \<not> provenanceGone db l) lives"
  shows "map met_live met = lives \<and> list_all (\<lambda>m. \<not> met_purged m) met \<and>
    list_all (\<lambda>m. resolveConflict (toConflict False c) (toConflict False (met_live m)) =
      Inr (met_resolution m)) met"
  using assms
proof (induction lives arbitrary: met)
  case (Cons l lives)
  obtain m ms where m: "resolve db c l = Inr m" "mapM (resolve db c) lives = Inr ms" "met = m # ms"
    using Cons.prems(1) by (auto simp: result_simps)
  then show ?case
    using resolve_facts [OF m(1)] Cons.IH [OF m(2)] Cons.prems(2) by simp
qed simp

definition conflicting :: "ClaimsIo \<Rightarrow> ClaimsDb \<Rightarrow> Claim \<Rightarrow> Claim \<Rightarrow> bool" where
  "conflicting io db c r \<longleftrightarrow>
     claim_key c \<noteq> None \<and> claim_key r = claim_key c \<and> status r = Live \<and>
     io_visible io r \<and> usable io db r = Inr True \<and>
     claimsConflict (toConflict False c) (toConflict False r) = Inr True"

lemma usable_events: "events d = events db \<Longrightarrow> usable io d r = usable io db r"
proof -
  assume same: "events d = events db"
  have "requireExternalEvents d ids = requireExternalEvents db ids" for ids
    by (induction ids) (simp_all add: eventRow_def same split: option.split)
  then show ?thesis by (simp add: usable_def externalEvidence_def)
qed

lemma met_facts:
  assumes "conflictsOf io db c = Inr lives" "mapM (resolve db c) lives = Inr met" "wfStore db"
  shows "map met_live met = filter (conflicting io db c) (claims db)"
    and "list_all (\<lambda>m. \<not> met_purged m) met"
    and "m \<in> set met \<Longrightarrow> resolveConflict (toConflict False c) (toConflict False (met_live m)) =
      Inr (met_resolution m)"
proof -
  have lives: "lives = filter (conflicting io db c) (claims db)"
    using conflictsOf_facts [OF assms(1,3)] by (simp add: conflicting_def [abs_def])
  have "list_all (\<lambda>l. \<not> provenanceGone db l) lives"
    using usable_not_gone coherent_row [OF assms(3)]
    by (auto simp: lives list_all_iff conflicting_def)
  from mapM_resolve [OF assms(2) this]
  show "map met_live met = filter (conflicting io db c) (claims db)" "list_all (\<lambda>m. \<not> met_purged m) met"
    "m \<in> set met \<Longrightarrow> resolveConflict (toConflict False c) (toConflict False (met_live m)) =
      Inr (met_resolution m)"
    by (simp_all add: lives list_all_iff)
qed

lemma insertClaimRow_Inr:
  assumes "insertClaimRow c db = Inr db'"
  shows "claim_id c \<notin> set (map claim_id (claims db))" "db' = db\<lparr>claims := claims db @ [c]\<rparr>"
  using assms by (auto simp: insertClaimRow_def result_simps)

lemma insertClaimRow_keeps:
  assumes "insertClaimRow c db = Inr db'" "wfStore db" "coherent c"
  shows "wfStore db' \<and> grown db db'"
proof
  note row = insertClaimRow_Inr [OF assms(1)]
  show "wfStore db'" using row assms(2,3) by (auto simp: wfStore_def)
  show "grown db db'"
    unfolding grown_def row(2)
    by (intro conjI exI [of _ "claims db"] exI [of _ "[c]"]) (simp_all add: list.rel_refl)
qed

lemma fileClaim_met:
  assumes "fileClaim io db c = Inr out"
  obtains lives met where "conflictsOf io db c = Inr lives" "mapM (resolve db c) lives = Inr met"
    "(if list_ex (\<lambda>m. losesTo (met_resolution m)) met
      then andThen (insertClaimRow (c\<lparr>status := Skipped\<rparr>) db)
             (\<lambda>db'. Inr (db', SkippedClaim (c\<lparr>status := Skipped\<rparr>)))
      else
        andThen (foldM (settleOne io c) (db, [], None) met) (\<lambda>(db1, superseded, contested).
        andThen (insertClaimRow c db1) (\<lambda>db2.
          Inr (enqueueClaimRetrieval (io_store io) c (io_now io) db2,
               case contested of
                 Some live \<Rightarrow> ContestedClaim c live
               | None \<Rightarrow> StoredClaim c superseded)))) = Inr out"
proof (cases "conflictsOf io db c")
  case (Inr lives)
  show ?thesis
  proof (cases "mapM (resolve db c) lives")
    case met: (Inr met)
    show ?thesis
      by (rule that [OF Inr met]) (use assms in \<open>simp add: fileClaim_def Inr met\<close>)
  qed (use assms Inr in \<open>simp add: fileClaim_def\<close>)
qed (use assms in \<open>simp add: fileClaim_def\<close>)

text \<open>What filing a claim leaves, in the two cases of \<open>incomingStatus\<close>.\<close>

lemma filed_skipped:
  assumes "fileClaim io db c = Inr (db', SkippedClaim s)" "wfStore db" "coherent c" "status c = Live"
  shows "s = c\<lparr>status := Skipped\<rparr> \<and> claims db' = claims db @ [s] \<and> wfStore db' \<and> grown db db' \<and>
    (\<exists>r\<in>set (claims db). conflicting io db c r \<and>
       AUTHORITY_TIERS (authority c) \<le> AUTHORITY_TIERS (authority r))"
proof -
  obtain lives met where met: "conflictsOf io db c = Inr lives" "mapM (resolve db c) lives = Inr met"
      "list_ex (\<lambda>m. losesTo (met_resolution m)) met"
      "insertClaimRow (c\<lparr>status := Skipped\<rparr>) db = Inr db'" "s = c\<lparr>status := Skipped\<rparr>"
  proof (rule fileClaim_met [OF assms(1)], goal_cases)
    case (1 lives met)
    show ?case
    proof (cases "list_ex (\<lambda>m. losesTo (met_resolution m)) met")
      case True
      with 1(4) have "insertClaimRow (c\<lparr>status := Skipped\<rparr>) db = Inr db' \<and> s = c\<lparr>status := Skipped\<rparr>"
        by (auto simp: andThen_Inr_iff)
      then show ?thesis by (elim conjE) (rule that [OF 1(2,3) True])
    next
      case False
      with 1(4) show ?thesis by (auto simp: andThen_Inr_iff split: option.splits)
    qed
  qed
  note facts = met_facts [OF met(1,2) assms(2)]
  obtain m where m: "m \<in> set met" "losesTo (met_resolution m)" using met(3) by (auto simp: list_ex_iff)
  have "met_live m \<in> set (filter (conflicting io db c) (claims db))"
    using m(1) by (auto simp flip: facts(1))
  moreover have "AUTHORITY_TIERS (authority c) \<le> AUTHORITY_TIERS (authority (met_live m))"
    using lost_tier [OF facts(3) [OF m(1)] m(2)] by (simp add: toConflict_def)
  moreover have "coherent s" unfolding met(5)
    using assms(3,4) by (simp add: coherent_def)
  ultimately show ?thesis
    using met(4,5) insertClaimRow_Inr [OF met(4)] insertClaimRow_keeps [OF met(4) assms(2)] by auto
qed

lemma filed_live:
  assumes "fileClaim io db c = Inr (db', res)" "wfStore db" "coherent c"
    and "res = StoredClaim s won \<or> res = ContestedClaim s other"
  shows "\<exists>met until. s = c \<and> wfStore db' \<and> grown db db' \<and>
    map met_live met = filter (conflicting io db c) (claims db) \<and>
    claims db' = map (\<lambda>x. if x \<in> set (beaten met) then ended (claim_id c) (io_now io) (until x) x else x)
      (claims db) @ [c] \<and>
    (\<forall>m\<in>set met. \<not> losesTo (met_resolution m) \<and>
      resolveConflict (toConflict False c) (toConflict False (met_live m)) = Inr (met_resolution m)) \<and>
    (case res of
       StoredClaim s won \<Rightarrow> won = rulesOf met \<and> list_all (\<lambda>m. met_resolution m \<noteq> Contested) met
     | ContestedClaim s other \<Rightarrow> \<exists>m\<in>set met. met_resolution m = Contested \<and> other = met_live m
     | _ \<Rightarrow> True)"
proof -
  obtain lives met d won' cont e where met: "conflictsOf io db c = Inr lives"
      "mapM (resolve db c) lives = Inr met" "\<not> list_ex (\<lambda>m. losesTo (met_resolution m)) met"
      "foldM (settleOne io c) (db, [], None) met = Inr (d, won', cont)" "insertClaimRow c d = Inr e"
      "db' = enqueueClaimRetrieval (io_store io) c (io_now io) e"
      "res = (case cont of Some live \<Rightarrow> ContestedClaim c live | None \<Rightarrow> StoredClaim c won')"
  proof (rule fileClaim_met [OF assms(1)], goal_cases)
    case (1 lives met)
    show ?case
    proof (cases "list_ex (\<lambda>m. losesTo (met_resolution m)) met")
      case True
      with 1(4) assms(4) show ?thesis by (auto simp: andThen_Inr_iff)
    next
      case False
      with 1(4) obtain d won' cont e where
        "foldM (settleOne io c) (db, [], None) met = Inr (d, won', cont)" "insertClaimRow c d = Inr e"
        "db' = enqueueClaimRetrieval (io_store io) c (io_now io) e"
        "res = (case cont of Some live \<Rightarrow> ContestedClaim c live | None \<Rightarrow> StoredClaim c won')"
        by (auto simp: andThen_Inr_iff)
      then show ?thesis by (rule that [OF 1(2,3) False])
    qed
  qed
  note facts = met_facts [OF met(1,2) assms(2)]
  have "set (map met_live met) \<subseteq> set (claims db)" unfolding facts(1) by auto
  moreover have "distinct (map (claim_id \<circ> met_live) met)"
    using distinct_ids [OF assms(2), of "conflicting io db c"] by (simp flip: facts(1) map_map)
  ultimately obtain until where settled: "wfStore d" "grown db d" "won' = rulesOf met"
      "claims d = map (\<lambda>x. if x \<in> set (beaten met) then ended (claim_id c) (io_now io) (until x) x else x) (claims db)"
      "if list_ex (\<lambda>m. met_resolution m = Contested) met
       then \<exists>m\<in>set met. met_resolution m = Contested \<and> cont = Some (met_live m) else cont = None"
    using settle_facts [OF met(4) assms(2) _ _ facts(2)] by auto
  note inserted = insertClaimRow_Inr [OF met(5)] insertClaimRow_keeps [OF met(5) settled(1) assms(3)]
  have "wfStore db' \<and> grown e db'"
    using same_tables_keep [of e db'] inserted by (auto simp: met(6))
  then have "wfStore db' \<and> grown db db'"
    using inserted grown_trans settled(2) by blast
  moreover have "claims db' = map (\<lambda>x. if x \<in> set (beaten met)
      then ended (claim_id c) (io_now io) (until x) x else x) (claims db) @ [c]"
    using inserted(2) settled(4) by (simp add: met(6))
  moreover have "\<forall>m\<in>set met. \<not> losesTo (met_resolution m) \<and>
      resolveConflict (toConflict False c) (toConflict False (met_live m)) = Inr (met_resolution m)"
    using met(3) facts(3) by (auto simp: list_ex_iff)
  moreover have "case res of
       StoredClaim s won \<Rightarrow> won = rulesOf met \<and> list_all (\<lambda>m. met_resolution m \<noteq> Contested) met
     | ContestedClaim s other \<Rightarrow> \<exists>m\<in>set met. met_resolution m = Contested \<and> other = met_live m
     | _ \<Rightarrow> True"
    using met(7) settled(3,5) by (auto simp: list_all_iff list_ex_iff split: option.splits if_splits)
  moreover have "s = c" using met(7) assms(4) by (auto split: option.splits)
  ultimately show ?thesis using facts(1) by blast
qed

lemma incomingClaim_facts:
  assumes "incomingClaim io db i = Inr c" "in_provenance i \<noteq> []"
  shows "coherent c" "status c = Live" "provenance c = in_provenance i" "claim_key c = keyOf io i"
proof -
  obtain assigned where "c = newClaim io db i assigned"
    using assms(1) by (auto simp: incomingClaim_def andThen_Inr_iff)
  then show "coherent c" "status c = Live" "provenance c = in_provenance i" "claim_key c = keyOf io i"
    using assms(2) by (simp_all add: newClaim_def coherent_def)
qed

lemma assertInput_cited: "assertInput i = Inr u \<Longrightarrow> in_provenance i \<noteq> []"
  by (simp add: assertInput_def guard_Inr_iff)

lemma insertClaim_cases:
  assumes "insertClaim io db i nominees = Inr (db', res)"
  obtains (replay) c old where "incomingClaim io db i = Inr c" "old \<in> set (claims db)"
      "relabel io db old c = (db', res)"
    | (twin) c live where "incomingClaim io db i = Inr c" "live \<in> set (claims db)" "status live = Live"
      "confirm io db live c = (db', res)"
    | (filed) c where "incomingClaim io db i = Inr c" "fileClaim io db c = Inr (db', res)"
proof -
  obtain c exact where c: "incomingClaim io db i = Inr c" and exact: "exactReplay io db c = Inr exact"
      and rest: "(case exact of
          Some old \<Rightarrow> Inr (relabel io db old c)
        | None \<Rightarrow> andThen (structuralTwin io db c nominees) (\<lambda>twin.
            case twin of Some live \<Rightarrow> Inr (confirm io db live c) | None \<Rightarrow> fileClaim io db c)) = Inr (db', res)"
    using assms by (auto simp: insertClaim_def applyClaimInsert_def fenced_def guard_Inr_iff andThen_Inr_iff)
  show ?thesis
  proof (cases exact)
    case (Some old)
    have "old \<in> set (claims db)"
      using exact Some by (auto simp: exactReplay_def andThen_Inr_iff dest: findExact_member
          split: option.splits if_splits)
    then show ?thesis using rest Some by (intro replay [OF c]) simp_all
  next
    case None
    then obtain hit where hit: "structuralTwin io db c nominees = Inr hit"
        and out: "(case hit of Some live \<Rightarrow> Inr (confirm io db live c) | None \<Rightarrow> fileClaim io db c) = Inr (db', res)"
      using rest by (auto simp: andThen_Inr_iff)
    show ?thesis
    proof (cases hit)
      case (Some live)
      then show ?thesis
        using structuralTwin_member [of io db c nominees live] hit out by (intro twin [OF c]) simp_all
    next
      case None
      then show ?thesis using out by (intro filed [OF c]) simp
    qed
  qed
qed

lemma relabel_duplicate: "relabel io db old c = (db', res) \<Longrightarrow> \<exists>d. res = DuplicateClaim d"
  by (auto simp: relabel_def Let_def split: if_splits)

lemma confirm_duplicate: "confirm io db live c = (db', res) \<Longrightarrow> \<exists>d. res = DuplicateClaim d"
  by (auto simp: confirm_def split: prod.splits)

text \<open>An insertion either files a claim or, as a duplicate, moves no claim.\<close>

lemma insertClaim_filed:
  assumes "insertClaim io db i nominees = Inr (db', res)" "wfStore db"
  shows "(case res of DuplicateClaim d \<Rightarrow> True | _ \<Rightarrow> False) \<and> settledAlike db db' \<or>
    (\<exists>c. incomingClaim io db i = Inr c \<and> coherent c \<and> status c = Live \<and>
       fileClaim io db c = Inr (db', res))"
  using assms(1)
proof (cases rule: insertClaim_cases)
  case (replay c old)
  then show ?thesis using relabel_alike [OF assms(2)] relabel_duplicate by fastforce
next
  case (twin c live)
  then show ?thesis using confirm_alike [OF assms(2)] confirm_duplicate by fastforce
next
  case (filed c)
  have "in_provenance i \<noteq> []"
    using assms(1) assertInput_cited by (auto simp: insertClaim_def andThen_Inr_iff)
  then show ?thesis using filed incomingClaim_facts [OF filed(1)] by blast
qed

lemma fileClaim_result: "fileClaim io db c = Inr (db', res) \<Longrightarrow> (case res of DuplicateClaim d \<Rightarrow> False | _ \<Rightarrow> True)"
  by (erule fileClaim_met) (auto simp: andThen_Inr_iff split: if_splits option.splits)

lemma insertClaim_keeps:
  assumes "insertClaim io db i nominees = Inr (db', res)" "wfStore db"
  shows "wfStore db' \<and> grown db db'"
proof -
  from insertClaim_filed [OF assms] show ?thesis
  proof (elim disjE conjE exE)
    assume "settledAlike db db'"
    then show ?thesis by (simp add: settledAlike_def)
  next
    fix c assume c: "coherent c" "status c = Live" "fileClaim io db c = Inr (db', res)"
    show ?thesis
    proof (cases res)
      case (SkippedClaim s)
      then show ?thesis using filed_skipped [of io db c db' s] c assms(2) by blast
    next
      case (StoredClaim s won)
      then show ?thesis using filed_live [OF c(3) assms(2) c(1)] by blast
    next
      case (ContestedClaim s other)
      then show ?thesis using filed_live [OF c(3) assms(2) c(1)] by blast
    next
      case (DuplicateClaim d)
      then show ?thesis using fileClaim_result [OF c(3)] by simp
    qed
  qed
qed

end
