(* ===== verification/Claim_Lifecycle.thy ===== *)
theory Claim_Lifecycle
  imports Claim_Insert
begin

text \<open>
  The claim tables as a machine: every way \<open>packages/core/src/claims/store.ts\<close> changes them is
  one operation, and what each keeps holds for every sequence of them.
\<close>

section \<open>The machine\<close>

datatype StoreOp =
    InsertOp ClaimsIo InsertClaimInput "string list"
  | SupersedeGroupOp Claim string "Claim \<Rightarrow> bool"
  | SupersedeExactOp "string option" Claim string "string option" string
  | RevertOp string string
  | ReinstateOp string "string option"
  | ResupersedeOp string string string "string option"
  | SkipOp string string
  | ReviveOp
  | MarkPurgedOp string
  | AfterPurgeOp string

fun storeResult :: "ClaimsDb \<Rightarrow> StoreOp \<Rightarrow> StoreError + ClaimsDb" where
  "storeResult db (InsertOp io i nominees) = map_sum id fst (insertClaim io db i nominees)"
| "storeResult db (SupersedeGroupOp win stamp visible) = map_sum id fst (supersedeLiveGroup db win stamp visible)"
| "storeResult db (SupersedeExactOp store win l key stamp) = supersedeExactClaim db store win l key stamp"
| "storeResult db (RevertOp i stamp) = markClaimReverted db i stamp"
| "storeResult db (ReinstateOp i prior) = reinstateClaim db i prior"
| "storeResult db (ResupersedeOp i win stamp until) = resupersedeClaim db i win stamp until"
| "storeResult db (SkipOp i stamp) = map_sum id fst (skipUnwrittenClaim db i stamp)"
| "storeResult db ReviveOp = map_sum id fst (reviveUncontestedSkipped db)"
| "storeResult db (MarkPurgedOp stamp) = Inr (fst (markClaimsPurged db stamp))"
| "storeResult db (AfterPurgeOp stamp) = Inr (fst (markClaimsAfterPurge db stamp))"

text \<open>An operation that throws is rolled back.\<close>

definition storeStep :: "ClaimsDb \<Rightarrow> StoreOp \<Rightarrow> ClaimsDb" where
  "storeStep db op = (case storeResult db op of Inl e \<Rightarrow> db | Inr db' \<Rightarrow> db')"

section \<open>Each operation keeps the tables coherent\<close>

lemma map_sum_Inr: "map_sum id fst m = Inr x \<longleftrightarrow> (\<exists>y. m = Inr (x, y))"
  by (cases m) auto

lemma group_keeps:
  assumes "supersedeLiveGroup db win stamp visible = Inr (db', ids)" "wfStore db"
  shows "wfStore db' \<and> grown db db'"
proof -
  have "set (groupOf db win visible) \<subseteq> set (claims db)" using groupOf_facts(1) [OF assms(2)] by blast
  then show ?thesis
    using supersedeAll_keeps [OF supersedeLiveGroup_Inr(3) [OF assms(1)] assms(2) _ groupOf_facts(2) [OF assms(2)]]
    by blast
qed

lemma exact_keeps:
  assumes "supersedeExactClaim db store win l key stamp = Inr db'" "wfStore db"
  shows "wfStore db' \<and> grown db db'"
proof -
  obtain old d where old: "getClaim db l = Some old"
      and d: "supersede (claim_id win) (valid_from win) stamp R5 old db = Inr d"
      and db': "db' = enqueueClaimRetrieval store old stamp d"
    using assms(1)
    by (auto simp: supersedeExactClaim_def fenced_def guard_Inr_iff andThen_Inr_iff split: option.splits)
  have "wfStore d \<and> grown db d"
    using supersede_keeps [OF assms(2) getClaim_member(1) [OF old] d] .
  then show ?thesis
    using same_tables_keep [of d db'] grown_trans by (auto simp: db')
qed

lemma rewritten_keeps:
  assumes "wfStore db" "getClaim db i = Some c" "claim_id c' = claim_id c"
    and "coherent (persisted c' c)" "corroboration c' = corroboration c"
  shows "wfStore (persistClaim c' db) \<and> grown db (persistClaim c' db)"
  using persistClaim_keeps [OF assms(1) getClaim_member(1) [OF assms(2)] assms(3,4)] assms(5) by simp

lemma undo_keeps:
  assumes "wfStore db"
  shows "markClaimReverted db i stamp = Inr db' \<Longrightarrow> wfStore db' \<and> grown db db'"
    and "reinstateClaim db i prior = Inr db' \<Longrightarrow> wfStore db' \<and> grown db db'"
    and "resupersedeClaim db i win stamp until = Inr db' \<Longrightarrow> wfStore db' \<and> grown db db'"
proof -
  show "wfStore db' \<and> grown db db'" if r: "markClaimReverted db i stamp = Inr db'"
  proof (cases "getClaim db i")
    case (Some c)
    have "db' = persistClaim (c\<lparr>status := Reverted, retracted_at := Some stamp\<rparr>) db"
      using r Some by (simp add: markClaimReverted_def fenced_Inr)
    then show ?thesis
      using rewritten_keeps [OF assms Some] coherent_row [OF assms getClaim_member(1) [OF Some]]
      by (simp add: coherent_def persisted_def)
  qed (use r assms in \<open>simp add: markClaimReverted_def fenced_Inr\<close>)
  show "wfStore db' \<and> grown db db'" if r: "reinstateClaim db i prior = Inr db'"
  proof (cases "getClaim db i")
    case (Some c)
    have "db' = persistClaim (reinstated prior c) db"
      using r Some by (simp add: reinstateClaim_def fenced_Inr reinstated_def)
    then show ?thesis
      using rewritten_keeps [OF assms Some, of "reinstated prior c"]
        coherent_reinstated [OF coherent_row [OF assms getClaim_member(1) [OF Some]]]
      by simp
  qed (use r assms in \<open>simp add: reinstateClaim_def fenced_Inr\<close>)
  show "wfStore db' \<and> grown db db'" if r: "resupersedeClaim db i win stamp until = Inr db'"
  proof (cases "getClaim db i")
    case (Some c)
    have "db' = persistClaim (ended win stamp until c) db"
      using r Some by (simp add: resupersedeClaim_def fenced_Inr ended_def)
    then show ?thesis
      using rewritten_keeps [OF assms Some, of "ended win stamp until c"]
        coherent_ended [OF coherent_row [OF assms getClaim_member(1) [OF Some]]]
      by simp
  qed (use r assms in \<open>simp add: resupersedeClaim_def fenced_Inr\<close>)
qed

text \<open>A status that is rewritten row by row.\<close>

lemma rowwise_keeps:
  assumes "wfStore db" "claims d = map f (claims db)" "events d = events db"
    and "supersessions d = supersessions db"
    and "\<And>c. content (f c) = content c \<and> claim_sensitivity (f c) = claim_sensitivity c \<and>
      provenance (f c) = provenance c \<and> corroboration (f c) = corroboration c"
    and "\<And>c. coherent c \<Longrightarrow> coherent (f c)"
  shows "wfStore d \<and> grown db d"
proof
  have "claim_id (f c) = claim_id c" for c
    using assms(5) [of c] content_id [of c] content_id [of "f c"] by metis
  then show "wfStore d"
    using assms(1,4,6) coherent_row [OF assms(1)]
    by (intro wfStore_map [OF assms(1,2)]) (auto simp: wfStore_def)
  show "grown db d"
    by (rule grown_map [OF assms(2) _ assms(3)]) (simp_all add: later_def assms(4,5))
qed

lemma skip_keeps:
  assumes "skipUnwrittenClaim db i stamp = Inr (db', hit)" "wfStore db"
  shows "wfStore db' \<and> grown db db'"
proof -
  let ?f = "\<lambda>c. if claim_id c = i \<and> status c = Live \<and> receipt_id c = None
      then c\<lparr>status := Skipped, retracted_at := Some stamp\<rparr> else c"
  have "claims db' = map ?f (claims db)" "events db' = events db" "supersessions db' = supersessions db"
    using assms(1) by (auto simp: skipUnwrittenClaim_def fenced_Inr Let_def)
  then show ?thesis
    by (rule rowwise_keeps [OF assms(2)]) (auto simp: content_def coherent_def)
qed

lemma revive_keeps:
  assumes "reviveUncontestedSkipped db = Inr (db', n)" "wfStore db"
  shows "wfStore db' \<and> grown db db'"
proof -
  have "claims db' = map (\<lambda>c. if revivable db c then c\<lparr>status := Live\<rparr> else c) (claims db)"
      "events db' = events db" "supersessions db' = supersessions db"
    using assms(1) by (auto simp: reviveUncontestedSkipped_def fenced_Inr)
  then show ?thesis
    by (rule rowwise_keeps [OF assms(2)]) (auto simp: content_def coherent_def revivable_def)
qed

lemma purgeOne_keeps:
  assumes "wfStore db" "c \<in> set (claims db)"
  shows "wfStore (fst (purgeOne stamp (db, l) c)) \<and> grown db (fst (purgeOne stamp (db, l) c))"
  using persistClaim_keeps [OF assms, of "c\<lparr>status := Purged, retracted_at := Some stamp\<rparr>"]
    coherent_row [OF assms] assms(1)
  by (auto simp: purgeOne_def coherent_def)

lemma markClaimsPurged_keeps:
  assumes "wfStore db"
  shows "wfStore (fst (markClaimsPurged db stamp)) \<and> grown db (fst (markClaimsPurged db stamp))"
proof -
  have "wfStore (fst (foldl (purgeOne stamp) (d, l) rows)) \<and> grown d (fst (foldl (purgeOne stamp) (d, l) rows))"
    if "wfStore d" "set rows \<subseteq> set (claims d)" "distinct (map claim_id rows)" for d l rows
    using that
  proof (induction rows arbitrary: d l)
    case (Cons c rows)
    obtain d' l' where one: "purgeOne stamp (d, l) c = (d', l')" by fastforce
    have keep: "wfStore d'" "grown d d'"
      using purgeOne_keeps [of d c stamp l] Cons.prems(1,2) by (simp_all add: one)
    have "set rows \<subseteq> set (claims d')"
    proof
      fix x assume x: "x \<in> set rows"
      then have "claim_id x \<in> claim_id ` set rows" by (rule imageI)
      then have "claim_id x \<noteq> claim_id c" using Cons.prems(3) by auto
      moreover have "x \<in> set (claims d)" using x Cons.prems(2) by auto
      ultimately show "x \<in> set (claims d')"
        using one by (auto simp: purgeOne_def persistClaim_def updateClaim_def split: if_splits intro: rev_image_eqI)
    qed
    then show ?case
      using Cons.IH [OF keep(1)] Cons.prems(3) keep(2) grown_trans by (auto simp: one)
  qed (simp add: that(1))
  moreover have "set (listClaims db opts) \<subseteq> set (claims db)" for opts
    by (auto simp: listClaims_def listByAge_def Let_def dest: in_set_takeD split: if_splits)
  moreover have "distinct (map claim_id (listClaims db opts))" for opts
  proof -
    have "distinct (map claim_id (filter (selects opts) (listByAge (claims db))))"
      using assms by (auto simp: wfStore_def listByAge_def distinct_map intro: inj_on_subset)
    then show ?thesis by (auto simp: listClaims_def Let_def take_map [symmetric] split: option.splits)
  qed
  ultimately show ?thesis using assms unfolding markClaimsPurged_def by blast
qed

lemma purgeLoop_journal: "supersessions (fst (purgeLoop batch stamp after acc)) = supersessions (fst acc)"
proof (induction batch stamp after acc rule: purgeLoop.induct)
  case (1 batch stamp after acc)
  have row: "supersessions (fst (purgeRow stamp acc c)) = supersessions (fst acc)" for acc c
    by (cases acc) (simp add: purgeRow_def Let_def)
  have "supersessions (fst (foldl (purgeRow stamp) acc rows)) = supersessions (fst acc)" for rows
    by (induction rows arbitrary: acc) (simp_all add: row)
  then show ?case using 1 by (subst purgeLoop.simps) (simp add: Let_def)
qed

lemma afterPurge_keeps:
  assumes "wfStore db"
  shows "wfStore (fst (markClaimsAfterPurge db stamp)) \<and> grown db (fst (markClaimsAfterPurge db stamp))"
proof (rule rowwise_keeps [OF assms])
  have p: "purgedTo db stamp UNIV (markClaimsAfterPurge db stamp)"
    using assms by (intro purge_finishes) (simp add: wfStore_def)
  then show "claims (fst (markClaimsAfterPurge db stamp)) = map (afterPurge db stamp) (claims db)"
    "events (fst (markClaimsAfterPurge db stamp)) = events db"
    by (simp_all add: purgedTo_def)
  show "supersessions (fst (markClaimsAfterPurge db stamp)) = supersessions db"
    by (simp add: markClaimsAfterPurge_def purgeLoop_journal)
qed (auto simp: afterPurge_def content_def coherent_def reducedBy_def)

lemma storeResult_keeps:
  assumes "storeResult db op = Inr db'" "wfStore db"
  shows "wfStore db' \<and> grown db db'"
  using assms(1) markClaimsPurged_keeps [OF assms(2)] afterPurge_keeps [OF assms(2)]
  by (cases op)
    (auto simp: map_sum_Inr dest: insertClaim_keeps [OF _ assms(2)] group_keeps [OF _ assms(2)]
      exact_keeps [OF _ assms(2)] undo_keeps [OF assms(2)] skip_keeps [OF _ assms(2)]
      revive_keeps [OF _ assms(2)])

interpretation claim_store: machine storeStep every wfStore grown
proof unfold_locales
  show "wfStore db \<Longrightarrow> wfStore (storeStep db op)" for db op
    using storeResult_keeps by (auto simp: storeStep_def split: sum.split)
  show "wfStore db \<Longrightarrow> grown db (storeStep db op)" for db op
    using storeResult_keeps by (auto simp: storeStep_def split: sum.split)
qed (auto intro: grown_trans)

section \<open>Who may end a claim\<close>

text \<open>What a model extracted is never above connector evidence, and what it did not quote
  verbatim never above inference, unless the owner's own event attests a correction.\<close>

lemma model_ceiling:
  assumes "incomingClaim io db i = Inr c" "in_producer i \<in> {Llm, Model}" "\<not> ownerAttested db i"
  shows "AUTHORITY_TIERS (authority c) \<le> 2"
proof -
  obtain corroborated assigned where a: "assignedAuthority db i corroborated = Inr assigned"
      "c = newClaim io db i assigned"
    using assms(1)
    by (auto simp: incomingClaim_def andThen_Inr_iff) (metis authoritative.elims sum.inject(2) Inl_Inr_False)
  have "AUTHORITY_TIERS (aa_authority assigned) \<le> 2"
    using a(1) assms(2,3)
    by (auto simp: assignedAuthority_def authorityFor_def Let_def baseAuthority_def clampAtMost_def
        canonicalizeProducer_def split: if_splits option.splits Intent.splits)
  then show ?thesis by (simp add: a(2) newClaim_def)
qed

lemma beaten_member:
  assumes "x \<in> set (beaten met)"
  shows "\<exists>m\<in>set met. met_live m = x \<and> (\<exists>rule. met_resolution m = Supersede Incoming rule)"
proof -
  obtain m where m: "m \<in> set met" "x = met_live m"
      "case met_resolution m of Supersede Incoming r \<Rightarrow> True | _ \<Rightarrow> False"
    using assms by (auto simp: beaten_def)
  from m(3) have "\<exists>rule. met_resolution m = Supersede Incoming rule"
    by (cases "met_resolution m") (auto split: Side.splits)
  then show ?thesis using m(1,2) by blast
qed

lemma settledAlike_status:
  assumes "settledAlike db db'" "wfStore db" "r \<in> set (claims db)" "r' \<in> set (claims db')"
    and "claim_id r' = claim_id r"
  shows "status r' = status r"
proof -
  let ?f = "\<lambda>c. (claim_id c, status c, superseded_by c, valid_to c)"
  have "?f r' \<in> set (map ?f (claims db'))" using assms(4) by simp
  also have "map ?f (claims db') = map ?f (claims db)" using assms(1) by (simp add: settledAlike_def)
  finally obtain s where "s \<in> set (claims db)" "claim_id s = claim_id r'" "status s = status r'" by auto
  then show ?thesis using only_claim [OF assms(2) _ assms(3)] assms(5) by metis
qed

text \<open>The row of a claim after another one was filed.\<close>

lemma filed_row:
  assumes "wfStore db'" "claims db' = map f (claims db) @ [c]" "\<And>x. claim_id (f x) = claim_id x"
    and "r \<in> set (claims db)" "r' \<in> set (claims db')" "claim_id r' = claim_id r"
  shows "r' = f r"
  using assms by (intro only_claim [OF assms(1,5)]) simp_all

lemma no_self_conflict: "claimsConflict (toConflict False c) (toConflict False c) \<noteq> Inr True"
  by (auto simp: claimsConflict_def polaritiesConflict_def objectsMatch_def toConflict_def andThen_Inr_iff
      split: option.splits)

lemma conflicting_events: "events d = events db \<Longrightarrow> conflicting io d c r = conflicting io db c r"
  by (simp only: conflicting_def usable_events [of d db])

lemma survivor_conflict:
  assumes "map met_live met = filter (conflicting io db c) (claims db)"
    and "list_all (\<lambda>m. met_resolution m \<noteq> Contested) met"
    and "\<forall>m\<in>set met. \<not> losesTo (met_resolution m)"
    and "x \<in> set (claims db)" "conflicting io db c x"
  shows "x \<in> set (beaten met)"
proof -
  have "x \<in> set (map met_live met)" using assms(4,5) unfolding assms(1) by simp
  then obtain m where m: "m \<in> set met" "met_live m = x" by auto
  then have "met_resolution m \<noteq> Contested" "\<not> losesTo (met_resolution m)"
    using assms(2,3) by (auto simp: list_all_iff)
  then obtain rule where "met_resolution m = Supersede Incoming rule"
    by (cases "met_resolution m" rule: losesTo.cases) auto
  then show ?thesis using m by (force simp: beaten_def)
qed

lemma stored_settles:
  assumes "fileClaim io db c = Inr (db', StoredClaim s won)" "wfStore db" "coherent c"
  shows "s = c \<and> getClaim db' (claim_id c) = Some c \<and> (\<forall>r\<in>set (claims db'). \<not> conflicting io db' c r)"
proof -
  from filed_live [OF assms, of s won]
  obtain met until where f: "s = c" "wfStore db'" "grown db db'"
      "map met_live met = filter (conflicting io db c) (claims db)"
      "claims db' = map (\<lambda>x. if x \<in> set (beaten met) then ended (claim_id c) (io_now io) (until x) x else x)
        (claims db) @ [c]"
      "\<forall>m\<in>set met. \<not> losesTo (met_resolution m)"
      "list_all (\<lambda>m. met_resolution m \<noteq> Contested) met"
    by auto
  have "events db' = events db" using f(3) by (simp add: grown_def)
  note same = conflicting_events [OF this]
  have "\<not> conflicting io db' c r" if r: "r \<in> set (claims db')" for r
  proof
    assume "conflicting io db' c r"
    then have hit: "conflicting io db c r" by (simp add: same)
    then have "r \<noteq> c" using no_self_conflict by (auto simp: conflicting_def)
    then obtain x where x: "x \<in> set (claims db)"
        "r = (if x \<in> set (beaten met) then ended (claim_id c) (io_now io) (until x) x else x)"
      using r unfolding f(5) by auto
    moreover have "status r = Live" using hit by (simp add: conflicting_def)
    ultimately have "x \<notin> set (beaten met)" "r = x" by (auto split: if_splits)
    then show False using survivor_conflict [OF f(4,7,6) x(1)] hit by simp
  qed
  moreover have "getClaim db' (claim_id c) = Some c"
    by (rule getClaim_known [OF f(2)]) (simp add: f(5))
  ultimately show ?thesis using f(1) by blast
qed

lemma contested_rival:
  assumes "fileClaim io db c = Inr (db', ContestedClaim s rival)" "wfStore db" "coherent c"
  shows "s = c \<and> getClaim db' (claim_id c) = Some c \<and> rival \<in> set (claims db') \<and> status rival = Live \<and>
    authority rival = authority c \<and> AUTHORITY_TIERS (authority c) \<le> 2"
proof -
  from filed_live [OF assms, of s _ rival]
  obtain met until m where f: "s = c" "wfStore db'"
      "map met_live met = filter (conflicting io db c) (claims db)"
      "claims db' = map (\<lambda>x. if x \<in> set (beaten met) then ended (claim_id c) (io_now io) (until x) x else x)
        (claims db) @ [c]"
      "\<forall>m\<in>set met. resolveConflict (toConflict False c) (toConflict False (met_live m)) = Inr (met_resolution m)"
      "m \<in> set met" "met_resolution m = Contested" "rival = met_live m"
    by auto
  have "met_resolution m' = Contested" if "m' \<in> set met" "met_live m' = rival" for m'
    using bspec [OF f(5) that(1)] bspec [OF f(5) f(6)] that(2) f(7,8) by simp
  then have apart: "rival \<notin> set (beaten met)" using beaten_member by fastforce
  have "rival \<in> set (map met_live met)" using f(6,8) by simp
  then have live: "rival \<in> set (claims db)" "status rival = Live"
    unfolding f(3) by (simp_all add: conflicting_def)
  then have "rival \<in> set (claims db')" unfolding f(4) using apart by (auto intro: rev_image_eqI)
  moreover have "getClaim db' (claim_id c) = Some c"
    by (rule getClaim_known [OF f(2)]) (simp add: f(4))
  moreover have "resolveConflict (toConflict False c) (toConflict False rival) = Inr Contested"
    using f(5,6,7,8) by fastforce
  from contested_tier [OF this]
  have "authority rival = authority c" "AUTHORITY_TIERS (authority c) \<le> 2"
    by (auto simp: toConflict_def tier_inj)
  ultimately show ?thesis using f(1) live(2) by blast
qed

lemma filing_ends:
  assumes "fileClaim io db c = Inr (db', res)" "wfStore db" "coherent c" "status c = Live"
    and "r \<in> set (claims db)" "r' \<in> set (claims db')" "claim_id r' = claim_id r" "status r' \<noteq> status r"
  shows "((\<exists>won. res = StoredClaim c won) \<or> (\<exists>rival. res = ContestedClaim c rival)) \<and>
    status r = Live \<and> status r' = Superseded \<and> superseded_by r' = Some (claim_id c) \<and>
    AUTHORITY_TIERS (authority r) \<le> AUTHORITY_TIERS (authority c)"
proof -
  obtain s where s: "(\<exists>won. res = StoredClaim s won) \<or> (\<exists>rival. res = ContestedClaim s rival)"
  proof (cases res)
    case (SkippedClaim s)
    with filed_skipped [of io db c db' s] assms(1-4)
    have f: "claims db' = claims db @ [s]" "wfStore db'" by blast+
    then have "r' = r" using assms(5-7) by (intro only_claim [OF f(2)]) simp_all
    then show ?thesis using assms(8) by simp
  next
    case (DuplicateClaim d)
    then show ?thesis using fileClaim_result [OF assms(1)] by simp
  qed (use that in blast)+
  then obtain met until where f: "s = c" "wfStore db'"
      "map met_live met = filter (conflicting io db c) (claims db)"
      "claims db' = map (\<lambda>x. if x \<in> set (beaten met) then ended (claim_id c) (io_now io) (until x) x else x)
        (claims db) @ [c]"
      "\<forall>m\<in>set met. resolveConflict (toConflict False c) (toConflict False (met_live m)) = Inr (met_resolution m)"
    using filed_live [OF assms(1-3), of s] by blast
  have row: "r' = (if r \<in> set (beaten met) then ended (claim_id c) (io_now io) (until r) r else r)"
    by (rule filed_row [OF f(2,4) _ assms(5-7)]) simp
  then have hit: "r \<in> set (beaten met)" "r' = ended (claim_id c) (io_now io) (until r) r"
    using assms(8) by (auto split: if_splits)
  obtain m rule where m: "m \<in> set met" "met_live m = r" "met_resolution m = Supersede Incoming rule"
    using beaten_member [OF hit(1)] by blast
  then have "r \<in> set (map met_live met)" by auto
  then have live: "status r = Live" unfolding f(3) by (simp add: conflicting_def)
  have "resolveConflict (toConflict False c) (toConflict False r) = Inr (Supersede Incoming rule)"
    using f(5) m by fastforce
  from superseded_tier [OF this] live
  have "AUTHORITY_TIERS (authority r) \<le> AUTHORITY_TIERS (authority c)"
    by (simp add: toConflict_def)
  then show ?thesis using s f(1) live hit(2) by (auto simp: ended_def)
qed

section \<open>Properties\<close>

text \<open>C8: whatever sequence of insertions, corrections, undos, skips, revivals and purges runs
  over the tables, they stay coherent - identities are unique, a live claim is neither
  retracted nor superseded, a superseded one names its winner, every claim cites an event -
  and no claim is lost or rewritten: its content stays, its label is never weakened, its
  citations and its corroboration never shrink.\<close>

theorem claims_stay_coherent:
  assumes "wfStore db"
  shows "wfStore (foldl storeStep db ops) \<and>
    (\<forall>c\<in>set (claims db). \<exists>c'. getClaim (foldl storeStep db ops) (claim_id c) = Some c' \<and>
       content c' = content c \<and> claim_sensitivity c \<le> claim_sensitivity c' \<and>
       set (provenance c) \<subseteq> set (provenance c') \<and> corroboration c \<le> corroboration c')"
proof
  show wf: "wfStore (foldl storeStep db ops)"
    by (rule claim_store.run_inv [OF list_all_every assms])
  have "grown db (foldl storeStep db ops)"
    by (rule claim_store.run_progress [OF list_all_every assms])
  then obtain rows added where rows: "claims (foldl storeStep db ops) = rows @ added"
      "list_all2 later (claims db) rows"
    by (auto simp: grown_def)
  show "\<forall>c\<in>set (claims db). \<exists>c'. getClaim (foldl storeStep db ops) (claim_id c) = Some c' \<and>
       content c' = content c \<and> claim_sensitivity c \<le> claim_sensitivity c' \<and>
       set (provenance c) \<subseteq> set (provenance c') \<and> corroboration c \<le> corroboration c'"
  proof
    fix c assume "c \<in> set (claims db)"
    then obtain c' where c': "c' \<in> set rows" "later c c'"
      using rows(2) by (metis in_set_conv_nth list_all2_conv_all_nth)
    then have "getClaim (foldl storeStep db ops) (claim_id c) = Some c'"
      using getClaim_known [OF wf, of c'] later_id [OF c'(2)] by (simp add: rows(1))
    then show "\<exists>c'. getClaim (foldl storeStep db ops) (claim_id c) = Some c' \<and>
       content c' = content c \<and> claim_sensitivity c \<le> claim_sensitivity c' \<and>
       set (provenance c) \<subseteq> set (provenance c') \<and> corroboration c \<le> corroboration c'"
      using c'(2) by (auto simp: later_def)
  qed
qed

text \<open>C9: an insertion settles what it meets.  A claim that is stored conflicts with no live
  claim of the reader's view afterwards; a contested one and its rival are both of a tier at
  most connector evidence and of the same; one that is skipped changes nothing but its own
  row, and a live claim of no lower authority stands against it; a duplicate adds no row and
  moves no claim.\<close>

theorem insertion_settles:
  assumes "wfStore db" "insertClaim io db i nominees = Inr (db', res)"
  shows "case res of
      StoredClaim c won \<Rightarrow>
        getClaim db' (claim_id c) = Some c \<and> status c = Live \<and>
        list_all (\<lambda>r. \<not> conflicting io db' c r) (claims db')
    | ContestedClaim c rival \<Rightarrow>
        getClaim db' (claim_id c) = Some c \<and> status c = Live \<and> rival \<in> set (claims db') \<and>
        status rival = Live \<and> authority rival = authority c \<and> AUTHORITY_TIERS (authority c) \<le> 2
    | SkippedClaim c \<Rightarrow>
        claims db' = claims db @ [c] \<and> status c = Skipped \<and>
        list_ex (\<lambda>r. status r = Live \<and> claim_key r = claim_key c \<and>
          AUTHORITY_TIERS (authority c) \<le> AUTHORITY_TIERS (authority r)) (claims db)
    | DuplicateClaim c \<Rightarrow>
        map (\<lambda>r. (claim_id r, status r, superseded_by r, valid_to r)) (claims db') =
        map (\<lambda>r. (claim_id r, status r, superseded_by r, valid_to r)) (claims db)"
proof -
  from insertClaim_filed [OF assms(2,1)]
  show ?thesis
  proof (elim disjE conjE exE)
    assume "case res of DuplicateClaim d \<Rightarrow> True | _ \<Rightarrow> False" "settledAlike db db'"
    then show ?thesis by (cases res) (simp_all add: settledAlike_def)
  next
    fix c assume c: "coherent c" "status c = Live" "fileClaim io db c = Inr (db', res)"
    show ?thesis
    proof (cases res)
      case (SkippedClaim s)
      then show ?thesis
        using filed_skipped [of io db c db' s] c assms(1) by (auto simp: list_ex_iff conflicting_def)
    next
      case (DuplicateClaim d)
      then show ?thesis using fileClaim_result [OF c(3)] by simp
    next
      case (StoredClaim s won)
      then show ?thesis using stored_settles [of io db c db' s won] assms(1) c by (simp add: list_all_iff)
    next
      case (ContestedClaim s rival)
      then show ?thesis using contested_rival [of io db c db' s rival] assms(1) c by simp
    qed
  qed
qed

text \<open>C10: authority stands.  Whatever an insertion ends was live, is superseded by the
  claim that was filed, and has no higher authority; so nothing a model extracted, unless the
  owner's own event attests it, ever ends what the owner authored or corrected.\<close>

theorem authority_stands:
  assumes "wfStore db" "insertClaim io db i nominees = Inr (db', res)"
    and "r \<in> set (claims db)" "getClaim db' (claim_id r) = Some r'" "status r' \<noteq> status r"
  shows "\<exists>c. (case res of StoredClaim s won \<Rightarrow> s = c | ContestedClaim s rival \<Rightarrow> s = c | _ \<Rightarrow> False) \<and>
    status r = Live \<and> status r' = Superseded \<and> superseded_by r' = Some (claim_id c) \<and>
    AUTHORITY_TIERS (authority r) \<le> AUTHORITY_TIERS (authority c) \<and>
    (if in_producer i \<in> {Llm, Model} \<and> \<not> ownerAttested db i
     then authority r \<noteq> OwnerAuthored \<and> authority r \<noteq> OwnerCorrection else True)"
proof -
  note r' = getClaim_member [OF assms(4)]
  obtain c where c: "incomingClaim io db i = Inr c" "coherent c" "status c = Live"
      "fileClaim io db c = Inr (db', res)"
    using insertClaim_filed [OF assms(2,1)] settledAlike_status [OF _ assms(1,3) r'] assms(5) by blast
  note ends = filing_ends [OF c(4) assms(1) c(2,3) assms(3) r' assms(5)]
  have "authority r \<noteq> OwnerAuthored \<and> authority r \<noteq> OwnerCorrection"
    if "in_producer i \<in> {Llm, Model} \<and> \<not> ownerAttested db i"
    using model_ceiling [OF c(1)] that ends by auto
  then show ?thesis using ends by (intro exI [of _ c]) auto
qed

text \<open>C11: a correction retires its whole group and its undo restores it.  After
  \<open>supersedeLiveGroup\<close> no other live claim of the winner's key is visible; reinstating from the
  journal what the receipt superseded gives back every row as it was.\<close>

theorem group_supersession_undone:
  assumes "wfStore db" "supersedeLiveGroup db win stamp visible = Inr (db', ids)"
    and "list_all (\<lambda>s. sup_receipt_id s \<noteq> claim_id win) (supersessions db)"
  shows "(case claim_key win of
       None \<Rightarrow> True
     | Some key \<Rightarrow> list_all (\<lambda>c. claim_id c = claim_id win \<or> \<not> visible c) (liveByKey db' key (\<lambda>_. True))) \<and>
    (\<exists>db''. reinstateLosers db' (claim_id win) = Inr db'' \<and> claims db'' = claims db)"
proof
  show "\<exists>db''. reinstateLosers db' (claim_id win) = Inr db'' \<and> claims db'' = claims db"
    by (rule group_undone [OF assms])
  have member: "set (groupOf db win visible) \<subseteq> set (claims db)"
    using groupOf_facts(1) [OF assms(1)] by blast
  from supersedeAll_keeps [OF supersedeLiveGroup_Inr(3) [OF assms(2)] assms(1) member groupOf_facts(2) [OF assms(1)]]
  obtain until where rows: "claims db' = map (\<lambda>c. if c \<in> set (groupOf db win visible)
      then ended (claim_id win) stamp (until c) c else c) (claims db)"
    by blast
  show "(case claim_key win of
       None \<Rightarrow> True
     | Some key \<Rightarrow> list_all (\<lambda>c. claim_id c = claim_id win \<or> \<not> visible c) (liveByKey db' key (\<lambda>_. True)))"
    by (auto simp: list_all_iff list_ex_iff liveByKey_def rows groupOf_def split: option.splits if_splits)
qed

text \<open>C12: the purge walk returns and reaches every claim.  Reading batches of 500 behind the
  last identity while it rewrites statuses, it marks exactly the claims a pass over all rows
  at once would: those without any cited event left as purged, those with some left as
  reduced, and it reports them.\<close>

theorem purge_walk_exact:
  assumes "wfStore db"
  shows "case markClaimsAfterPurge db stamp of (db', purged, reduced) \<Rightarrow>
    events db' = events db \<and> claims db' = map (afterPurge db stamp) (claims db) \<and>
    set purged = claim_id ` {c \<in> set (claims db). alive c \<and> remainingProvenanceCount db c = 0} \<and>
    set reduced = claim_id ` {c \<in> set (claims db). reducedBy db c}"
  using purge_finishes [of db stamp] assms
  by (auto simp: purgedTo_def wfStore_def split: prod.split)

text \<open>\<open>markClaimsPurged\<close> reads one page of 200 claims and never marks more: with more live claims
  than that, some keep a status their evidence no longer supports.\<close>

lemma markClaimsPurged_bounded: "length (snd (markClaimsPurged db stamp)) \<le> 200"
proof -
  have "length (snd (foldl (purgeOne stamp) acc rows)) \<le> length (snd acc) + length rows" for acc rows
  proof (induction rows arbitrary: acc)
    case (Cons c rows)
    have "length (snd (purgeOne stamp acc c)) \<le> length (snd acc) + 1"
      by (cases acc) (simp add: purgeOne_def)
    then show ?case using Cons.IH [of "purgeOne stamp acc c"] by simp
  qed simp
  from this [of "(db, [])"]
  have "length (snd (markClaimsPurged db stamp)) \<le>
      length (listClaims db (anyClaim\<lparr>opt_status := Some Live\<rparr>))"
    by (simp add: markClaimsPurged_def)
  also have "\<dots> \<le> 200" by (simp add: listClaims_def anyClaim_def)
  finally show ?thesis .
qed

section \<open>A small vault\<close>

definition demoIo :: ClaimsIo where
  "demoIo =
     \<lparr>io_store = None, io_visible = (\<lambda>_. True), io_allowed = (\<lambda>_. True), io_floor = (\<lambda>_ s. s),
      io_hash = (\<lambda>s. s), io_now = ''2026-01-02T00:00:00Z'', io_ulid = ''c2''\<rparr>"

definition demoEvent :: "string \<Rightarrow> bool \<Rightarrow> string \<Rightarrow> EventRow" where
  "demoEvent i native text =
     \<lparr>ev_id = i, ev_connector = ''kizuki.imap'', ev_record = i, ev_text = text, ev_self = False,
      ev_hint = Null, ev_native = native\<rparr>"

definition demoInput :: InsertClaimInput where
  "demoInput =
     \<lparr>in_kind = ClaimClaim, in_target = None, in_subject = Some ''person:ada'',
      in_predicate = Some ''employment.role'', in_object = Some ''engineer'', in_polarity = None,
      in_body = ''Ada is an engineer.'', in_frontmatter = [], in_provenance = [''e1''],
      in_subjects = None, in_producer = Deterministic, in_model_ref = None, in_confidence = 1,
      in_sensitivity = None, in_taint = None, in_valid_from = Some ''2025-01-01T00:00:00Z'',
      in_valid_to = None, in_claim_id = Some ''c1'', in_intent = None, in_relay_ceiling = None\<rparr>"

definition demoCorrection :: InsertClaimInput where
  "demoCorrection = demoInput\<lparr>in_object := Some ''painter'', in_body := ''Ada is a painter.'',
     in_provenance := [''e2''], in_producer := Owner, in_claim_id := None, in_intent := Some CorrectIntent\<rparr>"

definition demoStore :: ClaimsDb where
  "demoStore =
     \<lparr>events = [demoEvent ''e1'' False ''note'', demoEvent ''e2'' True ''Ada is a painter.''],
      claims = [], supersessions = [], retrieval_ops = [], proposals = [], erasure_pending = False,
      labels = \<lparr>connector_sensitivity = None, source_event_bindings = None\<rparr>\<rparr>"

definition demoFiled :: ClaimsDb where
  "demoFiled = (case insertClaim demoIo demoStore demoInput [] of Inr (db, res) \<Rightarrow> db | Inl e \<Rightarrow> demoStore)"

definition demoWinner :: Claim where
  "demoWinner = (hd (claims demoFiled))\<lparr>claim_id := ''w''\<rparr>"

lemma demo_filed:
  "map (\<lambda>c. (claim_id c, status c)) (claims demoFiled) = [(''c1'', Live)]"
  "list_all coherent (claims demoFiled)" "supersessions demoFiled = []"
  by code_simp+

lemma demoFiled_wf: "wfStore demoFiled"
proof -
  have "map claim_id (claims demoFiled) = map fst (map (\<lambda>c. (claim_id c, status c)) (claims demoFiled))"
    by simp
  then show ?thesis using demo_filed(2,3) unfolding demo_filed(1) by (simp add: wfStore_def)
qed

lemma demo_correction:
  "case insertClaim demoIo demoFiled demoCorrection [] of
     Inr (db, StoredClaim c won) \<Rightarrow>
       map status (claims db) = [Superseded, Live] \<and> getClaim db ''c1'' = Some (hd (claims db)) \<and>
       won = [(''c1'', R5)]
   | _ \<Rightarrow> False"
  by code_simp

lemma demo_corrected:
  obtains db c where "insertClaim demoIo demoFiled demoCorrection [] = Inr (db, StoredClaim c [(''c1'', R5)])"
    "map status (claims db) = [Superseded, Live]" "getClaim db ''c1'' = Some (hd (claims db))"
  using demo_correction by (auto split: sum.splits prod.splits InsertResult.splits)

lemma demo_group:
  "case supersedeLiveGroup demoFiled demoWinner ''2026-01-03T00:00:00Z'' (\<lambda>_. True) of
     Inr (db, ids) \<Rightarrow> ids = [''c1''] | _ \<Rightarrow> False"
  by code_simp

theorem claims_stay_coherent_witness:
  "wfStore (foldl storeStep demoFiled [InsertOp demoIo demoCorrection [], AfterPurgeOp ''2026-01-03T00:00:00Z''])"
  using claims_stay_coherent [OF demoFiled_wf] by blast

theorem insertion_settles_witness:
  "\<exists>db' c won. insertClaim demoIo demoFiled demoCorrection [] = Inr (db', StoredClaim c won) \<and>
     list_all (\<lambda>r. \<not> conflicting demoIo db' c r) (claims db')"
proof -
  obtain db c where run: "insertClaim demoIo demoFiled demoCorrection [] = Inr (db, StoredClaim c [(''c1'', R5)])"
    by (rule demo_corrected)
  from insertion_settles [OF demoFiled_wf run] run show ?thesis by auto
qed

theorem authority_stands_witness:
  "\<exists>db' c won. insertClaim demoIo demoFiled demoCorrection [] = Inr (db', StoredClaim c won) \<and>
     superseded_by (hd (claims db')) = Some (claim_id c)"
proof -
  obtain db c where run: "insertClaim demoIo demoFiled demoCorrection [] = Inr (db, StoredClaim c [(''c1'', R5)])"
      "map status (claims db) = [Superseded, Live]" "getClaim db ''c1'' = Some (hd (claims db))"
    by (rule demo_corrected)
  obtain r where r: "claims demoFiled = [r]" "claim_id r = ''c1''" "status r = Live"
    using demo_filed(1) by auto
  have "status (hd (claims db)) \<noteq> status r" using run(2) r(3) by auto
  then show ?thesis
    using authority_stands [OF demoFiled_wf run(1), of r "hd (claims db)"] run r by auto
qed

theorem group_supersession_undone_witness:
  "\<exists>db' ids db''. supersedeLiveGroup demoFiled demoWinner ''2026-01-03T00:00:00Z'' (\<lambda>_. True) = Inr (db', ids) \<and>
     reinstateLosers db' ''w'' = Inr db'' \<and> claims db'' = claims demoFiled"
proof -
  obtain db ids where run: "supersedeLiveGroup demoFiled demoWinner ''2026-01-03T00:00:00Z'' (\<lambda>_. True) = Inr (db, ids)"
    using demo_group by (auto split: sum.splits prod.splits)
  have "claim_id demoWinner = ''w''" by (simp add: demoWinner_def)
  then show ?thesis
    using group_supersession_undone [OF demoFiled_wf run] demo_filed(3) run by auto
qed

theorem purge_walk_exact_witness:
  "map status (claims (fst (markClaimsAfterPurge (demoFiled\<lparr>events := []\<rparr>) ''2026-01-03T00:00:00Z''))) = [Purged]"
proof -
  have "wfStore (demoFiled\<lparr>events := []\<rparr>)" using demoFiled_wf by (simp add: wfStore_def)
  from purge_walk_exact [OF this, of "''2026-01-03T00:00:00Z''"]
  have "claims (fst (markClaimsAfterPurge (demoFiled\<lparr>events := []\<rparr>) ''2026-01-03T00:00:00Z'')) =
      map (afterPurge (demoFiled\<lparr>events := []\<rparr>) ''2026-01-03T00:00:00Z'') (claims demoFiled)"
    by (auto split: prod.splits)
  moreover obtain r where "claims demoFiled = [r]" "status r = Live" using demo_filed(1) by auto
  ultimately show ?thesis
    by (simp add: afterPurge_def alive_def remainingProvenanceCount_def countEvents_def)
qed

end
