(* ===== verification/Canon_Store.thy ===== *)
theory Canon_Store
  imports Claim_Insert Page_Schema
begin

text \<open>
  \<open>packages/core/src/canon/store.ts\<close> and \<open>receipts.ts\<close>: the canon store as the writer sees
  it - the receipts, the index of pages, the bindings of keys to pages, and the files of the
  vault.

  The model covers ordinary receipts, not those of typed world pages.  Receipts are rows the
  reader accepts.  A file of the vault is its text; a directory in its place, a broken link
  and the rest of the file system are left out, and so is the registry of machine images that
  is kept beside the receipts.  The hash and the reading of dates are functions of the
  runtime.  The answers of other components - source grants, the ceiling on pages, the
  budget, the projections still pending, the bindings of source deletions and the walk over
  the vault - are fields of \<open>CanonIo\<close>.
\<close>

section \<open>Tables\<close>

datatype ReceiptKind = WriteReceipt | RevertReceipt | PurgeRewrite

datatype PageAction = CreatePage | EditPage | ArchivePage

datatype Writer = LoopWriter | CorrectionWriter | RevertWriter | ImportWriter

datatype RetrievalAction = Upsert | Remove

record PageChoice =
  pc_page_id :: string
  pc_rel_path :: string
  pc_authority :: AuthorityTier
  pc_created_at :: string

record RetrievalOpRef =
  ref_store :: string
  ref_op :: RetrievalAction
  ref_doc :: string

record CanonReceipt =
  cr_receipt_id :: string
  cr_kind :: ReceiptKind
  cr_claim_ids :: "string list"
  cr_page_path :: string
  cr_page_action :: PageAction
  cr_before_hash :: "string option"
  cr_after_hash :: string
  cr_archive_path :: "string option"
  cr_writer :: Writer
  cr_producer :: Producer
  cr_model_ref :: "string option"
  cr_authority :: AuthorityTier
  cr_confidence :: rat
  cr_sensitivity :: Sensitivity
  cr_taint :: ClaimTaint
  cr_provenance :: "string list"
  cr_superseded :: "(string \<times> string option) list"
  cr_candidates :: "PageChoice list"
  cr_retrieval_ops :: "RetrievalOpRef list"
  cr_reverts :: "string option"
  cr_reverted_by :: "string option"
  cr_at :: string

record PageIndexEntry =
  pi_page_id :: string
  pi_rel_path :: string
  pi_subject_key :: "string option"
  pi_last_receipt :: "string option"
  pi_last_hash :: string

type_synonym Vault = "string \<Rightarrow> string option"

text \<open>The JSONL file of receipts is \<open>receipt_log\<close>.  \<open>graph_pages\<close> is the registry of page
  paths, \<open>None\<close> before it was filled.\<close>

record CanonDb =
  tables :: ClaimsDb
  canon_receipts :: "CanonReceipt list"
  page_index :: "PageIndexEntry list"
  claim_bindings :: "(string \<times> string \<times> string) list"
  graph_pages :: "(string \<times> string) list option"
  receipt_log :: "CanonReceipt list"
  vault :: Vault

datatype UndoErrorCode =
    ReceiptUnknown | AlreadyReverted | PageChanged | ArchiveMissing | NotUndoable

datatype CanonRecoveryReason =
    RecoveryProjectionPending | HistoricalOrphan | RecoveryPageChanged | RecoveryArchiveChanged
  | PredecessorChanged | ReceiptChanged | IntentInvalid

datatype CanonError =
    WriteError CanonWriteError | UndoError UndoErrorCode | RecoveryError CanonRecoveryReason
  | SyntaxError PageSyntax | Unwritable PageUnwritable | StoreFailure StoreError
  | SourceDenied | TombstoneStale | BudgetRefused | ArchiveExists | CanonUnreadable

text \<open>What the operations are given.  \<open>hash_bytes\<close> is SHA-256 and \<open>date_parse\<close> is \<open>Date.parse\<close>;
  \<open>owned\<close> tells whether the caller holds the files of the vault, \<open>find_page\<close> is the walk over it
  that looks for an identity.  \<open>derive_allowed\<close> is \<open>requireSourceEvents\<close> and \<open>source_floor\<close> the
  sensitivity floor of the grant of an event's source (private without a grant, \<open>None\<close> for an
  event without a source or a store without source policies).  \<open>capacity\<close> refuses a write for
  which the vault has no room, \<open>chargeable\<close> one the budget has no room for.
  \<open>projection_pending\<close> holds of a page whose projection is not settled, \<open>tombstone_bound\<close> and
  \<open>tombstone_current\<close> of a claim that deletes a page on behalf of its source.\<close>

record CanonIo =
  hash_bytes :: "string \<Rightarrow> string"
  date_parse :: "string \<Rightarrow> int option"
  owned :: bool
  find_page :: "Vault \<Rightarrow> string \<Rightarrow> (string \<times> string) option"
  retrieval_store :: "string option"
  derive_allowed :: "string list \<Rightarrow> bool"
  source_floor :: "string \<Rightarrow> Sensitivity option"
  capacity :: "bool \<Rightarrow> int \<Rightarrow> int \<Rightarrow> CanonWriteError option"
  chargeable :: "CanonReceipt \<Rightarrow> bool"
  projection_pending :: "string \<Rightarrow> bool"
  tombstone_bound :: "Claim \<Rightarrow> bool"
  tombstone_current :: "Claim \<Rightarrow> bool"

section \<open>Reading pages\<close>

record ExistingPage =
  ex_rel_path :: string
  ex_content :: string
  ex_hash :: string
  ex_page :: VaultPage

fun pathOk :: "PathError + 'a \<Rightarrow> CanonError + 'a" where
  "pathOk (Inl e) = Inl (WriteError PathInvalid)"
| "pathOk (Inr x) = Inr x"

fun parsedPage :: "PageSyntax + 'a \<Rightarrow> CanonError + 'a" where
  "parsedPage (Inl e) = Inl (SyntaxError e)"
| "parsedPage (Inr x) = Inr x"

fun written :: "PageUnwritable + 'a \<Rightarrow> CanonError + 'a" where
  "written (Inl e) = Inl (Unwritable e)"
| "written (Inr x) = Inr x"

fun stored :: "StoreError + 'a \<Rightarrow> CanonError + 'a" where
  "stored (Inl e) = Inl (StoreFailure e)"
| "stored (Inr x) = Inr x"

lemma lifted_Inr [result_simps]:
  "pathOk m = Inr y \<longleftrightarrow> m = Inr y" "parsedPage n = Inr y \<longleftrightarrow> n = Inr y"
  "written u = Inr y \<longleftrightarrow> u = Inr y" "stored v = Inr y \<longleftrightarrow> v = Inr y"
proof -
  show "pathOk m = Inr y \<longleftrightarrow> m = Inr y" by (cases m) simp_all
  show "parsedPage n = Inr y \<longleftrightarrow> n = Inr y" by (cases n) simp_all
  show "written u = Inr y \<longleftrightarrow> u = Inr y" by (cases u) simp_all
  show "stored v = Inr y \<longleftrightarrow> v = Inr y" by (cases v) simp_all
qed

definition readPage :: "CanonIo \<Rightarrow> CanonDb \<Rightarrow> string \<Rightarrow> CanonError + ExistingPage option" where
  "readPage io db relPath =
     andThen (pathOk (assertStoredPageRelPath (Str relPath))) (\<lambda>_.
       case vault db relPath of
         None \<Rightarrow> Inr None
       | Some text \<Rightarrow>
           andThen (parsedPage (parseFrontmatter text)) (\<lambda>page.
             Inr (Some \<lparr>ex_rel_path = relPath, ex_content = text, ex_hash = hash_bytes io text,
               ex_page = page\<rparr>)))"

text \<open>The identity a page declares: a text that is not empty.\<close>

definition declaredId :: "VaultPage \<Rightarrow> string option" where
  "declaredId page =
     (case field (page_data page) ''id'' of Str i \<Rightarrow> if i = [] then None else Some i | _ \<Rightarrow> None)"

section \<open>Receipts\<close>

definition getCanonReceipt :: "CanonDb \<Rightarrow> string \<Rightarrow> CanonReceipt option" where
  "getCanonReceipt db i = List.find (\<lambda>r. cr_receipt_id r = i) (canon_receipts db)"

text \<open>\<open>ORDER BY at, receipt_id\<close>\<close>

definition byTime :: "CanonReceipt list \<Rightarrow> CanonReceipt list" where
  "byTime = sort_key (\<lambda>r. (cr_at r, cr_receipt_id r))"

definition countCanonReceipts :: "CanonDb \<Rightarrow> string option \<Rightarrow> nat" where
  "countCanonReceipts db after =
     (case after of
        None \<Rightarrow> length (canon_receipts db)
      | Some i \<Rightarrow> length (filter (\<lambda>r. cr_receipt_id r > i) (canon_receipts db)))"

record ListReceiptsOptions =
  lr_page_path :: "string option"
  lr_writer :: "Writer option"
  lr_since :: "string option"
  lr_newest_first :: bool
  lr_exclude_reverted :: bool
  lr_only_reverted :: bool
  lr_only_ambiguous :: bool
  lr_only_contested :: bool
  lr_limit :: "int option"
  lr_offset :: "int option"

definition anyReceipt :: ListReceiptsOptions where
  "anyReceipt = \<lparr>lr_page_path = None, lr_writer = None, lr_since = None, lr_newest_first = False,
     lr_exclude_reverted = False, lr_only_reverted = False, lr_only_ambiguous = False,
     lr_only_contested = False, lr_limit = None, lr_offset = None\<rparr>"

text \<open>The rows of \<open>EXISTS\<close>: a live keyed claim of the receipt beside a live claim of its key,
  grouped by key, more than one row in a group.\<close>

definition contestedReceipt :: "CanonDb \<Rightarrow> CanonReceipt \<Rightarrow> bool" where
  "contestedReceipt db r \<longleftrightarrow>
     (let rows = claims (tables db);
          own = filter (\<lambda>c. receipt_id c = Some (cr_receipt_id r) \<and> claim_key c \<noteq> None \<and> status c = Live) rows;
          living = filter (\<lambda>c. status c = Live) rows
      in list_ex (\<lambda>c. length (filter (\<lambda>d. claim_key d = claim_key c) own) *
           length (filter (\<lambda>l. claim_key l = claim_key c) living) > 1) own)"

definition receiptSelected :: "CanonDb \<Rightarrow> ListReceiptsOptions \<Rightarrow> CanonReceipt \<Rightarrow> bool" where
  "receiptSelected db opts r \<longleftrightarrow>
     (case lr_page_path opts of None \<Rightarrow> True | Some p \<Rightarrow> cr_page_path r = p) \<and>
     (case lr_writer opts of None \<Rightarrow> True | Some w \<Rightarrow> cr_writer r = w) \<and>
     (case lr_since opts of None \<Rightarrow> True | Some t \<Rightarrow> t \<le> cr_at r) \<and>
     (lr_exclude_reverted opts \<longrightarrow> cr_reverted_by r = None) \<and>
     (lr_only_reverted opts \<longrightarrow> cr_reverted_by r \<noteq> None) \<and>
     (lr_only_ambiguous opts \<longrightarrow> cr_candidates r \<noteq> []) \<and>
     (lr_only_contested opts \<longrightarrow> contestedReceipt db r)"

definition listCanonReceipts :: "CanonDb \<Rightarrow> ListReceiptsOptions \<Rightarrow> CanonReceipt list" where
  "listCanonReceipts db opts =
     (let limit = min (max (case lr_limit opts of None \<Rightarrow> 200 | Some n \<Rightarrow> n) 1) 10000;
          offset = max (case lr_offset opts of None \<Rightarrow> 0 | Some n \<Rightarrow> n) 0;
          rows = byTime (filter (receiptSelected db opts) (canon_receipts db));
          ordered = (if lr_newest_first opts then rev rows else rows)
      in take (nat limit) (drop (nat offset) ordered))"

definition afterMark :: "string \<Rightarrow> string \<Rightarrow> CanonReceipt \<Rightarrow> bool" where
  "afterMark stamp i r \<longleftrightarrow> cr_at r > stamp \<or> (cr_at r = stamp \<and> cr_receipt_id r > i)"

text \<open>Later receipts of the page that were not reverted, newest first.\<close>

definition laterReceiptsForPage :: "CanonDb \<Rightarrow> string \<Rightarrow> string \<Rightarrow> string \<Rightarrow> CanonReceipt list" where
  "laterReceiptsForPage db pagePath stamp i =
     rev (byTime (filter (\<lambda>r. cr_page_path r = pagePath \<and> cr_reverted_by r = None \<and> afterMark stamp i r)
       (canon_receipts db)))"

definition nextReceiptForPage :: "CanonDb \<Rightarrow> string \<Rightarrow> string \<Rightarrow> string \<Rightarrow> CanonReceipt option" where
  "nextReceiptForPage db pagePath stamp i =
     (case byTime (filter (\<lambda>r. cr_page_path r = pagePath \<and> afterMark stamp i r) (canon_receipts db)) of
        [] \<Rightarrow> None
      | r # _ \<Rightarrow> Some r)"

definition pageIndexById :: "CanonDb \<Rightarrow> string \<Rightarrow> PageIndexEntry option" where
  "pageIndexById db i = List.find (\<lambda>e. pi_page_id e = i) (page_index db)"

definition pageIndexByPath :: "CanonDb \<Rightarrow> string \<Rightarrow> PageIndexEntry option" where
  "pageIndexByPath db path = List.find (\<lambda>e. pi_rel_path e = path) (page_index db)"

definition pagesForSubject :: "CanonDb \<Rightarrow> string \<Rightarrow> PageIndexEntry list" where
  "pagesForSubject db key =
     take 64 (sort_key pi_page_id (filter (\<lambda>e. pi_subject_key e = Some key) (page_index db)))"

text \<open>The receipt the index names for the page, if it is one of that page; else the last one by
  its own time.\<close>

definition lastReceiptOf :: "CanonDb \<Rightarrow> string \<Rightarrow> CanonReceipt option" where
  "lastReceiptOf db pagePath =
     (case rev (byTime (filter (\<lambda>r. cr_page_path r = pagePath) (canon_receipts db))) of
        [] \<Rightarrow> None
      | r # _ \<Rightarrow> Some r)"

definition latestReceiptForPage :: "CanonDb \<Rightarrow> string \<Rightarrow> CanonReceipt option" where
  "latestReceiptForPage db pagePath =
     (case Option.bind (Option.bind (pageIndexByPath db pagePath) pi_last_receipt) (getCanonReceipt db) of
        Some r \<Rightarrow> if cr_page_path r = pagePath then Some r else lastReceiptOf db pagePath
      | None \<Rightarrow> lastReceiptOf db pagePath)"

definition receiptsForClaim :: "CanonDb \<Rightarrow> string \<Rightarrow> CanonReceipt list" where
  "receiptsForClaim db claimId =
     concat (map (\<lambda>r. replicate (count_list (cr_claim_ids r) claimId) r) (byTime (canon_receipts db)))"

section \<open>Writing\<close>

definition insertReceiptRow :: "CanonReceipt \<Rightarrow> CanonDb \<Rightarrow> CanonError + CanonDb" where
  "insertReceiptRow r db =
     guard (getCanonReceipt db (cr_receipt_id r) = None) (RecoveryError ReceiptChanged)
       (Inr (db\<lparr>canon_receipts := canon_receipts db @ [r]\<rparr>))"

definition appendReceiptLine :: "CanonReceipt \<Rightarrow> CanonDb \<Rightarrow> CanonDb" where
  "appendReceiptLine r db = db\<lparr>receipt_log := receipt_log db @ [r]\<rparr>"

definition mergeEntry :: "PageIndexEntry \<Rightarrow> PageIndexEntry \<Rightarrow> PageIndexEntry" where
  "mergeEntry new old =
     old\<lparr>pi_rel_path := pi_rel_path new,
        pi_subject_key := (case pi_subject_key new of None \<Rightarrow> pi_subject_key old | Some k \<Rightarrow> Some k),
        pi_last_receipt := pi_last_receipt new, pi_last_hash := pi_last_hash new\<rparr>"

definition upsertPageIndex :: "PageIndexEntry \<Rightarrow> CanonDb \<Rightarrow> CanonDb" where
  "upsertPageIndex e db =
     (let rest = filter (\<lambda>r. \<not> (pi_rel_path r = pi_rel_path e \<and> pi_page_id r \<noteq> pi_page_id e)) (page_index db)
      in db\<lparr>page_index :=
           (if list_ex (\<lambda>r. pi_page_id r = pi_page_id e) rest
            then map (\<lambda>r. if pi_page_id r = pi_page_id e then mergeEntry e r else r) rest
            else rest @ [e])\<rparr>)"

definition deletePageIndex :: "string \<Rightarrow> CanonDb \<Rightarrow> CanonDb" where
  "deletePageIndex path db = db\<lparr>page_index := filter (\<lambda>r. pi_rel_path r \<noteq> path) (page_index db)\<rparr>"

definition markReceiptReverted :: "string \<Rightarrow> string \<Rightarrow> CanonDb \<Rightarrow> CanonDb" where
  "markReceiptReverted i revertId db =
     db\<lparr>canon_receipts := map (\<lambda>r. if cr_receipt_id r = i then r\<lparr>cr_reverted_by := Some revertId\<rparr> else r)
          (canon_receipts db)\<rparr>"

section \<open>The index and the receipts\<close>

datatype IndexFailure = ReceiptMissing | PathMismatch | HashMismatch

definition inspectEntry :: "CanonDb \<Rightarrow> PageIndexEntry \<Rightarrow> IndexFailure list" where
  "inspectEntry db e =
     (case pi_last_receipt e of
        None \<Rightarrow> []
      | Some i \<Rightarrow>
          (case getCanonReceipt db i of
             None \<Rightarrow> [ReceiptMissing]
           | Some r \<Rightarrow>
               (if cr_page_path r \<noteq> pi_rel_path e then [PathMismatch] else []) @
               (if cr_after_hash r \<noteq> pi_last_hash e then [HashMismatch] else [])))"

definition inspectPageIndex :: "CanonDb \<Rightarrow> IndexFailure list" where
  "inspectPageIndex db = concat (map (inspectEntry db) (page_index db))"

text \<open>The subject of the first claim of the last receipt that produced these bytes, before a
  given receipt if one is given; else what the page declares.\<close>

definition boundSubject :: "CanonDb \<Rightarrow> CanonReceipt \<Rightarrow> string option" where
  "boundSubject db r =
     (case cr_claim_ids r of
        [] \<Rightarrow> None
      | i # _ \<Rightarrow> Option.bind (getClaim (tables db) i) subject)"

definition pageSubjectKey ::
  "CanonDb \<Rightarrow> string \<Rightarrow> string \<Rightarrow> (string \<times> js) list \<Rightarrow> (string \<times> string) option \<Rightarrow> string option" where
  "pageSubjectKey db relPath contentHash entries mark =
     (let (stamp, i) = (case mark of None \<Rightarrow> ([], []) | Some b \<Rightarrow> b);
          earlier = (\<lambda>r. stamp = [] \<or> cr_at r < stamp \<or> (cr_at r = stamp \<and> cr_receipt_id r < i));
          rows = rev (byTime (filter (\<lambda>r. cr_page_path r = relPath \<and> cr_after_hash r = contentHash \<and>
            boundSubject db r \<noteq> None \<and> earlier r) (canon_receipts db)))
      in case rows of
           r # _ \<Rightarrow> boundSubject db r
         | [] \<Rightarrow> (case field entries ''x-subject-id'' of Str s \<Rightarrow> if s = [] then None else Some s | _ \<Rightarrow> None))"

text \<open>What the walk over the vault reports: the pages, the skipped files with their codes, and
  whether it stopped early or met a file it cannot pass over.\<close>

record VaultReport =
  rep_pages :: "(string \<times> string \<times> (string \<times> js) list \<times> string) list"
  rep_skipped :: "(string \<times> string) list"
  rep_incomplete :: bool

type_synonym rebuild_state = "CanonDb \<times> string list \<times> nat"

definition putPage :: "rebuild_state \<Rightarrow> string \<times> string \<times> (string \<times> js) list \<times> string \<Rightarrow> rebuild_state" where
  "putPage st page =
     (let (db, indexed, n) = st; (pageId, relPath, entries, contentHash) = page;
          latest = latestReceiptForPage db relPath
      in if pageId \<in> set indexed then st
         else (upsertPageIndex
                 \<lparr>pi_page_id = pageId, pi_rel_path = relPath,
                  pi_subject_key = pageSubjectKey db relPath contentHash entries None,
                  pi_last_receipt = map_option cr_receipt_id latest,
                  pi_last_hash = (case latest of None \<Rightarrow> contentHash | Some r \<Rightarrow> cr_after_hash r)\<rparr> db,
               pageId # indexed, n + 1))"

definition putSkipped :: "CanonIo \<Rightarrow> rebuild_state \<Rightarrow> string \<times> string \<Rightarrow> CanonError + rebuild_state" where
  "putSkipped io st entry =
     (let (code, relPath) = entry
      in if code \<noteq> ''invalid'' then Inr st
         else andThen (readPage io (fst st) relPath) (\<lambda>existing.
                case existing of
                  None \<Rightarrow> Inr st
                | Some e \<Rightarrow>
                    Inr (case declaredId (ex_page e) of
                           None \<Rightarrow> st
                         | Some i \<Rightarrow> putPage st (i, relPath, page_data (ex_page e), ex_hash e))))"

definition rebuildPageIndex :: "CanonIo \<Rightarrow> CanonDb \<Rightarrow> VaultReport \<Rightarrow> CanonError + CanonDb \<times> nat \<times> nat" where
  "rebuildPageIndex io db report =
     guard (\<not> rep_incomplete report) CanonUnreadable
       (andThen (foldM (putSkipped io) (foldl putPage (db\<lparr>page_index := []\<rparr>, [], 0) (rep_pages report))
          (rep_skipped report)) (\<lambda>(db', _, n). Inr (db', n, length (rep_skipped report))))"

section \<open>The audit list\<close>

text \<open>\<open>packages/core/src/canon/audit.ts\<close>\<close>

record AuditOptions =
  ao_since :: "string option"
  ao_page :: "string option"
  ao_writer :: "Writer option"
  ao_contested :: bool
  ao_ambiguous :: bool
  ao_reverted :: "bool option"
  ao_limit :: "int option"
  ao_offset :: "int option"

record AuditReceipt =
  au_receipt :: CanonReceipt
  au_contested :: bool
  au_ambiguous :: bool

definition liveContestedKeys :: "CanonDb \<Rightarrow> string list" where
  "liveContestedKeys db =
     (let keys = List.map_filter claim_key (filter (\<lambda>c. status c = Live) (claims (tables db)))
      in filter (\<lambda>k. count_list keys k > 1) (remdups keys))"

definition claimKeysForReceipt :: "CanonDb \<Rightarrow> string \<Rightarrow> string list" where
  "claimKeysForReceipt db i =
     List.map_filter claim_key (filter (\<lambda>c. receipt_id c = Some i) (claims (tables db)))"

definition auditQuery :: "AuditOptions \<Rightarrow> ListReceiptsOptions" where
  "auditQuery opts =
     \<lparr>lr_page_path = ao_page opts, lr_writer = ao_writer opts, lr_since = ao_since opts,
      lr_newest_first = True, lr_exclude_reverted = (ao_reverted opts = Some False),
      lr_only_reverted = (ao_reverted opts = Some True), lr_only_ambiguous = ao_ambiguous opts,
      lr_only_contested = ao_contested opts,
      lr_limit = Some (case ao_limit opts of None \<Rightarrow> 5000 | Some n \<Rightarrow> n), lr_offset = ao_offset opts\<rparr>"

definition listAuditReceipts :: "CanonDb \<Rightarrow> AuditOptions \<Rightarrow> AuditReceipt list" where
  "listAuditReceipts db opts =
     (let contested = liveContestedKeys db
      in map (\<lambda>r. \<lparr>au_receipt = r,
             au_contested = list_ex (\<lambda>k. k \<in> set contested) (claimKeysForReceipt db (cr_receipt_id r)),
             au_ambiguous = (cr_candidates r \<noteq> [])\<rparr>)
           (listCanonReceipts db (auditQuery opts)))"

section \<open>Facts about receipts\<close>

lemma getCanonReceipt_member:
  assumes "getCanonReceipt db i = Some r"
  shows "r \<in> set (canon_receipts db)" "cr_receipt_id r = i"
  using assms by (auto simp: getCanonReceipt_def find_Some_iff)

lemma getCanonReceipt_None: "getCanonReceipt db i = None \<longleftrightarrow> i \<notin> cr_receipt_id ` set (canon_receipts db)"
  by (auto simp: getCanonReceipt_def find_None_iff)

lemma getCanonReceipt_known:
  assumes "distinct (map cr_receipt_id (canon_receipts db))" "r \<in> set (canon_receipts db)"
  shows "getCanonReceipt db (cr_receipt_id r) = Some r"
proof (cases "getCanonReceipt db (cr_receipt_id r)")
  case (Some s)
  with assms show ?thesis using getCanonReceipt_member [OF Some] by (auto simp: distinct_map dest: inj_onD)
qed (use assms in \<open>auto simp: getCanonReceipt_None\<close>)

lemma find_added: "List.find P (xs @ ys) = (case List.find P xs of None \<Rightarrow> List.find P ys | Some x \<Rightarrow> Some x)"
  by (induction xs) simp_all

lemma find_map: "List.find P (map f xs) = map_option f (List.find (P \<circ> f) xs)"
  by (induction xs) auto

lemma set_byTime [simp]: "set (byTime rs) = set rs"
  by (simp add: byTime_def)

lemma head_member: "(case xs of [] \<Rightarrow> None | x # rest \<Rightarrow> Some x) = Some y \<Longrightarrow> y \<in> set xs"
  by (cases xs) auto

lemma lastReceiptOf_Some: "lastReceiptOf db p = Some r \<Longrightarrow> r \<in> set (canon_receipts db) \<and> cr_page_path r = p"
  unfolding lastReceiptOf_def by (drule head_member) simp

lemma latestReceiptForPage_Some:
  assumes "latestReceiptForPage db p = Some r"
  shows "r \<in> set (canon_receipts db)" "cr_page_path r = p"
  using assms lastReceiptOf_Some [of db p r]
  by (auto simp: latestReceiptForPage_def split: option.splits if_splits bind_splits dest: getCanonReceipt_member)

section \<open>An index that agrees with the receipts\<close>

definition wfIndex :: "CanonDb \<Rightarrow> bool" where
  "wfIndex db \<longleftrightarrow>
     distinct (map pi_page_id (page_index db)) \<and> distinct (map pi_rel_path (page_index db)) \<and>
     inspectPageIndex db = []"

lemma inspectEntry_Nil:
  "inspectEntry db e = [] \<longleftrightarrow>
     (\<forall>i. pi_last_receipt e = Some i \<longrightarrow>
        (\<exists>r. getCanonReceipt db i = Some r \<and> cr_page_path r = pi_rel_path e \<and> cr_after_hash r = pi_last_hash e))"
  by (auto simp: inspectEntry_def split: option.splits)

lemma inspectPageIndex_Nil: "inspectPageIndex db = [] \<longleftrightarrow> (\<forall>e\<in>set (page_index db). inspectEntry db e = [])"
  by (auto simp: inspectPageIndex_def)

lemma mergeEntry_simps [simp]:
  "pi_page_id (mergeEntry e r) = pi_page_id r" "pi_rel_path (mergeEntry e r) = pi_rel_path e"
  "pi_last_receipt (mergeEntry e r) = pi_last_receipt e" "pi_last_hash (mergeEntry e r) = pi_last_hash e"
  by (simp_all add: mergeEntry_def)

lemma upsert_frame [simp]:
  "canon_receipts (upsertPageIndex e db) = canon_receipts db" "tables (upsertPageIndex e db) = tables db"
  "vault (upsertPageIndex e db) = vault db" "receipt_log (upsertPageIndex e db) = receipt_log db"
  by (simp_all add: upsertPageIndex_def Let_def)

lemma delete_frame [simp]:
  "canon_receipts (deletePageIndex p db) = canon_receipts db" "tables (deletePageIndex p db) = tables db"
  "vault (deletePageIndex p db) = vault db" "receipt_log (deletePageIndex p db) = receipt_log db"
  by (simp_all add: deletePageIndex_def)

text \<open>Every row after an upsert is the new one or an old row of another page and path.\<close>

lemma upsert_rows:
  assumes "r \<in> set (page_index (upsertPageIndex e db))"
  shows "(r \<in> set (page_index db) \<and> pi_page_id r \<noteq> pi_page_id e \<and> pi_rel_path r \<noteq> pi_rel_path e) \<or>
    (pi_page_id r = pi_page_id e \<and> pi_rel_path r = pi_rel_path e \<and>
     pi_last_receipt r = pi_last_receipt e \<and> pi_last_hash r = pi_last_hash e)"
  using assms by (auto simp: upsertPageIndex_def Let_def list_ex_iff split: if_splits)

lemma upsert_distinct:
  assumes "distinct (map pi_page_id (page_index db))" "distinct (map pi_rel_path (page_index db))"
  shows "distinct (map pi_page_id (page_index (upsertPageIndex e db)))"
    "distinct (map pi_rel_path (page_index (upsertPageIndex e db)))"
proof -
  let ?rest = "filter (\<lambda>r. \<not> (pi_rel_path r = pi_rel_path e \<and> pi_page_id r \<noteq> pi_page_id e)) (page_index db)"
  let ?f = "\<lambda>r. if pi_page_id r = pi_page_id e then mergeEntry e r else r"
  have ids: "distinct (map pi_page_id ?rest)" and paths: "distinct (map pi_rel_path ?rest)"
    using assms by (simp_all add: distinct_map_filter)
  have "pi_page_id \<circ> ?f = pi_page_id" by (simp add: fun_eq_iff)
  then have same: "map pi_page_id (map ?f ?rest) = map pi_page_id ?rest" by (simp only: map_map)
  have moved: "distinct (map pi_rel_path (map ?f rows))"
    if "distinct (map pi_page_id rows)" "distinct (map pi_rel_path rows)"
      "\<forall>r\<in>set rows. pi_rel_path r = pi_rel_path e \<longrightarrow> pi_page_id r = pi_page_id e" for rows
  proof -
    have inj: "inj_on pi_page_id (set rows)" "inj_on pi_rel_path (set rows)" "distinct rows"
      using that(1,2) by (simp_all add: distinct_map)
    have "inj_on (\<lambda>r. pi_rel_path (?f r)) (set rows)"
    proof (rule inj_onI)
      fix a b assume ab: "a \<in> set rows" "b \<in> set rows" "pi_rel_path (?f a) = pi_rel_path (?f b)"
      show "a = b"
      proof (cases "pi_page_id a = pi_page_id e \<longleftrightarrow> pi_page_id b = pi_page_id e")
        case True
        then have "pi_page_id a = pi_page_id b \<or> pi_rel_path a = pi_rel_path b" using ab(3) by (simp split: if_splits)
        then show ?thesis using ab(1,2) inj by (auto dest: inj_onD)
      next
        case False
        then show ?thesis using ab that(3) by (auto split: if_splits)
      qed
    qed
    then show ?thesis using inj(3) by (simp add: distinct_map comp_def)
  qed
  show "distinct (map pi_page_id (page_index (upsertPageIndex e db)))"
  proof (cases "list_ex (\<lambda>r. pi_page_id r = pi_page_id e) ?rest")
    case True
    then have "page_index (upsertPageIndex e db) = map ?f ?rest" by (simp add: upsertPageIndex_def Let_def)
    then show ?thesis using ids same by (simp only:)
  next
    case False
    then have "page_index (upsertPageIndex e db) = ?rest @ [e]" by (simp add: upsertPageIndex_def Let_def)
    then show ?thesis using ids False by (auto simp: list_ex_iff)
  qed
  have "distinct (map pi_rel_path (map ?f ?rest))" by (intro moved ids paths) auto
  moreover have "pi_rel_path e \<notin> pi_rel_path ` set ?rest" if "\<not> list_ex (\<lambda>r. pi_page_id r = pi_page_id e) ?rest"
    using that by (auto simp: list_ex_iff)
  ultimately show "distinct (map pi_rel_path (page_index (upsertPageIndex e db)))"
    using paths by (simp add: upsertPageIndex_def Let_def)
qed

lemma wfIndex_upsert:
  assumes "wfIndex db"
    and "\<And>i. pi_last_receipt e = Some i \<Longrightarrow> \<exists>r. getCanonReceipt db i = Some r \<and>
      cr_page_path r = pi_rel_path e \<and> cr_after_hash r = pi_last_hash e"
  shows "wfIndex (upsertPageIndex e db)"
proof -
  have same: "getCanonReceipt (upsertPageIndex e db) = getCanonReceipt db"
    by (simp add: fun_eq_iff getCanonReceipt_def)
  have "inspectEntry (upsertPageIndex e db) r = []" if "r \<in> set (page_index (upsertPageIndex e db))" for r
    using upsert_rows [OF that] assms
    unfolding inspectEntry_Nil same wfIndex_def inspectPageIndex_Nil by fastforce
  then show ?thesis
    using assms(1) upsert_distinct [of db e] by (simp add: wfIndex_def inspectPageIndex_Nil)
qed

lemma wfIndex_delete: "wfIndex db \<Longrightarrow> wfIndex (deletePageIndex p db)"
  unfolding wfIndex_def inspectPageIndex_Nil inspectEntry_Nil
  by (auto simp: deletePageIndex_def getCanonReceipt_def distinct_map_filter)

lemma wfIndex_grows:
  assumes "wfIndex db" "page_index db' = page_index db"
    and "\<And>i r. getCanonReceipt db i = Some r \<Longrightarrow> \<exists>r'. getCanonReceipt db' i = Some r' \<and>
      cr_page_path r' = cr_page_path r \<and> cr_after_hash r' = cr_after_hash r"
  shows "wfIndex db'"
  using assms unfolding wfIndex_def inspectPageIndex_Nil inspectEntry_Nil by (metis (full_types))

lemma insertReceiptRow_Inr:
  "insertReceiptRow r db = Inr db' \<longleftrightarrow>
     getCanonReceipt db (cr_receipt_id r) = None \<and> db' = db\<lparr>canon_receipts := canon_receipts db @ [r]\<rparr>"
  by (auto simp: insertReceiptRow_def result_simps)

text \<open>A rebuild gives an index that agrees with the receipts, whatever the old one was.\<close>

lemma putPage_wf:
  assumes "wfIndex (fst st)" "distinct (map cr_receipt_id (canon_receipts (fst st)))"
  shows "wfIndex (fst (putPage st page)) \<and> canon_receipts (fst (putPage st page)) = canon_receipts (fst st)"
proof -
  obtain db indexed n where st: "st = (db, indexed, n)" by (cases st)
  obtain pageId relPath entries contentHash where page: "page = (pageId, relPath, entries, contentHash)" by (cases page)
  show ?thesis
  proof (cases "pageId \<in> set indexed")
    case False
    have "\<exists>r. getCanonReceipt db i = Some r \<and> cr_page_path r = relPath \<and>
        cr_after_hash r = (case latestReceiptForPage db relPath of None \<Rightarrow> contentHash | Some r \<Rightarrow> cr_after_hash r)"
      if named: "map_option cr_receipt_id (latestReceiptForPage db relPath) = Some i" for i
    proof -
      obtain r where r: "latestReceiptForPage db relPath = Some r" "i = cr_receipt_id r" using named by auto
      then have "getCanonReceipt db i = Some r"
        using latestReceiptForPage_Some(1) [OF r(1)] assms(2) st by (auto intro: getCanonReceipt_known)
      then show ?thesis using r latestReceiptForPage_Some(2) by simp
    qed
    then show ?thesis
      using False assms(1) by (auto simp: st page putPage_def Let_def intro!: wfIndex_upsert)
  qed (use assms in \<open>simp add: st page putPage_def\<close>)
qed

lemma putSkipped_cases:
  assumes "putSkipped io st (code, relPath) = Inr st'"
  shows "st' = st \<or> (\<exists>page. st' = putPage st page)"
proof (cases "code = ''invalid''")
  case True
  then obtain existing :: "ExistingPage option" where "(case existing of None \<Rightarrow> Inr st
      | Some e \<Rightarrow> Inr (case declaredId (ex_page e) of None \<Rightarrow> st
          | Some i \<Rightarrow> putPage st (i, relPath, page_data (ex_page e), ex_hash e))) = (Inr st' :: CanonError + rebuild_state)"
    using assms by (auto simp: putSkipped_def result_simps)
  then show ?thesis by (cases existing) (auto split: option.splits)
qed (use assms in \<open>simp add: putSkipped_def\<close>)

lemma rebuild_invariant:
  assumes "rebuildPageIndex io db report = Inr (db', n, skipped)" "P (db\<lparr>page_index := []\<rparr>)"
    and put: "\<And>st page. P (fst st) \<Longrightarrow> P (fst (putPage st page))"
  shows "P db'"
proof -
  let ?start = "(db\<lparr>page_index := []\<rparr>, [] :: string list, 0 :: nat)"
  have pages: "P (fst (foldl putPage st pages))" if "P (fst st)" for st pages
    using that by (induction pages arbitrary: st) (simp_all only: foldl_Nil foldl_Cons put)
  obtain st where st: "foldM (putSkipped io) (foldl putPage ?start (rep_pages report)) (rep_skipped report) = Inr st"
    "fst st = db'"
    using assms(1) by (auto simp: rebuildPageIndex_def result_simps)
  have "P (fst st)"
    using st(1)
  proof (rule foldM_invariant [where P = "\<lambda>s. P (fst s)"])
    show "P (fst (foldl putPage ?start (rep_pages report)))" using assms(2) by (intro pages) simp
    fix s entry s' assume s: "P (fst s)" "putSkipped io s entry = Inr s'"
    then have "s' = s \<or> (\<exists>page. s' = putPage s page)"
      using putSkipped_cases [of io s "fst entry" "snd entry" s'] by simp
    then show "P (fst s')" using s(1) put by metis
  qed
  then show ?thesis using st(2) by simp
qed

lemma rebuild_wf:
  assumes "rebuildPageIndex io db report = Inr (db', n, skipped)" "distinct (map cr_receipt_id (canon_receipts db))"
  shows "wfIndex db' \<and> canon_receipts db' = canon_receipts db"
proof (rule rebuild_invariant [OF assms(1), of "\<lambda>d. wfIndex d \<and> canon_receipts d = canon_receipts db"])
  show "wfIndex (db\<lparr>page_index := []\<rparr>) \<and> canon_receipts (db\<lparr>page_index := []\<rparr>) = canon_receipts db"
    by (simp add: wfIndex_def inspectPageIndex_def)
qed (use putPage_wf assms(2) in metis)

lemma rebuild_frame:
  assumes "rebuildPageIndex io db report = Inr (db', n, skipped)"
  shows "tables db' = tables db" "vault db' = vault db" "receipt_log db' = receipt_log db"
proof -
  let ?same = "\<lambda>d. tables d = tables db \<and> vault d = vault db \<and> receipt_log d = receipt_log db"
  have "?same (fst (putPage st page))" if "?same (fst st)" for st page
    using that by (cases st; cases page) (simp add: putPage_def Let_def)
  then have "?same db'" by (intro rebuild_invariant [OF assms, of ?same]) simp_all
  then show "tables db' = tables db" "vault db' = vault db" "receipt_log db' = receipt_log db" by simp_all
qed

end
