(* ===== verification/Arbiter.thy ===== *)
theory Arbiter
  imports Canon_Store
begin

text \<open>
  \<open>packages/core/src/canon/arbiter.ts\<close> and \<open>origin.ts\<close>: which page a claim is written to.

  The rules are tried in the order of the code and the first that names a page decides; the
  prose of a page the owner edited is never a target of a claim that would replace it.
\<close>

section \<open>Machine origin\<close>

definition AUTO_CANON_PREFIX :: string where "AUTO_CANON_PREFIX = ''auto''"

text \<open>\<open>/^dashboards\/brief-\d{4}-\d{2}-\d{2}\.md$/\<close>\<close>

definition isDaemonBriefPath :: "string \<Rightarrow> bool" where
  "isDaemonBriefPath relPath \<longleftrightarrow>
     (let rest = drop 17 relPath
      in startsWith relPath ''dashboards/brief-'' \<and> length rest = 13 \<and>
         list_all isDigit (take 4 rest) \<and> rest ! 4 = CHR ''-'' \<and>
         list_all isDigit (take 2 (drop 5 rest)) \<and> rest ! 7 = CHR ''-'' \<and>
         list_all isDigit (take 2 (drop 8 rest)) \<and> drop 10 rest = ''.md'')"

definition underAutoPrefix :: "string \<Rightarrow> bool" where
  "underAutoPrefix relPath \<longleftrightarrow> relPath = AUTO_CANON_PREFIX \<or> startsWith relPath (AUTO_CANON_PREFIX @ ''/'')"

definition isMachineOriginPath :: "string \<Rightarrow> bool" where
  "isMachineOriginPath relPath \<longleftrightarrow> underAutoPrefix relPath \<or> isDaemonBriefPath relPath"

definition machineOriginPath :: "string \<Rightarrow> string" where
  "machineOriginPath relPath =
     (if underAutoPrefix relPath then relPath else AUTO_CANON_PREFIX @ ''/'' @ relPath)"

definition CONTEXT_PACKET_MARKERS :: "string list" where
  "CONTEXT_PACKET_MARKERS = [''KIZUKI CONTEXT v1'', ''KIZUKI CONTEXT v2'']"

definition hasContextPacketMarker :: "string \<Rightarrow> bool" where
  "hasContextPacketMarker text \<longleftrightarrow> list_ex (containsText text) CONTEXT_PACKET_MARKERS"

section \<open>Decisions\<close>

datatype EditReason = BoundPage | ExplicitPage | SubjectPage

datatype SkipReason = AlreadyWritten | BelowFloor | OwnerEditedBody

datatype TargetDecision =
    CreateAt string
  | EditAt string string EditReason
  | SupersedeAt string string "string list"
  | SkipWrite SkipReason
  | ConflictAt "PageChoice list" PageChoice

definition CREATE_KINDS :: "ClaimKind set" where "CREATE_KINDS = {EntityKind, ClaimClaim}"

definition PROSE_KINDS :: "ClaimKind set" where
  "PROSE_KINDS = {EntityKind, ClaimClaim, EditKind, MergeKind}"

text \<open>\<open>pageRelPath\<close> of the claim\<close>

definition claimPath :: "Claim \<Rightarrow> CanonError + string" where
  "claimPath c =
     (case pageRelPath (claim_id c) (target c) of Inl e \<Rightarrow> Inl (WriteError e) | Inr p \<Rightarrow> Inr p)"

record ResolvedPage =
  rp_page_id :: string
  rp_rel_path :: string
  rp_stale :: bool

definition pageAt :: "CanonIo \<Rightarrow> CanonDb \<Rightarrow> string \<Rightarrow> CanonError + ResolvedPage option" where
  "pageAt io db relPath =
     andThen (readPage io db relPath) (\<lambda>existing.
       Inr (map_option (\<lambda>i. \<lparr>rp_page_id = i, rp_rel_path = relPath, rp_stale = False\<rparr>)
              (Option.bind existing (\<lambda>e. declaredId (ex_page e)))))"

text \<open>The page at a path, if it has the identity asked for; without a path there is none.\<close>

definition pageNamed :: "CanonIo \<Rightarrow> CanonDb \<Rightarrow> string \<Rightarrow> string option \<Rightarrow> CanonError + ResolvedPage option" where
  "pageNamed io db pageId path =
     (case path of
        None \<Rightarrow> Inr None
      | Some p \<Rightarrow>
          andThen (pageAt io db p) (\<lambda>found.
            Inr (case found of
                   None \<Rightarrow> None
                 | Some r \<Rightarrow> if rp_page_id r = pageId then Some r else None)))"

text \<open>\<open>undefined\<close> without a registry, \<open>null\<close> for a page it does not hold.\<close>

definition registeredPagePath :: "CanonDb \<Rightarrow> string \<Rightarrow> string option option" where
  "registeredPagePath db pageId = map_option (\<lambda>rows. map_of rows pageId) (graph_pages db)"

definition resolvePageById :: "CanonIo \<Rightarrow> CanonDb \<Rightarrow> string \<Rightarrow> CanonError + ResolvedPage option" where
  "resolvePageById io db pageId =
     (let indexed = map_option pi_rel_path (pageIndexById db pageId);
          registered = registeredPagePath db pageId;
          stalePath = (case indexed of Some p \<Rightarrow> Some p | None \<Rightarrow> Option.bind registered id)
      in andThen (pageNamed io db pageId indexed) (\<lambda>found.
           case found of
             Some r \<Rightarrow> Inr (Some r)
           | None \<Rightarrow>
               if registered = Some None \<and> indexed = None then Inr None
               else
                 andThen (pageNamed io db pageId (Option.bind registered id)) (\<lambda>found.
                   case found of
                     Some r \<Rightarrow> Inr (Some r)
                   | None \<Rightarrow>
                       (case (owned io, stalePath) of
                          (True, Some p) \<Rightarrow> Inr (Some \<lparr>rp_page_id = pageId, rp_rel_path = p, rp_stale = True\<rparr>)
                        | _ \<Rightarrow>
                            Inr (map_option (\<lambda>(i, p). \<lparr>rp_page_id = i, rp_rel_path = p, rp_stale = False\<rparr>)
                                   (find_page io (vault db) pageId))))))"

definition candidateFor :: "CanonDb \<Rightarrow> PageIndexEntry \<Rightarrow> PageChoice" where
  "candidateFor db e =
     \<lparr>pc_page_id = pi_page_id e, pc_rel_path = pi_rel_path e,
      pc_authority = (case latestReceiptForPage db (pi_rel_path e) of
        None \<Rightarrow> OwnerAuthored | Some r \<Rightarrow> cr_authority r),
      pc_created_at =
        (case listCanonReceipts db (anyReceipt\<lparr>lr_page_path := Some (pi_rel_path e), lr_limit := Some 1\<rparr>) of
           [] \<Rightarrow> [] | r # _ \<Rightarrow> cr_at r)\<rparr>"

text \<open>Highest authority first, then the oldest, then the smallest identity.\<close>

definition choiceOrder :: "PageChoice \<Rightarrow> nat \<times> string \<times> string" where
  "choiceOrder c = (4 - AUTHORITY_TIERS (pc_authority c), pc_created_at c, pc_page_id c)"

definition chooseCandidate :: "PageChoice list \<Rightarrow> CanonError + PageChoice" where
  "chooseCandidate candidates =
     (case sort_key choiceOrder candidates of
        [] \<Rightarrow> Inl (WriteError PageMissing)
      | c # _ \<Rightarrow> Inr c)"

definition ownerEdited :: "CanonIo \<Rightarrow> CanonDb \<Rightarrow> string \<Rightarrow> CanonError + bool" where
  "ownerEdited io db relPath =
     andThen (readPage io db relPath) (\<lambda>existing.
       Inr (case existing of
              None \<Rightarrow> False
            | Some e \<Rightarrow>
                (case latestReceiptForPage db relPath of
                   None \<Rightarrow> True
                 | Some r \<Rightarrow> cr_after_hash r \<noteq> ex_hash e)))"

definition guardProse :: "CanonIo \<Rightarrow> CanonDb \<Rightarrow> Claim \<Rightarrow> string \<Rightarrow> TargetDecision \<Rightarrow> CanonError + TargetDecision" where
  "guardProse io db c relPath decision =
     (if kind c \<notin> PROSE_KINDS then Inr decision
      else andThen (ownerEdited io db relPath) (\<lambda>edited.
             Inr (if edited then SkipWrite OwnerEditedBody else decision)))"

section \<open>The rules\<close>

text \<open>A loop over rows that stops at the first that gives a page.\<close>

fun firstPage :: "('a \<Rightarrow> CanonError + ResolvedPage option) \<Rightarrow> 'a list \<Rightarrow> CanonError + ResolvedPage option" where
  "firstPage f [] = Inr None"
| "firstPage f (x # xs) =
     andThen (f x) (\<lambda>found. case found of Some r \<Rightarrow> Inr (Some r) | None \<Rightarrow> firstPage f xs)"

definition bindingsOf :: "CanonDb \<Rightarrow> string \<Rightarrow> string list" where
  "bindingsOf db key =
     take 16 (map (\<lambda>(_, page, _). page)
       (rev (sort_key (\<lambda>(_, _, stamp). stamp) (rev (sort_key (\<lambda>(_, page, _). page)
         (filter (\<lambda>(k, _, _). k = key) (claim_bindings db)))))))"

definition boundPage :: "CanonIo \<Rightarrow> CanonDb \<Rightarrow> Claim \<Rightarrow> CanonError + ResolvedPage option" where
  "boundPage io db c =
     (case claim_key c of
        None \<Rightarrow> Inr None
      | Some key \<Rightarrow> firstPage (resolvePageById io db) (bindingsOf db key))"

definition explicitPage :: "CanonIo \<Rightarrow> CanonDb \<Rightarrow> Claim \<Rightarrow> CanonError + ResolvedPage option" where
  "explicitPage io db c =
     (case target c of
        None \<Rightarrow> Inr None
      | Some t \<Rightarrow>
          andThen (claimPath c) (\<lambda>relPath.
            firstPage id
              [resolvePageById io db t, pageAt io db relPath, pageAt io db (machineOriginPath relPath)]))"

definition losersOf :: "CanonDb \<Rightarrow> Claim \<Rightarrow> string list" where
  "losersOf db c =
     take 64 (map loser (rev (sort_key sup_at (rev (sort_key loser
       (filter (\<lambda>s. winner s = claim_id c) (supersessions (tables db))))))))"

definition writtenPageOf :: "CanonIo \<Rightarrow> CanonDb \<Rightarrow> string \<Rightarrow> CanonError + ResolvedPage option" where
  "writtenPageOf io db lost =
     (case Option.bind (Option.bind (getClaim (tables db) lost) receipt_id) (getCanonReceipt db) of
        None \<Rightarrow> Inr None
      | Some r \<Rightarrow> pageAt io db (cr_page_path r))"

definition supersessionOf :: "CanonIo \<Rightarrow> CanonDb \<Rightarrow> Claim \<Rightarrow> CanonError + string list \<times> ResolvedPage option" where
  "supersessionOf io db c =
     andThen (firstPage (writtenPageOf io db) (losersOf db c)) (\<lambda>page. Inr (losersOf db c, page))"

definition onPage ::
  "CanonIo \<Rightarrow> CanonDb \<Rightarrow> Claim \<Rightarrow> string list \<Rightarrow> ResolvedPage \<Rightarrow> EditReason \<Rightarrow> CanonError + TargetDecision" where
  "onPage io db c losers page reason =
     (if rp_stale page then Inr (SkipWrite OwnerEditedBody)
      else guardProse io db c (rp_rel_path page)
        (if losers \<noteq> [] then SupersedeAt (rp_page_id page) (rp_rel_path page) losers
         else EditAt (rp_page_id page) (rp_rel_path page) reason))"

text \<open>The pages of the claim's subject whose files still have the indexed identity.\<close>

definition subjectPages :: "CanonIo \<Rightarrow> CanonDb \<Rightarrow> Claim \<Rightarrow> CanonError + PageIndexEntry list" where
  "subjectPages io db c =
     (case subject c of
        None \<Rightarrow> Inr []
      | Some s \<Rightarrow>
          filterM (\<lambda>e. andThen (pageAt io db (pi_rel_path e)) (\<lambda>found.
              Inr (map_option rp_page_id found = Some (pi_page_id e)))) (pagesForSubject db s))"

text \<open>The last rules: one page of the subject, several, or a new one.\<close>

definition subjectTarget :: "CanonIo \<Rightarrow> CanonDb \<Rightarrow> Claim \<Rightarrow> string list \<Rightarrow> CanonError + TargetDecision" where
  "subjectTarget io db c losers =
     andThen (subjectPages io db c) (\<lambda>pages.
       case pages of
         [only] \<Rightarrow>
           onPage io db c losers
             \<lparr>rp_page_id = pi_page_id only, rp_rel_path = pi_rel_path only, rp_stale = False\<rparr> SubjectPage
       | _ # _ \<Rightarrow>
           (let candidates = map (candidateFor db) pages
            in andThen (chooseCandidate candidates) (\<lambda>chosen.
                 guardProse io db c (pc_rel_path chosen) (ConflictAt candidates chosen)))
       | [] \<Rightarrow>
           if kind c \<notin> CREATE_KINDS then andThen (claimPath c) (\<lambda>_. Inl (WriteError PageRequired))
           else andThen (claimPath c) (\<lambda>p. Inr (CreateAt p)))"

definition resolveTarget :: "CanonIo \<Rightarrow> CanonDb \<Rightarrow> Claim \<Rightarrow> CanonError + TargetDecision" where
  "resolveTarget io db c =
     (if status c \<in> {Superseded, Purged, Reverted} then Inl (WriteError ClaimNotLive)
      else if receipt_id c \<noteq> None then Inr (SkipWrite AlreadyWritten)
      else if status c = Skipped \<or> confidence c \<le> 0 then Inr (SkipWrite BelowFloor)
      else
        andThen (supersessionOf io db c) (\<lambda>(losers, lostPage).
        andThen (boundPage io db c) (\<lambda>bound.
          case bound of
            Some p \<Rightarrow> onPage io db c losers p BoundPage
          | None \<Rightarrow>
        andThen (explicitPage io db c) (\<lambda>explicit.
          case explicit of
            Some p \<Rightarrow> onPage io db c losers p ExplicitPage
          | None \<Rightarrow>
        (case lostPage of
           Some p \<Rightarrow> onPage io db c losers p BoundPage
         | None \<Rightarrow> subjectTarget io db c losers)))))"

section \<open>What a decision rests on\<close>

text \<open>The page a decision would change.\<close>

fun targetPage :: "TargetDecision \<Rightarrow> (string \<times> string) option" where
  "targetPage (EditAt i p reason) = Some (i, p)"
| "targetPage (SupersedeAt i p losers) = Some (i, p)"
| "targetPage (ConflictAt candidates chosen) = Some (pc_page_id chosen, pc_rel_path chosen)"
| "targetPage d = None"

definition onDisk :: "CanonIo \<Rightarrow> CanonDb \<Rightarrow> string \<Rightarrow> string \<Rightarrow> bool" where
  "onDisk io db i p \<longleftrightarrow> (\<exists>e. readPage io db p = Inr (Some e) \<and> declaredId (ex_page e) = Some i)"

text \<open>The walk over the vault finds only pages that are there.\<close>

definition honestWalk :: "CanonIo \<Rightarrow> CanonDb \<Rightarrow> bool" where
  "honestWalk io db \<longleftrightarrow> (\<forall>i j p. find_page io (vault db) i = Some (j, p) \<longrightarrow> onDisk io db j p)"

definition backed :: "CanonIo \<Rightarrow> CanonDb \<Rightarrow> ResolvedPage \<Rightarrow> bool" where
  "backed io db r \<longleftrightarrow> \<not> rp_stale r \<longrightarrow> onDisk io db (rp_page_id r) (rp_rel_path r)"

lemma pageAt_Some:
  assumes "pageAt io db p = Inr (Some r)"
  shows "onDisk io db (rp_page_id r) p" "rp_rel_path r = p" "\<not> rp_stale r"
  using assms by (auto simp: pageAt_def onDisk_def result_simps split: bind_splits)

lemma pageAt_backed: "pageAt io db p = Inr (Some r) \<Longrightarrow> backed io db r"
  using pageAt_Some [of io db p r] by (simp add: backed_def)

lemma pageNamed_backed: "pageNamed io db i path = Inr (Some r) \<Longrightarrow> backed io db r"
  by (auto simp: pageNamed_def result_simps split: option.splits if_splits dest: pageAt_backed)

lemma resolvePageById_backed:
  assumes "resolvePageById io db i = Inr (Some r)" "honestWalk io db"
  shows "backed io db r"
proof -
  have walked: "backed io db x"
    if "map_option (\<lambda>(j, p). \<lparr>rp_page_id = j, rp_rel_path = p, rp_stale = False\<rparr>) (find_page io (vault db) i) = Some x" for x
    using that assms(2) by (auto simp: backed_def honestWalk_def)
  show ?thesis
    using assms(1) walked
    by (auto simp: resolvePageById_def Let_def result_simps backed_def [of io db "\<lparr>rp_page_id = i, rp_rel_path = p, rp_stale = True\<rparr>" for p]
        dest: pageNamed_backed split: option.splits if_splits bool.splits)
qed

lemma firstPage_backed:
  assumes "firstPage f xs = Inr (Some r)" "\<And>x r. x \<in> set xs \<Longrightarrow> f x = Inr (Some r) \<Longrightarrow> backed io db r"
  shows "backed io db r"
  using assms by (induction xs) (auto simp: result_simps split: option.splits)

lemma boundPage_backed: "boundPage io db c = Inr (Some r) \<Longrightarrow> honestWalk io db \<Longrightarrow> backed io db r"
  by (auto simp: boundPage_def split: option.splits elim!: firstPage_backed intro: resolvePageById_backed)

lemma explicitPage_backed: "explicitPage io db c = Inr (Some r) \<Longrightarrow> honestWalk io db \<Longrightarrow> backed io db r"
  by (auto simp: explicitPage_def result_simps split: option.splits
      intro: resolvePageById_backed pageAt_backed)

lemma supersession_backed:
  assumes "supersessionOf io db c = Inr (losers, Some r)"
  shows "backed io db r"
proof -
  have "firstPage (writtenPageOf io db) (losersOf db c) = Inr (Some r)"
    using assms by (auto simp: supersessionOf_def result_simps)
  then show ?thesis
    by (rule firstPage_backed) (auto simp: writtenPageOf_def split: option.splits intro: pageAt_backed)
qed

lemma guardProse_Inr:
  assumes "guardProse io db c p decision = Inr d"
  shows "d = SkipWrite OwnerEditedBody \<or>
    (d = decision \<and> (kind c \<in> PROSE_KINDS \<longrightarrow> ownerEdited io db p = Inr False))"
  using assms by (auto simp: guardProse_def result_simps split: if_splits)

lemma choose_first:
  assumes "chooseCandidate candidates = Inr c"
  shows "c \<in> set candidates" "\<And>x. x \<in> set candidates \<Longrightarrow> choiceOrder c \<le> choiceOrder x"
proof -
  obtain rest where order: "sort_key choiceOrder candidates = c # rest"
    using assms by (auto simp: chooseCandidate_def split: list.splits)
  have "set (sort_key choiceOrder candidates) = set candidates" by simp
  then have members: "set candidates = insert c (set rest)" unfolding order by simp
  then show "c \<in> set candidates" by simp
  have "sorted (map choiceOrder (sort_key choiceOrder candidates))" by simp
  then show "choiceOrder c \<le> choiceOrder x" if "x \<in> set candidates" for x
    using that members unfolding order by auto
qed

lemma subjectPages_member:
  assumes "subjectPages io db c = Inr pages" "e \<in> set pages"
  shows "onDisk io db (pi_page_id e) (pi_rel_path e)"
proof -
  obtain s where "filterM (\<lambda>e. andThen (pageAt io db (pi_rel_path e)) (\<lambda>found.
      Inr (map_option rp_page_id found = Some (pi_page_id e)))) (pagesForSubject db s) = Inr pages"
    using assms by (auto simp: subjectPages_def split: option.splits)
  then have "andThen (pageAt io db (pi_rel_path e)) (\<lambda>found.
      Inr (map_option rp_page_id found = Some (pi_page_id e))) = Inr True"
    using assms(2) filterM_Inr by fastforce
  then show ?thesis using pageAt_Some(1) [of io db "pi_rel_path e"] by (auto simp: result_simps)
qed

lemma supersession_losers: "supersessionOf io db c = Inr (losers, page) \<Longrightarrow> losers = losersOf db c"
  by (auto simp: supersessionOf_def result_simps)

lemma onPage_Inr:
  assumes "onPage io db c losers page reason = Inr d"
  shows "d = SkipWrite OwnerEditedBody \<or>
    (\<not> rp_stale page \<and> (kind c \<in> PROSE_KINDS \<longrightarrow> ownerEdited io db (rp_rel_path page) = Inr False) \<and>
     d = (if losers \<noteq> [] then SupersedeAt (rp_page_id page) (rp_rel_path page) losers
          else EditAt (rp_page_id page) (rp_rel_path page) reason))"
  using assms by (auto simp: onPage_def split: if_splits dest: guardProse_Inr)

text \<open>The ways to a decision.\<close>

definition namesPage :: "CanonIo \<Rightarrow> CanonDb \<Rightarrow> Claim \<Rightarrow> ResolvedPage \<Rightarrow> bool" where
  "namesPage io db c p \<longleftrightarrow>
     boundPage io db c = Inr (Some p) \<or> explicitPage io db c = Inr (Some p) \<or>
     supersessionOf io db c = Inr (losersOf db c, Some p) \<or>
     (\<exists>e. subjectPages io db c = Inr [e] \<and>
        p = \<lparr>rp_page_id = pi_page_id e, rp_rel_path = pi_rel_path e, rp_stale = False\<rparr>)"

definition unnamed :: "CanonIo \<Rightarrow> CanonDb \<Rightarrow> Claim \<Rightarrow> bool" where
  "unnamed io db c \<longleftrightarrow>
     boundPage io db c = Inr None \<and> explicitPage io db c = Inr None \<and>
     supersessionOf io db c = Inr (losersOf db c, None)"

lemma resolveTarget_cases:
  assumes "resolveTarget io db c = Inr d"
  obtains (written) "receipt_id c \<noteq> None" "d = SkipWrite AlreadyWritten"
  | (floor) "receipt_id c = None" "status c = Skipped \<or> confidence c \<le> 0" "d = SkipWrite BelowFloor"
  | (page) p reason where "namesPage io db c p" "onPage io db c (losersOf db c) p reason = Inr d"
  | (choice) pages chosen where "unnamed io db c" "subjectPages io db c = Inr pages" "2 \<le> length pages"
      "chooseCandidate (map (candidateFor db) pages) = Inr chosen"
      "guardProse io db c (pc_rel_path chosen) (ConflictAt (map (candidateFor db) pages) chosen) = Inr d"
  | (create) p where "unnamed io db c" "subjectPages io db c = Inr []" "kind c \<in> CREATE_KINDS"
      "claimPath c = Inr p" "d = CreateAt p"
proof (cases "receipt_id c \<noteq> None \<or> status c = Skipped \<or> confidence c \<le> 0")
  case True
  then show thesis using assms that(1,2) by (auto simp: resolveTarget_def split: if_splits)
next
  case False
  obtain losers lostPage where "supersessionOf io db c = Inr (losers, lostPage)"
    using assms False by (auto simp: resolveTarget_def result_simps split: if_splits)
  then have sup: "supersessionOf io db c = Inr (losersOf db c, lostPage)" using supersession_losers by blast
  obtain bound where bound: "boundPage io db c = Inr bound"
    and rest: "(case bound of
          Some p \<Rightarrow> onPage io db c (losersOf db c) p BoundPage
        | None \<Rightarrow> andThen (explicitPage io db c) (\<lambda>explicit.
            case explicit of
              Some p \<Rightarrow> onPage io db c (losersOf db c) p ExplicitPage
            | None \<Rightarrow> (case lostPage of
                Some p \<Rightarrow> onPage io db c (losersOf db c) p BoundPage
              | None \<Rightarrow> subjectTarget io db c (losersOf db c)))) = Inr d"
    using assms False by (auto simp: resolveTarget_def result_simps sup split: if_splits)
  show thesis
  proof (cases bound)
    case (Some p)
    then show thesis using rest bound by (intro that(3)) (auto simp: namesPage_def)
  next
    case None
    then obtain explicit where explicit: "explicitPage io db c = Inr explicit"
      using rest by (auto simp: result_simps)
    show thesis
    proof (cases explicit)
      case (Some p)
      then show thesis using rest None explicit by (intro that(3)) (auto simp: namesPage_def)
    next
      case e: None
      show thesis
      proof (cases lostPage)
        case (Some p)
        then show thesis using rest None explicit e sup by (intro that(3)) (auto simp: namesPage_def)
      next
        case l: None
        have un: "unnamed io db c" using bound None explicit e sup l by (simp add: unnamed_def)
        have rest: "subjectTarget io db c (losersOf db c) = Inr d" using rest None explicit e l by simp
        obtain pages where pages: "subjectPages io db c = Inr pages"
          using rest by (auto simp: subjectTarget_def result_simps)
        consider "pages = []" | only where "pages = [only]" | a b more where "pages = a # b # more"
          by (cases pages rule: remdups_adj.cases) auto
        then show thesis
        proof cases
          case 1
          then show thesis using rest pages un that(5) by (auto simp: subjectTarget_def result_simps split: if_splits)
        next
          case 2
          then have "onPage io db c (losersOf db c)
              \<lparr>rp_page_id = pi_page_id only, rp_rel_path = pi_rel_path only, rp_stale = False\<rparr> SubjectPage = Inr d"
            using rest pages by (simp add: subjectTarget_def)
          then show thesis using pages 2 by (intro that(3)) (auto simp: namesPage_def)
        next
          case 3
          then show thesis using rest pages un that(4) [OF un pages] by (auto simp: subjectTarget_def result_simps Let_def)
        qed
      qed
    qed
  qed
qed

lemma namesPage_backed:
  assumes "namesPage io db c p" "honestWalk io db"
  shows "backed io db p"
  using assms subjectPages_member [of io db c]
  by (auto simp: namesPage_def backed_def [of io db "\<lparr>rp_page_id = i, rp_rel_path = q, rp_stale = False\<rparr>" for i q]
      intro: boundPage_backed explicitPage_backed supersession_backed)

section \<open>Properties\<close>


text \<open>What each decision says of the store.\<close>

fun decisionFits :: "CanonIo \<Rightarrow> CanonDb \<Rightarrow> Claim \<Rightarrow> TargetDecision \<Rightarrow> bool" where
  "decisionFits io db c (CreateAt p) \<longleftrightarrow>
     kind c \<in> CREATE_KINDS \<and> claimPath c = Inr p \<and> unnamed io db c \<and> subjectPages io db c = Inr []"
| "decisionFits io db c (EditAt i p reason) \<longleftrightarrow> onDisk io db i p \<and> losersOf db c = []"
| "decisionFits io db c (SupersedeAt i p losers) \<longleftrightarrow>
     onDisk io db i p \<and> losers = losersOf db c \<and> losers \<noteq> []"
| "decisionFits io db c (ConflictAt candidates chosen) \<longleftrightarrow>
     unnamed io db c \<and> 2 \<le> length candidates \<and> chosen \<in> set candidates \<and>
     (\<forall>x\<in>set candidates. onDisk io db (pc_page_id x) (pc_rel_path x) \<and> choiceOrder chosen \<le> choiceOrder x)"
| "decisionFits io db c (SkipWrite AlreadyWritten) \<longleftrightarrow> receipt_id c \<noteq> None"
| "decisionFits io db c (SkipWrite BelowFloor) \<longleftrightarrow>
     receipt_id c = None \<and> (status c = Skipped \<or> confidence c \<le> 0)"
| "decisionFits io db c (SkipWrite OwnerEditedBody) \<longleftrightarrow> receipt_id c = None"

lemma resolveTarget_unwritten:
  assumes "resolveTarget io db c = Inr (SkipWrite OwnerEditedBody)"
  shows "receipt_id c = None"
  using assms by (auto simp: resolveTarget_def split: if_splits)


end
