(* ===== verification/Canon_Authority.thy ===== *)
theory Canon_Authority
  imports Canon_Store
begin

text \<open>
  \<open>packages/core/src/canon/authority.ts\<close>: what authority the bytes of a page have, read from
  the durable history of its receipts - the tier of the write that produced them, found
  through reverts and purge rewrites.

  The model is the resolver for one page, without typed receipts and without the table of
  source survivors.  Receipts read from the store carry dates the runtime reads, so the order
  by date is the order of the numbers.
\<close>

definition MAX_PAGE_RECEIPTS :: nat where "MAX_PAGE_RECEIPTS = 4096"
definition MAX_CHAIN_DEPTH :: nat where "MAX_CHAIN_DEPTH = 128"

record CanonRevisionBasis =
  rb_receipt_id :: string
  rb_after_hash :: string
  rb_at :: string
  rb_authority :: AuthorityTier

record RevisionState =
  rs_authority :: AuthorityTier
  rs_basis :: "CanonRevisionBasis option"

definition UNRECORDED :: RevisionState where
  "UNRECORDED = \<lparr>rs_authority = OwnerAuthored, rs_basis = None\<rparr>"

definition UNAVAILABLE :: RevisionState where
  "UNAVAILABLE = \<lparr>rs_authority = ModelInference, rs_basis = None\<rparr>"

text \<open>\<open>lineageReceiptEarlier\<close> of \<open>ledger/canon-source-survivor-lineage.ts\<close>\<close>

definition lineageReceiptEarlier :: "CanonIo \<Rightarrow> CanonReceipt \<Rightarrow> CanonReceipt \<Rightarrow> bool" where
  "lineageReceiptEarlier io left right \<longleftrightarrow>
     (case (date_parse io (cr_at left), date_parse io (cr_at right)) of
        (Some a, Some b) \<Rightarrow> a < b \<or> (a = b \<and> cr_receipt_id left < cr_receipt_id right)
      | _ \<Rightarrow> False)"

definition isControlCode :: "char \<Rightarrow> bool" where
  "isControlCode c \<longleftrightarrow> (of_char c :: nat) \<le> 31 \<or> (128 \<le> (of_char c :: nat) \<and> (of_char c :: nat) \<le> 159)"

text \<open>The bytes of a text: two for a code unit from 128 up.\<close>

definition byteLength :: "string \<Rightarrow> nat" where
  "byteLength s = sum_list (map (\<lambda>c. if (of_char c :: nat) < 128 then 1 else 2) s)"

definition isLineageId :: "string \<Rightarrow> bool" where
  "isLineageId s \<longleftrightarrow> s \<noteq> [] \<and> byteLength s \<le> 1024 \<and> \<not> list_ex isControlCode s"

record Resolver =
  rv_path :: string
  rv_rows :: "CanonReceipt list"

text \<open>The constructor: the newest rows of the page, one more than the bound, by date.\<close>

definition resolverFor :: "CanonIo \<Rightarrow> CanonDb \<Rightarrow> string \<Rightarrow> Resolver" where
  "resolverFor io db path =
     \<lparr>rv_path = path,
      rv_rows =
        (if path = [] then []
         else rev (sort_key (\<lambda>r. (case date_parse io (cr_at r) of None \<Rightarrow> 0 | Some t \<Rightarrow> t, cr_receipt_id r))
           (take (MAX_PAGE_RECEIPTS + 1) (rev (byTime (filter (\<lambda>r. cr_page_path r = path) (canon_receipts db)))))))\<rparr>"

definition overflows :: "Resolver \<Rightarrow> bool" where
  "overflows rv \<longleftrightarrow> length (rv_rows rv) > MAX_PAGE_RECEIPTS"

text \<open>A receipt named by a revert; one outside the rows read first is charged to the page.\<close>

definition lookupReceipt ::
  "CanonDb \<Rightarrow> Resolver \<Rightarrow> string list \<Rightarrow> string \<Rightarrow> (CanonReceipt \<times> string list) option" where
  "lookupReceipt db rv extra i =
     (case List.find (\<lambda>r. cr_receipt_id r = i) (rv_rows rv) of
        Some r \<Rightarrow> Some (r, extra)
      | None \<Rightarrow>
          if \<not> isLineageId i \<or> (i \<notin> set extra \<and> length (rv_rows rv) + length extra \<ge> MAX_PAGE_RECEIPTS)
          then None
          else map_option (\<lambda>r. (r, if i \<in> set extra then extra else i # extra)) (getCanonReceipt db i))"

definition hashBefore :: "CanonReceipt \<Rightarrow> bool" where
  "hashBefore r \<longleftrightarrow> (case cr_before_hash r of None \<Rightarrow> True | Some h \<Rightarrow> SHA256_HEX h)"

definition recordedBy :: "CanonReceipt \<Rightarrow> RevisionState \<Rightarrow> RevisionState" where
  "recordedBy r st =
     st\<lparr>rs_basis := map_option (\<lambda>_. \<lparr>rb_receipt_id = cr_receipt_id r, rb_after_hash = cr_after_hash r,
          rb_at = cr_at r, rb_authority = rs_authority st\<rparr>) (rs_basis st)\<rparr>"

definition ownState :: "CanonReceipt \<Rightarrow> RevisionState" where
  "ownState r =
     \<lparr>rs_authority = cr_authority r,
      rs_basis = Some \<lparr>rb_receipt_id = cr_receipt_id r, rb_after_hash = cr_after_hash r, rb_at = cr_at r,
        rb_authority = cr_authority r\<rparr>\<rparr>"

definition revertMatches :: "CanonIo \<Rightarrow> string \<Rightarrow> string list \<Rightarrow> CanonReceipt \<Rightarrow> CanonReceipt \<Rightarrow> bool" where
  "revertMatches io path seen t r \<longleftrightarrow>
     (cr_page_path t = [] \<or> (path \<noteq> [] \<and> cr_page_path t = path)) \<and>
     lineageReceiptEarlier io t r \<and> cr_before_hash t \<noteq> None \<and> SHA256_HEX (cr_after_hash t) \<and>
     cr_before_hash r = Some (cr_after_hash t) \<and> Some (cr_after_hash r) = cr_before_hash t \<and>
     cr_receipt_id t \<notin> set seen"

text \<open>\<open>state\<close> and \<open>evaluate\<close>: the receipt that produced the bytes, before a given one, and the
  receipts it leads to; \<open>seen\<close> grows with each.\<close>

function revisionState ::
  "CanonIo \<Rightarrow> CanonDb \<Rightarrow> Resolver \<Rightarrow> string list \<Rightarrow> string list \<Rightarrow> string \<Rightarrow> CanonReceipt option \<Rightarrow> RevisionState" where
  "revisionState io db rv extra seen hash mark =
     (if \<not> SHA256_HEX hash \<or> overflows rv \<or> length seen \<ge> MAX_CHAIN_DEPTH \<or> rv_path rv = [] then UNAVAILABLE
      else
        (case List.find (\<lambda>r. cr_after_hash r = hash \<and>
             (case mark of None \<Rightarrow> True | Some b \<Rightarrow> lineageReceiptEarlier io r b)) (rv_rows rv) of
           None \<Rightarrow> UNRECORDED
         | Some r \<Rightarrow>
             if cr_receipt_id r \<in> set seen \<or> date_parse io (cr_at r) = None then UNAVAILABLE
             else
               (let seen1 = cr_receipt_id r # seen
                in case cr_kind r of
                     WriteReceipt \<Rightarrow> if cr_reverts r = None \<and> hashBefore r then ownState r else UNAVAILABLE
                   | PurgeRewrite \<Rightarrow>
                       (case cr_before_hash r of
                          None \<Rightarrow> UNAVAILABLE
                        | Some h \<Rightarrow>
                            if cr_reverts r \<noteq> None then UNAVAILABLE
                            else recordedBy r (revisionState io db rv extra seen1 h (Some r)))
                   | RevertReceipt \<Rightarrow>
                       (case cr_reverts r of
                          None \<Rightarrow> UNAVAILABLE
                        | Some i \<Rightarrow>
                            if i \<in> set seen1 then UNAVAILABLE
                            else
                              (case lookupReceipt db rv extra i of
                                 None \<Rightarrow> UNAVAILABLE
                               | Some (t, extra1) \<Rightarrow>
                                   if \<not> revertMatches io (rv_path rv) seen1 t r then UNAVAILABLE
                                   else recordedBy r (revisionState io db rv extra1 (cr_receipt_id t # seen1)
                                          (cr_after_hash r) (Some t)))))))"
  by pat_completeness auto

termination
  by (relation "measure (\<lambda>(io, db, rv, extra, seen, hash, mark). MAX_CHAIN_DEPTH - length seen)") auto

declare revisionState.simps [simp del]

definition resolveAuthority :: "CanonIo \<Rightarrow> CanonDb \<Rightarrow> string \<Rightarrow> string \<Rightarrow> AuthorityTier" where
  "resolveAuthority io db path hash =
     rs_authority (revisionState io db (resolverFor io db path) [] [] hash None)"

text \<open>Positive evidence never inherits the protective owner fallback.\<close>

definition revisionBasis :: "CanonIo \<Rightarrow> CanonDb \<Rightarrow> string \<Rightarrow> string \<Rightarrow> CanonRevisionBasis option" where
  "revisionBasis io db path hash =
     rs_basis (revisionState io db (resolverFor io db path) [] [] hash None)"

text \<open>The authority of the page just before a receipt.\<close>

definition authorityBefore :: "CanonIo \<Rightarrow> CanonDb \<Rightarrow> string \<Rightarrow> string \<Rightarrow> AuthorityTier" where
  "authorityBefore io db path i =
     (let rv = resolverFor io db path;
          found = (case List.find (\<lambda>r. cr_receipt_id r = i) (rv_rows rv) of
            Some r \<Rightarrow> Some r
          | None \<Rightarrow> if isLineageId i then getCanonReceipt db i else None)
      in case found of
           None \<Rightarrow> ModelInference
         | Some r \<Rightarrow>
             (case cr_before_hash r of
                None \<Rightarrow> ModelInference
              | Some h \<Rightarrow>
                  (let own = (if cr_page_path r = path then rv
                         else \<lparr>rv_path = cr_page_path r, rv_rows = []\<rparr>)
                   in rs_authority (revisionState io db own [] [i] h (Some r)))))"

section \<open>What a basis shows\<close>

lemma resolver_rows: "r \<in> set (rv_rows (resolverFor io db path)) \<Longrightarrow> r \<in> set (canon_receipts db) \<and> cr_page_path r = path"
  by (auto simp: resolverFor_def split: if_splits dest!: in_set_takeD)

text \<open>Bytes with a basis are bytes some receipt of the page recorded.\<close>

lemma basis_recorded:
  assumes "revisionBasis io db path hash \<noteq> None"
  shows "\<exists>r\<in>set (canon_receipts db). cr_page_path r = path \<and> cr_after_hash r = hash"
proof -
  let ?rv = "resolverFor io db path"
  have "List.find (\<lambda>r. cr_after_hash r = hash) (rv_rows ?rv) \<noteq> None"
  proof
    assume "List.find (\<lambda>r. cr_after_hash r = hash) (rv_rows ?rv) = None"
    then have "revisionState io db ?rv [] [] hash None \<in> {UNRECORDED, UNAVAILABLE}"
      by (subst revisionState.simps) simp
    then show False using assms by (auto simp: revisionBasis_def UNRECORDED_def UNAVAILABLE_def)
  qed
  then obtain r where "r \<in> set (rv_rows ?rv)" "cr_after_hash r = hash" by (auto simp: find_None_iff)
  then show ?thesis using resolver_rows by blast
qed

end
