(* ===== verification/Canon_Commit.thy ===== *)
theory Canon_Commit
  imports Canon_Authority Ulid Rfc3339
begin

text \<open>
  \<open>packages/core/src/canon/recovery.ts\<close>, \<open>write-intent.ts\<close>, \<open>receipt-validation.ts\<close> and the byte
  path of \<open>vault/write.ts\<close>: how one prepared change of the canon - a receipt, the image of the
  page before it and after it, what is to be done to the rows - is checked and carried out.

  A commit is one step.  The code journals the intent first so that a crash between the files
  and the rows can be finished later; here the intent is checked as the code checks it and
  carried out at once, and an error has no state.  Left out, beside what \<open>Canon_Store\<close>
  names: the stages and handles of the file protocol, the limit on the intent's own text, the
  classes stamped on pages and the projections the commit schedules.
\<close>

section \<open>Names\<close>

text \<open>\<open>relPath.replaceAll("/", "__")\<close>\<close>

fun flatName :: "string \<Rightarrow> string" where
  "flatName [] = []"
| "flatName (c # cs) = (if c = CHR ''/'' then ''__'' else [c]) @ flatName cs"

definition archiveRelPath :: "string \<Rightarrow> string \<Rightarrow> string" where
  "archiveRelPath relPath receiptId = ''archive/'' @ flatName relPath @ ''--'' @ receiptId @ ''.md''"

definition ABSENT_PAGE_HASH :: "CanonIo \<Rightarrow> string" where
  "ABSENT_PAGE_HASH io = hash_bytes io []"

definition MAX_CANON_IMAGE_BYTES :: nat where "MAX_CANON_IMAGE_BYTES = 1048576"
definition MAX_CANON_IDENTITY_BINDINGS :: nat where "MAX_CANON_IDENTITY_BINDINGS = 32768"

definition eventIdFromReference :: "string \<Rightarrow> string" where
  "eventIdFromReference reference = (if startsWith reference ''event:'' then drop 6 reference else reference)"

section \<open>The closed receipt\<close>

definition boundedText :: "nat \<Rightarrow> string \<Rightarrow> bool" where
  "boundedText n s \<longleftrightarrow> byteLength s \<le> n \<and> CHR 0x00 \<notin> set s"

definition boundedId :: "string \<Rightarrow> bool" where
  "boundedId s \<longleftrightarrow> boundedText 1024 s \<and> s \<noteq> []"

definition boundedIds :: "string list \<Rightarrow> bool" where
  "boundedIds xs \<longleftrightarrow> length xs \<le> MAX_CANON_IDENTITY_BINDINGS \<and> list_all boundedId xs \<and> distinct xs"

fun optionally :: "('a \<Rightarrow> bool) \<Rightarrow> 'a option \<Rightarrow> bool" where
  "optionally p None \<longleftrightarrow> True"
| "optionally p (Some x) \<longleftrightarrow> p x"

fun receiptProducer :: "Producer \<Rightarrow> bool" where
  "receiptProducer Llm \<longleftrightarrow> False"
| "receiptProducer (Agent a) \<longleftrightarrow> AGENT_ID a"
| "receiptProducer p \<longleftrightarrow> True"

abbreviation pagePathOk :: "string \<Rightarrow> bool" where
  "pagePathOk p \<equiv> assertPageRelPath (Str p) = Inr ()"

definition candidateOk :: "PageChoice \<Rightarrow> bool" where
  "candidateOk c \<longleftrightarrow>
     boundedId (pc_page_id c) \<and> boundedId (pc_rel_path c) \<and> pagePathOk (pc_rel_path c) \<and>
     boundedText 64 (pc_created_at c)"

definition retrievalRefOk :: "RetrievalOpRef \<Rightarrow> bool" where
  "retrievalRefOk q \<longleftrightarrow> boundedId (ref_store q) \<and> boundedId (ref_doc q) \<and> startsWith (ref_doc q) ''page:''"

definition validRetainedReceipt :: "CanonReceipt \<Rightarrow> bool" where
  "validRetainedReceipt r \<longleftrightarrow>
     isUlid (cr_receipt_id r) \<and> boundedIds (cr_claim_ids r) \<and>
     boundedId (cr_page_path r) \<and> pagePathOk (cr_page_path r) \<and>
     optionally SHA256_HEX (cr_before_hash r) \<and> SHA256_HEX (cr_after_hash r) \<and>
     optionally boundedId (cr_archive_path r) \<and>
     receiptProducer (cr_producer r) \<and> optionally boundedId (cr_model_ref r) \<and>
     0 \<le> cr_confidence r \<and> cr_confidence r \<le> 1 \<and>
     boundedIds (cr_provenance r) \<and>
     length (cr_superseded r) \<le> MAX_CANON_IDENTITY_BINDINGS \<and>
     list_all (\<lambda>(i, k). boundedId i \<and> optionally boundedId k) (cr_superseded r) \<and>
     length (cr_candidates r) \<le> 512 \<and> list_all candidateOk (cr_candidates r) \<and>
     length (cr_retrieval_ops r) \<le> 512 \<and> list_all retrievalRefOk (cr_retrieval_ops r) \<and>
     optionally boundedId (cr_reverts r) \<and> cr_reverted_by r = None \<and> isRfc3339 (Str (cr_at r)) \<and>
     assertReceiptPaths (Str (cr_page_path r)) (case cr_archive_path r of None \<Rightarrow> Null | Some p \<Rightarrow> Str p) = Inr ()"

section \<open>The intent\<close>

text \<open>\<open>cc_claim_kind\<close> is \<open>None\<close> for \<open>"revert"\<close>.\<close>

record CanonCompletion =
  cc_mode :: ReceiptKind
  cc_claim_kind :: "ClaimKind option"
  cc_page_id :: "string option"
  cc_subject_key :: "string option"
  cc_original :: "string option"

record Commit =
  cm_receipt :: CanonReceipt
  cm_before :: "string option"
  cm_after :: "string option"
  cm_completion :: CanonCompletion

definition imageHash :: "CanonIo \<Rightarrow> string option \<Rightarrow> string" where
  "imageHash io bytes = (case bytes of None \<Rightarrow> ABSENT_PAGE_HASH io | Some t \<Rightarrow> hash_bytes io t)"

definition pageSources :: "string option \<Rightarrow> CanonError + string list" where
  "pageSources bytes =
     (case bytes of
        None \<Rightarrow> Inr []
      | Some t \<Rightarrow>
          andThen (parsedPage (parseFrontmatter t)) (\<lambda>page.
            let raw = field (page_data page) ''sources''
            in guard (isStringArray raw) (RecoveryError IntentInvalid)
                 (Inr (map eventIdFromReference (sourceTexts raw)))))"

text \<open>The hashes are those of the images, and the archive is named exactly when there is an
  image to keep.  A revert says that the page was absent by its hash, a write by \<open>null\<close>.\<close>

definition imagesBound :: "CanonIo \<Rightarrow> Commit \<Rightarrow> bool" where
  "imagesBound io c \<longleftrightarrow>
     (let r = cm_receipt c
      in cr_before_hash r =
           (case cm_before c of
              None \<Rightarrow> if cr_kind r = RevertReceipt then Some (ABSENT_PAGE_HASH io) else None
            | Some t \<Rightarrow> Some (hash_bytes io t)) \<and>
         cr_after_hash r = imageHash io (cm_after c) \<and>
         (cr_archive_path r = map_option (\<lambda>_. archiveRelPath (cr_page_path r) (cr_receipt_id r)) (cm_before c) \<or>
          (cr_kind r = PurgeRewrite \<and> cr_archive_path r = None)))"

definition completionBound :: "CanonReceipt \<Rightarrow> CanonCompletion \<Rightarrow> bool" where
  "completionBound r cc \<longleftrightarrow>
     optionally boundedId (cc_page_id cc) \<and> optionally boundedId (cc_subject_key cc) \<and>
     optionally boundedId (cc_original cc) \<and> cc_mode cc = cr_kind r \<and>
     (case cr_kind r of
        RevertReceipt \<Rightarrow> cr_reverts r = cc_original cc \<and> cr_writer r = RevertWriter \<and> cc_claim_kind cc = None
      | PurgeRewrite \<Rightarrow> cr_writer r = LoopWriter \<and> cc_claim_kind cc = Some PurgeReviewKind
      | WriteReceipt \<Rightarrow>
          cc_original cc = None \<and> cr_reverts r = None \<and> cc_claim_kind cc \<notin> {None, Some PurgeReviewKind})"

definition afterImage :: "Commit \<Rightarrow> CanonError + unit" where
  "afterImage c =
     (case cm_after c of
        None \<Rightarrow> Inr ()
      | Some t \<Rightarrow>
          andThen (parsedPage (parseFrontmatter t)) (\<lambda>page.
            guard (validatePage (page_data page) = [] \<and>
                (case cc_page_id (cm_completion c) of
                   None \<Rightarrow> field (page_data page) ''id'' = Null
                 | Some i \<Rightarrow> field (page_data page) ''id'' = Str i)) (RecoveryError IntentInvalid)
              (andThen (written (serializePage page)) (\<lambda>text.
                guard (text = t) (RecoveryError IntentInvalid) (Inr ())))))"

text \<open>The events a commit rests on, and those it derives from.\<close>

definition intentEvents :: "Commit \<Rightarrow> CanonError + string list \<times> string list" where
  "intentEvents c =
     andThen (pageSources (cm_before c)) (\<lambda>prior.
     andThen (pageSources (cm_after c)) (\<lambda>next.
       let own = map eventIdFromReference (cr_provenance (cm_receipt c))
       in Inr (sort (remdups (own @ prior @ next)),
               sort (remdups ((if cc_mode (cm_completion c) = PurgeRewrite then [] else own) @ next)))))"

definition imagesFit :: "Commit \<Rightarrow> bool" where
  "imagesFit c \<longleftrightarrow>
     optionally (\<lambda>t. byteLength t \<le> MAX_CANON_IMAGE_BYTES) (cm_before c) \<and>
     optionally (\<lambda>t. byteLength t \<le> MAX_CANON_IMAGE_BYTES) (cm_after c)"

definition checkIntent :: "CanonIo \<Rightarrow> Commit \<Rightarrow> CanonError + unit" where
  "checkIntent io c =
     andThen (intentEvents c) (\<lambda>(events, derive).
     guard (validRetainedReceipt (cm_receipt c) \<and> imagesBound io c \<and>
         completionBound (cm_receipt c) (cm_completion c)) (RecoveryError IntentInvalid)
     (andThen (afterImage c) (\<lambda>_.
     guard (boundedIds events) (RecoveryError IntentInvalid)
     (guard (derive_allowed io derive) SourceDenied (Inr ())))))"

section \<open>The bytes\<close>

definition putFile :: "string \<Rightarrow> string option \<Rightarrow> CanonDb \<Rightarrow> CanonDb" where
  "putFile path text db = db\<lparr>vault := (vault db)(path := text)\<rparr>"

text \<open>\<open>currentState\<close>: whether the bytes still have to be published.\<close>

definition published :: "Commit \<Rightarrow> CanonDb \<Rightarrow> CanonError + bool" where
  "published c db =
     (let actual = vault db (cr_page_path (cm_receipt c));
          kept = Option.bind (cr_archive_path (cm_receipt c)) (vault db)
      in if actual = cm_after c then
           (if cr_archive_path (cm_receipt c) \<noteq> None \<and> kept \<noteq> cm_before c then
              (if actual = cm_before c \<and> kept = None then Inr False else Inl (RecoveryError RecoveryArchiveChanged))
            else Inr True)
         else if actual = cm_before c then Inr False
         else Inl (RecoveryError RecoveryPageChanged))"

text \<open>\<open>writePage\<close> for an admitted image: the archive first, never over another copy.\<close>

definition writeImages :: "Commit \<Rightarrow> CanonDb \<Rightarrow> CanonError + CanonDb" where
  "writeImages c db =
     (case (cm_before c, cr_archive_path (cm_receipt c)) of
        (Some t, Some archive) \<Rightarrow>
          guard (vault db archive = None \<or> vault db archive = Some t) ArchiveExists
            (Inr (putFile (cr_page_path (cm_receipt c)) (cm_after c) (putFile archive (Some t) db)))
      | _ \<Rightarrow> Inr (putFile (cr_page_path (cm_receipt c)) (cm_after c) db))"

definition publish :: "Commit \<Rightarrow> CanonDb \<Rightarrow> CanonError + CanonDb" where
  "publish c db =
     andThen (published c db) (\<lambda>already.
     andThen (if already then Inr db else writeImages c db) (\<lambda>db'.
     andThen (published c db') (\<lambda>ok.
     guard ok (RecoveryError RecoveryPageChanged) (Inr db'))))"

section \<open>The rows\<close>

definition onTables :: "(ClaimsDb \<Rightarrow> StoreError + ClaimsDb) \<Rightarrow> CanonDb \<Rightarrow> CanonError + CanonDb" where
  "onTables f db = andThen (stored (f (tables db))) (\<lambda>t. Inr (db\<lparr>tables := t\<rparr>))"

text \<open>The receipt is put on its claims, on what they superseded and on their proposals, and
  their keys are bound to the page.\<close>

definition bindReceipt :: "CanonReceipt \<Rightarrow> ClaimsDb \<Rightarrow> ClaimsDb" where
  "bindReceipt r t =
     t\<lparr>claims := map (\<lambda>c. if claim_id c \<in> set (cr_claim_ids r) then c\<lparr>receipt_id := Some (cr_receipt_id r)\<rparr> else c)
          (claims t),
       supersessions := map (\<lambda>s. if winner s \<in> set (cr_claim_ids r) then s\<lparr>sup_receipt_id := cr_receipt_id r\<rparr> else s)
          (supersessions t),
       proposals := map (\<lambda>(i, s). if i \<in> set (cr_claim_ids r) then (i, ''promoted'') else (i, s)) (proposals t)\<rparr>"

definition bindKey :: "string \<Rightarrow> string \<Rightarrow> CanonDb \<Rightarrow> string \<Rightarrow> CanonDb" where
  "bindKey page stamp db i =
     (case Option.bind (getClaim (tables db) i) claim_key of
        None \<Rightarrow> db
      | Some key \<Rightarrow>
          if list_ex (\<lambda>(k, p, _). k = key \<and> p = page) (claim_bindings db) then db
          else db\<lparr>claim_bindings := claim_bindings db @ [(key, page, stamp)]\<rparr>)"

definition completeWrite :: "CanonReceipt \<Rightarrow> string option \<Rightarrow> CanonDb \<Rightarrow> CanonDb" where
  "completeWrite r pageId db =
     (let bound = db\<lparr>tables := bindReceipt r (tables db)\<rparr>
      in case pageId of None \<Rightarrow> bound | Some page \<Rightarrow> foldl (bindKey page (cr_at r)) bound (cr_claim_ids r))"

text \<open>An edit that was superseded before it was written stays retired.\<close>

definition queuedEdit :: "ConflictRule option \<Rightarrow> Claim \<Rightarrow> bool" where
  "queuedEdit rule c \<longleftrightarrow>
     rule = Some R3 \<and> receipt_id c = None \<and> producer c = Deterministic \<and>
     isString (field (frontmatter c) ''x-connector'') \<and> isString (field (frontmatter c) ''x-source-record-id'')"

definition reinstateAgain :: "ClaimsDb \<Rightarrow> string \<Rightarrow> StoreError + ClaimsDb" where
  "reinstateAgain t i =
     (case getClaim t i of None \<Rightarrow> Inr t | Some c \<Rightarrow> reinstateClaim t i (valid_to c))"

definition reinstateLoser ::
  "(string \<rightharpoonup> string option \<times> ConflictRule) \<Rightarrow> ClaimsDb \<Rightarrow> string \<Rightarrow> StoreError + ClaimsDb" where
  "reinstateLoser prior t i =
     (let rule = map_option snd (prior i)
      in case getClaim t i of
           Some c \<Rightarrow> if queuedEdit rule c then Inr t
                     else reinstateClaim t i (case prior i of None \<Rightarrow> None | Some (until, _) \<Rightarrow> until)
         | None \<Rightarrow> reinstateClaim t i (case prior i of None \<Rightarrow> None | Some (until, _) \<Rightarrow> until))"

definition loserAgain ::
  "string \<Rightarrow> string option \<Rightarrow> string \<Rightarrow> (string \<rightharpoonup> string option \<times> ConflictRule) \<Rightarrow> ClaimsDb \<Rightarrow> string \<Rightarrow> StoreError + ClaimsDb" where
  "loserAgain winnerId winnerFrom stamp prior t i =
     andThen (minTimestamp (case prior i of None \<Rightarrow> None | Some (until, _) \<Rightarrow> until) winnerFrom) (\<lambda>until.
       resupersedeClaim t i winnerId stamp until)"

text \<open>The rows of a receipt's supersessions by loser; a later row replaces an earlier one.\<close>

definition priorsOf :: "ClaimsDb \<Rightarrow> string \<Rightarrow> (string \<rightharpoonup> string option \<times> ConflictRule)" where
  "priorsOf t i = map_of (rev (map (\<lambda>(_, l, until, rule). (l, until, rule)) (supersessionsForReceipt t i)))"

definition restoreRows :: "CanonReceipt \<Rightarrow> string \<Rightarrow> ClaimsDb \<Rightarrow> StoreError + ClaimsDb" where
  "restoreRows original stamp t =
     (if cr_kind original = RevertReceipt then
        andThen (foldM reinstateAgain t (cr_claim_ids original)) (\<lambda>t1.
          let prior = (case cr_reverts original of None \<Rightarrow> Map.empty | Some i \<Rightarrow> priorsOf t1 i)
          in case cr_claim_ids original of
               [] \<Rightarrow> Inr t1
             | win # _ \<Rightarrow>
                 foldM (loserAgain win (map_option valid_from (getClaim t1 win)) stamp prior) t1
                   (map fst (cr_superseded original)))
      else
        andThen (foldM (\<lambda>t i. markClaimReverted t i stamp) t (cr_claim_ids original)) (\<lambda>t1.
          foldM (reinstateLoser (priorsOf t1 (cr_receipt_id original))) t1 (map fst (cr_superseded original))))"

definition requeue :: "CanonReceipt \<Rightarrow> string \<Rightarrow> ClaimsDb \<Rightarrow> ClaimsDb" where
  "requeue original stamp t =
     (let stores = rev (remdups (rev (map ref_store (cr_retrieval_ops original))));
          ids = rev (remdups (rev (cr_claim_ids original @ map fst (cr_superseded original))))
      in foldl (\<lambda>t i.
           case getClaim t i of
             None \<Rightarrow> t
           | Some c \<Rightarrow> foldl (\<lambda>t s. enqueueClaimRetrieval (Some s) c stamp t) t stores) t ids)"

definition restoreClaimLifecycle :: "CanonReceipt \<Rightarrow> string \<Rightarrow> ClaimsDb \<Rightarrow> StoreError + ClaimsDb" where
  "restoreClaimLifecycle original stamp t =
     andThen (restoreRows original stamp t) (\<lambda>t1. Inr (requeue original stamp t1))"

definition completeRevert :: "CanonReceipt \<Rightarrow> string option \<Rightarrow> CanonDb \<Rightarrow> CanonError + CanonDb" where
  "completeRevert r original db =
     (case Option.bind original (getCanonReceipt db) of
        None \<Rightarrow> Inl (RecoveryError PredecessorChanged)
      | Some first \<Rightarrow>
          guard (cr_reverted_by first = None) (RecoveryError PredecessorChanged)
            (andThen (onTables (restoreClaimLifecycle first (cr_at r)) db) (\<lambda>db'.
              Inr (markReceiptReverted (cr_receipt_id first) (cr_receipt_id r) db'))))"

definition indexPage :: "Commit \<Rightarrow> CanonDb \<Rightarrow> CanonDb" where
  "indexPage c db =
     (let r = cm_receipt c
      in case (cm_after c, cc_page_id (cm_completion c)) of
           (None, _) \<Rightarrow> deletePageIndex (cr_page_path r) db
         | (Some _, None) \<Rightarrow> db
         | (Some _, Some page) \<Rightarrow>
             upsertPageIndex \<lparr>pi_page_id = page, pi_rel_path = cr_page_path r,
               pi_subject_key = cc_subject_key (cm_completion c),
               pi_last_receipt = Some (cr_receipt_id r), pi_last_hash = cr_after_hash r\<rparr> db)"

definition completeRows :: "Commit \<Rightarrow> CanonDb \<Rightarrow> CanonError + CanonDb" where
  "completeRows c db =
     (let r = cm_receipt c; cc = cm_completion c
      in andThen (insertReceiptRow r db) (\<lambda>db1.
         andThen (case cc_mode cc of
             WriteReceipt \<Rightarrow> Inr (completeWrite r (cc_page_id cc) db1)
           | RevertReceipt \<Rightarrow> completeRevert r (cc_original cc) db1
           | PurgeRewrite \<Rightarrow> Inr db1) (\<lambda>db2.
         Inr (indexPage c db2))))"

section \<open>The commit\<close>

definition commitCanonWrite :: "CanonIo \<Rightarrow> CanonDb \<Rightarrow> Commit \<Rightarrow> CanonError + unit \<Rightarrow> CanonError + CanonDb" where
  "commitCanonWrite io db c admission =
     guard (imagesFit c) (WriteError PageTooLarge)
     (andThen admission (\<lambda>_.
     andThen (checkIntent io c) (\<lambda>_.
     andThen (publish c db) (\<lambda>db1.
       completeRows c (appendReceiptLine (cm_receipt c) db1)))))"

end
