(* ===== verification/Canon_Write.thy ===== *)
theory Canon_Write
  imports Arbiter Canon_Commit
begin

text \<open>
  \<open>packages/core/src/canon/apply.ts\<close>: the single writer, from claims and a decision to the new
  page and its receipt, for ordinary claims, not typed world claims.  What a write stamps -
  the identity of a new page, of the receipt, the time - are arguments.
\<close>

section \<open>Aggregates of a batch\<close>

definition RESERVED_KEYS :: "string list" where
  "RESERVED_KEYS = [''id'', ''status'', ''sensitivity'', ''sources'', ''taint'']"

definition MAX_CLAIMS_PER_WRITE :: nat where "MAX_CLAIMS_PER_WRITE = 64"
definition MAX_PAGE_CLAIMS :: nat where "MAX_PAGE_CLAIMS = 256"

definition strictest :: "Sensitivity list \<Rightarrow> Sensitivity" where
  "strictest given =
     foldl (\<lambda>sofar v. if SENSITIVITY_ORDER v > SENSITIVITY_ORDER sofar then v else sofar) Public given"

definition lowestAuthority :: "Claim list \<Rightarrow> AuthorityTier" where
  "lowestAuthority cs =
     foldl (\<lambda>low c. if AUTHORITY_TIERS (authority c) < AUTHORITY_TIERS low then authority c else low)
       OwnerCorrection cs"

definition meanConfidence :: "Claim list \<Rightarrow> rat" where
  "meanConfidence cs =
     (let total = foldl (\<lambda>sum c. addDouble sum (confidence c)) 0 cs;
          mean = toDouble (total / of_nat (length cs))
      in toDouble (of_int \<lfloor>mulDouble mean 10000 + 1 / 2\<rfloor> / 10000))"

definition unionTexts :: "string list list \<Rightarrow> string list" where
  "unionTexts xss = foldl (\<lambda>out item. if item \<in> set out then out else out @ [item]) [] (concat xss)"

definition composeBody :: "Claim list \<Rightarrow> string" where
  "composeBody cs =
     (let bodies = filter (\<lambda>b. b \<noteq> []) (map (\<lambda>c. trim (body c)) cs);
          separator = (if list_ex (\<lambda>b. NEWLINE \<in> set b) bodies then [NEWLINE, NEWLINE] else '' '')
      in join_with separator bodies @ [NEWLINE])"

text \<open>The names every object of the language inherits, which \<open>in\<close> finds too.\<close>

definition INHERITED :: "string list" where
  "INHERITED = [''constructor'', ''__defineGetter__'', ''__defineSetter__'', ''hasOwnProperty'',
     ''__lookupGetter__'', ''__lookupSetter__'', ''isPrototypeOf'', ''propertyIsEnumerable'',
     ''toString'', ''valueOf'', ''__proto__'', ''toLocaleString'']"

definition assertBatch :: "Claim list \<Rightarrow> CanonError + Claim" where
  "assertBatch cs =
     (case cs of
        [] \<Rightarrow> Inl (WriteError NothingToWrite)
      | primary # _ \<Rightarrow>
          guard (length cs \<le> MAX_CLAIMS_PER_WRITE) (WriteError BatchTooLarge)
            (foldM (\<lambda>p c.
               guard (producer c = producer p \<and> model_ref c = model_ref p) (WriteError BatchMismatch)
               (guard (target c = target p \<or> (subject c \<noteq> None \<and> subject c = subject p)) (WriteError BatchMismatch)
               (guard (kind c = kind p) (WriteError BatchMismatch)
               (guard (\<not> list_ex (\<lambda>k. k \<in> fst ` set (frontmatter c)) RESERVED_KEYS) (WriteError FrontmatterReserved)
                 (Inr p))))) primary cs))"

text \<open>\<open>JSON.stringify\<close> of a frontmatter value, which holds no object; \<open>None\<close> is \<open>undefined\<close>.\<close>

fun jsonValue :: "js \<Rightarrow> string option" where
  "jsonValue (Str s) = Some (jsonString s)"
| "jsonValue (Boolean b) = Some (if b then ''true'' else ''false'')"
| "jsonValue (Num q) = Some (numberText q)"
| "jsonValue (Arr vs) = Some (CHR ''['' # join_with '',''
     (map (\<lambda>v. case jsonValue v of None \<Rightarrow> ''null'' | Some t \<Rightarrow> t) vs) @ '']'')"
| "jsonValue Undefined = None"
| "jsonValue Other = None"
| "jsonValue (Obj kvs) = None"
| "jsonValue v = Some ''null''"

type_synonym entries = "(string \<times> js) list"

definition mergeKey :: "entries \<Rightarrow> string \<times> js \<Rightarrow> CanonError + entries" where
  "mergeKey merged entry =
     (let (key, v) = entry;
          present = (key \<in> fst ` set merged \<or> key \<in> set INHERITED);
          old = (if key \<in> fst ` set merged then jsonValue (field merged key)
                 else if key = ''__proto__'' then Some ''{}'' else None)
      in guard (\<not> (present \<and> old \<noteq> jsonValue v)) (WriteError FrontmatterConflict) (Inr (setKey key v merged)))"

definition mergedFrontmatter :: "Claim list \<Rightarrow> CanonError + entries" where
  "mergedFrontmatter cs = foldM mergeKey [] (concat (map (\<lambda>c. objectEntries (Obj (frontmatter c))) cs))"

definition assertPageType :: "entries \<Rightarrow> CanonError + unit" where
  "assertPageType d =
     (case field d ''type'' of
        Str s \<Rightarrow> guard (s \<in> set PAGE_TYPES) (WriteError PageTypeInvalid) (Inr ())
      | _ \<Rightarrow> Inl (WriteError PageTypeInvalid))"

definition existingSources :: "VaultPage \<Rightarrow> CanonError + string list" where
  "existingSources page =
     (let raw = field (page_data page) ''sources''
      in if raw = Undefined then Inr []
         else guard (isStringArray raw) (WriteError DecisionStale) (Inr (sourceTexts raw)))"

section \<open>Claims and provenance\<close>

text \<open>The fields a producer supplies, with the columns the life of a claim changes blanked.\<close>

definition claimContent :: "Claim \<Rightarrow> Claim" where
  "claimContent c =
     c\<lparr>status := Live, receipt_id := None, superseded_by := None, retracted_at := None,
       valid_to := None, corroboration := 0, last_confirmed_at := None\<rparr>"

definition persistedClaims :: "CanonDb \<Rightarrow> Claim list \<Rightarrow> CanonError + Claim list" where
  "persistedClaims db cs =
     mapM (\<lambda>c.
       case getClaim (tables db) (claim_id c) of
         None \<Rightarrow> Inl (WriteError ClaimUnknown)
       | Some row \<Rightarrow>
           guard (claimContent row = claimContent c) (WriteError ClaimMismatch)
           (guard (status row = Live) (WriteError ClaimNotLive)
           (guard (receipt_id row = None) (WriteError DecisionStale) (Inr row)))) cs"

definition assertProvenance :: "CanonIo \<Rightarrow> CanonDb \<Rightarrow> string list \<Rightarrow> CanonError + unit" where
  "assertProvenance io db ids =
     guard (derive_allowed io ids) SourceDenied
     (guard (ids \<noteq> []) (WriteError UnresolvedProvenance)
     (guard (countEvents (tables db) ids = length ids) (WriteError UnresolvedProvenance) (Inr ())))"

definition liveClaimsOnPage :: "CanonDb \<Rightarrow> string \<Rightarrow> string list \<Rightarrow> Claim list" where
  "liveClaimsOnPage db relPath exclude =
     filter (\<lambda>c. claim_id c \<notin> set exclude)
       (take MAX_PAGE_CLAIMS
         (listByAge (filter (\<lambda>c.
            map_option cr_page_path (Option.bind (receipt_id c) (getCanonReceipt db)) = Some relPath \<and>
            status c = Live \<and> kind c \<in> {EntityKind, ClaimClaim}) (claims (tables db)))))"

definition targetOf :: "TargetDecision \<Rightarrow> CanonError + string \<times> string option" where
  "targetOf d =
     andThen (case d of
         CreateAt p \<Rightarrow> Inr (p, None)
       | EditAt i p _ \<Rightarrow> Inr (p, Some i)
       | SupersedeAt i p _ \<Rightarrow> Inr (p, Some i)
       | ConflictAt _ chosen \<Rightarrow> Inr (pc_rel_path chosen, Some (pc_page_id chosen))
       | SkipWrite _ \<Rightarrow> Inl (WriteError NothingToWrite)) (\<lambda>t.
     andThen (pathOk (assertPageRelPath (Str (fst t)))) (\<lambda>_.
     guard (snd t \<noteq> Some []) (WriteError DecisionStale) (Inr t)))"

section \<open>The page\<close>

record Prepared =
  pr_page :: VaultPage
  pr_action :: PageAction
  pr_taint :: ClaimTaint
  pr_sensitivity :: Sensitivity

definition batchTaint :: "Claim list \<Rightarrow> ClaimTaint" where
  "batchTaint cs = (if list_ex (\<lambda>c. taint c = QuotedTaint) cs then QuotedTaint else CleanTaint)"

text \<open>\<open>for (const key of Object.keys(extra).sort()) if (key !== "type") data[key] = extra[key]\<close>\<close>

definition setExtras :: "entries \<Rightarrow> entries \<Rightarrow> entries" where
  "setExtras extra d =
     foldl (\<lambda>d k. if k = ''type'' then d else setKey k (field extra k) d) d (sort (map fst extra))"

definition prepareCreate :: "Claim list \<Rightarrow> string \<Rightarrow> string list \<Rightarrow> bool \<Rightarrow> CanonError + Prepared" where
  "prepareCreate cs pageId ids ambiguous =
     andThen (mergedFrontmatter cs) (\<lambda>extra.
       let sens = strictest (map claim_sensitivity cs);
           tnt = batchTaint cs;
           subj = (case cs of [] \<Rightarrow> None | c # _ \<Rightarrow> subject c);
           typ = (if field extra ''type'' \<noteq> Undefined \<and> field extra ''type'' \<noteq> Null then field extra ''type''
                  else (case subj of None \<Rightarrow> Undefined | Some s \<Rightarrow> Str (subjectPageType s)));
           titled = (case subj of
               Some s \<Rightarrow> if field extra ''title'' = Undefined
                         then [(''title'', Str (if CHR '':'' \<in> set s then tl (dropWhile (\<lambda>c. c \<noteq> CHR '':'') s) else s))]
                         else []
             | None \<Rightarrow> []);
           d = [(''id'', Str pageId), (''type'', typ)] @ titled @
               [(''status'', Str ''active''), (''sensitivity'', Str (labelText sens)),
                (''taint'', Str (taintText tnt)), (''sources'', Arr (map Str ids))]
       in andThen (assertPageType d) (\<lambda>_.
            let d1 = setExtras extra d;
                d2 = (case subj of
                    Some s \<Rightarrow> if ''x-subject-id'' \<in> fst ` set extra then d1 else setKey ''x-subject-id'' (Str s) d1
                  | None \<Rightarrow> d1);
                d3 = (if ambiguous then setKey ''x-ambiguous'' (Boolean True) d2 else d2)
            in Inr \<lparr>pr_page = \<lparr>page_data = d3, page_body = composeBody cs\<rparr>, pr_action = CreatePage,
                 pr_taint = tnt, pr_sensitivity = sens\<rparr>))"

definition dropKey :: "string \<Rightarrow> entries \<Rightarrow> entries" where
  "dropKey k d = filter (\<lambda>e. fst e \<noteq> k) d"

definition trimEnd :: "string \<Rightarrow> string" where
  "trimEnd s = rev (dropWhile isSpace (rev s))"

definition priorLabel :: "entries \<Rightarrow> Sensitivity list" where
  "priorLabel d =
     (case pick labelText [Public, Personal, Private] (field d ''sensitivity'') of None \<Rightarrow> [] | Some l \<Rightarrow> [l])"

definition isSupersede :: "TargetDecision \<Rightarrow> bool" where
  "isSupersede d \<longleftrightarrow> (case d of SupersedeAt _ _ _ \<Rightarrow> True | _ \<Rightarrow> False)"

definition isConflict :: "TargetDecision \<Rightarrow> bool" where
  "isConflict d \<longleftrightarrow> (case d of ConflictAt _ _ \<Rightarrow> True | _ \<Rightarrow> False)"

definition losersIn :: "TargetDecision \<Rightarrow> string list" where
  "losersIn d = (case d of SupersedeAt _ _ losers \<Rightarrow> losers | _ \<Rightarrow> [])"

text \<open>Body, taint, status and action of a revision, by the kind of the primary claim.\<close>

definition revisedBody ::
  "CanonDb \<Rightarrow> Claim list \<Rightarrow> ClaimKind \<Rightarrow> ExistingPage \<Rightarrow> TargetDecision \<Rightarrow>
   CanonError + string \<times> ClaimTaint \<times> PageAction" where
  "revisedBody db cs k existing decision =
     (let prior = (if field (page_data (ex_page existing)) ''taint'' = Str ''quoted'' then QuotedTaint else CleanTaint);
          incoming = batchTaint cs
      in case k of
           EditKind \<Rightarrow> Inr (composeBody cs, incoming, EditPage)
         | MergeKind \<Rightarrow>
             Inr (trimEnd (page_body (ex_page existing)) @ [NEWLINE, NEWLINE] @ composeBody cs,
               if prior = QuotedTaint then QuotedTaint else incoming, EditPage)
         | DeletionKind \<Rightarrow> Inr (page_body (ex_page existing), prior, ArchivePage)
         | PurgeReviewKind \<Rightarrow> Inl (WriteError ClaimKindRetired)
         | _ \<Rightarrow>
             (let kept = liveClaimsOnPage db (ex_rel_path existing) (map claim_id cs @ losersIn decision)
              in Inr (composeBody (kept @ cs), batchTaint (kept @ cs), EditPage)))"

definition prepareRevision ::
  "CanonDb \<Rightarrow> Claim list \<Rightarrow> Claim \<Rightarrow> ExistingPage \<Rightarrow> TargetDecision \<Rightarrow> string list \<Rightarrow> CanonError + Prepared" where
  "prepareRevision db cs primary existing decision ids =
     andThen (mergedFrontmatter cs) (\<lambda>extra.
       let d = setExtras extra (page_data (ex_page existing))
       in andThen (assertPageType d) (\<lambda>_.
          andThen (existingSources (ex_page existing)) (\<lambda>prior.
          andThen (revisedBody db cs (kind primary) existing decision) (\<lambda>(text, tnt, action).
            let sens = strictest (map claim_sensitivity cs @ priorLabel (page_data (ex_page existing)));
                d1 = (if kind primary = DeletionKind then setKey ''status'' (Str ''archived'') d else d);
                d2 = setKey ''sources'' (Arr (map Str (unionTexts [prior, ids])))
                  (setKey ''taint'' (Str (taintText tnt)) (setKey ''sensitivity'' (Str (labelText sens)) d1));
                d3 = (if isSupersede decision \<or> list_ex (\<lambda>c. authority c = OwnerCorrection) cs
                      then dropKey ''x-contested'' d2 else d2);
                d4 = (if isConflict decision then setKey ''x-ambiguous'' (Boolean True) d3 else d3);
                d5 = (if isSupersede decision \<and> ''x-body-truncated'' \<notin> fst ` set extra
                      then dropKey ''x-body-truncated'' d4 else d4)
            in Inr \<lparr>pr_page = \<lparr>page_data = d5, page_body = text\<rparr>, pr_action = action,
                 pr_taint = tnt, pr_sensitivity = sens\<rparr>))))"

definition supersededRefs :: "CanonDb \<Rightarrow> TargetDecision \<Rightarrow> CanonError + (string \<times> string option) list" where
  "supersededRefs db decision =
     mapM (\<lambda>i.
       case getClaim (tables db) i of
         None \<Rightarrow> Inl (WriteError DecisionStale)
       | Some c \<Rightarrow>
           Inr (i, case claim_key c of
                     Some k \<Rightarrow> Some k
                   | None \<Rightarrow> Option.bind (Option.bind (superseded_by c) (getClaim (tables db))) claim_key))
       (losersIn decision)"

section \<open>The write\<close>

record Stamps =
  st_page :: string
  st_receipt :: string
  st_now :: string

text \<open>The page a decision expects: none for a creation, else one with the same identity.\<close>

definition expectPage ::
  "TargetDecision \<Rightarrow> string option \<Rightarrow> ExistingPage option \<Rightarrow> CanonError + unit" where
  "expectPage decision expectedId existing =
     (case decision of
        CreateAt _ \<Rightarrow> guard (existing = None) (WriteError PageExists) (Inr ())
      | _ \<Rightarrow>
          (case existing of
             None \<Rightarrow> Inl (WriteError PageMissing)
           | Some e \<Rightarrow>
               guard (map_option Str expectedId = Some (field (page_data (ex_page e)) ''id''))
                 (WriteError DecisionStale) (Inr ())))"

definition preparePage ::
  "CanonDb \<Rightarrow> Claim list \<Rightarrow> Claim \<Rightarrow> string \<Rightarrow> ExistingPage option \<Rightarrow> TargetDecision \<Rightarrow> string list \<Rightarrow>
   CanonError + Prepared" where
  "preparePage db cs primary pageId existing decision ids =
     (case existing of
        None \<Rightarrow> prepareCreate cs pageId ids (isConflict decision)
      | Some e \<Rightarrow> prepareRevision db cs primary e decision ids)"

text \<open>\<open>raiseSensitivity\<close> of \<open>contracts/event.ts\<close> and \<open>sourceSensitivity\<close> of
  \<open>ledger/source-grants.ts\<close>: the label is raised to the floor of each event's source.\<close>

definition raiseSensitivity :: "Sensitivity \<Rightarrow> Sensitivity \<Rightarrow> Sensitivity" where
  "raiseSensitivity left right = (if SENSITIVITY_ORDER left \<ge> SENSITIVITY_ORDER right then left else right)"

definition sourceSensitivity :: "CanonIo \<Rightarrow> string list \<Rightarrow> Sensitivity \<Rightarrow> Sensitivity" where
  "sourceSensitivity io ids current =
     foldl (\<lambda>label i. case source_floor io i of None \<Rightarrow> label | Some f \<Rightarrow> raiseSensitivity label f) current ids"

text \<open>The label of the page is raised to that of its sources.\<close>

definition raiseLabel :: "CanonIo \<Rightarrow> string list \<Rightarrow> Prepared \<Rightarrow> Prepared" where
  "raiseLabel io ids p =
     (let s = sourceSensitivity io ids (pr_sensitivity p)
      in p\<lparr>pr_sensitivity := s,
           pr_page := (pr_page p)\<lparr>page_data := setKey ''sensitivity'' (Str (labelText s)) (page_data (pr_page p))\<rparr>\<rparr>)"

definition goesLive :: "ExistingPage option \<Rightarrow> Prepared \<Rightarrow> bool" where
  "goesLive existing p \<longleftrightarrow>
     (case existing of None \<Rightarrow> True | Some e \<Rightarrow> field (page_data (ex_page e)) ''status'' = Str ''archived'') \<and>
     field (page_data (pr_page p)) ''status'' \<noteq> Str ''archived''"

text \<open>\<open>rel_path.replace(/\.md$/, "")\<close>\<close>

definition withoutMd :: "string \<Rightarrow> string" where
  "withoutMd p = (if endsWith p ''.md'' then take (length p - 3) p else p)"

definition tombstoneFits :: "Claim \<Rightarrow> string \<Rightarrow> string \<Rightarrow> ExistingPage option \<Rightarrow> Prepared \<Rightarrow> bool" where
  "tombstoneFits primary relPath pageId existing p \<longleftrightarrow>
     (case existing of
        None \<Rightarrow> False
      | Some e \<Rightarrow>
          pr_action p = ArchivePage \<and> target primary = Some (withoutMd relPath) \<and>
          page_body (pr_page p) = page_body (ex_page e) \<and>
          field (frontmatter primary) ''x-page-id'' = Str pageId \<and>
          field (frontmatter primary) ''x-page-hash'' = Str (ex_hash e))"

text \<open>\<open>admit\<close>: everything the write rests on, read again just before the bytes.\<close>

definition admitWrite ::
  "CanonIo \<Rightarrow> CanonDb \<Rightarrow> Claim list \<Rightarrow> Claim \<Rightarrow> string \<Rightarrow> string \<Rightarrow> ExistingPage option \<Rightarrow> string list \<Rightarrow>
   Prepared \<Rightarrow> CanonError + unit" where
  "admitWrite io db cs primary relPath pageId existing ids p =
     guard (\<not> erasure_pending (tables db)) (StoreFailure ErasurePending)
     (andThen (persistedClaims db cs) (\<lambda>_.
     andThen (assertProvenance io db ids) (\<lambda>_.
     andThen (existingSources (pr_page p)) (\<lambda>sources.
     guard (derive_allowed io sources) SourceDenied
     (guard (Str (labelText (sourceSensitivity io ids (pr_sensitivity p))) = field (page_data (pr_page p)) ''sensitivity'')
       (WriteError DecisionStale)
     (andThen
       (if list_ex (tombstone_bound io) cs
        then guard (list_all (tombstone_current io) cs \<and> tombstoneFits primary relPath pageId existing p)
               TombstoneStale (Inr ())
        else stored (requireExternalEvents (tables db) (unionTexts [ids, sources]))) (\<lambda>_.
     guard (case existing of None \<Rightarrow> True | Some e \<Rightarrow> revisionBasis io db relPath (ex_hash e) \<noteq> None)
       (RecoveryError HistoricalOrphan) (Inr ()))))))))"

definition writeReceipt ::
  "CanonIo \<Rightarrow> Stamps \<Rightarrow> Writer \<Rightarrow> Claim list \<Rightarrow> Claim \<Rightarrow> string \<Rightarrow> string \<Rightarrow> ExistingPage option \<Rightarrow>
   TargetDecision \<Rightarrow> Prepared \<Rightarrow> string \<Rightarrow> string list \<Rightarrow> (string \<times> string option) list \<Rightarrow> CanonReceipt" where
  "writeReceipt io st w cs primary relPath pageId existing decision p text ids refs =
     \<lparr>cr_receipt_id = st_receipt st, cr_kind = WriteReceipt, cr_claim_ids = map claim_id cs,
      cr_page_path = relPath, cr_page_action = pr_action p,
      cr_before_hash = map_option ex_hash existing, cr_after_hash = hash_bytes io text,
      cr_archive_path = map_option (\<lambda>_. archiveRelPath relPath (st_receipt st)) existing,
      cr_writer = w, cr_producer = producer primary, cr_model_ref = model_ref primary,
      cr_authority = lowestAuthority cs, cr_confidence = meanConfidence cs,
      cr_sensitivity = pr_sensitivity p, cr_taint = pr_taint p, cr_provenance = ids,
      cr_superseded = refs,
      cr_candidates = (case decision of ConflictAt candidates _ \<Rightarrow> candidates | _ \<Rightarrow> []),
      cr_retrieval_ops = (case retrieval_store io of None \<Rightarrow> []
        | Some s \<Rightarrow> [\<lparr>ref_store = s, ref_op = Upsert, ref_doc = ''page:'' @ pageId\<rparr>]),
      cr_reverts = None, cr_reverted_by = None, cr_at = st_now st\<rparr>"

text \<open>What the write decides before it is admitted: the page with its text, and the rows it will
  refer to.\<close>

record Draft =
  df_path :: string
  df_page_id :: string
  df_claims :: "Claim list"
  df_primary :: Claim
  df_existing :: "ExistingPage option"
  df_sources :: "string list"
  df_prepared :: Prepared
  df_text :: string
  df_refs :: "(string \<times> string option) list"

definition draftWrite ::
  "CanonIo \<Rightarrow> CanonDb \<Rightarrow> Claim list \<Rightarrow> TargetDecision \<Rightarrow> Stamps \<Rightarrow> CanonError + Draft" where
  "draftWrite io db given decision st =
     andThen (targetOf decision) (\<lambda>(relPath, expectedId).
     guard (\<not> projection_pending io relPath) (RecoveryError RecoveryProjectionPending)
     (andThen (assertBatch given) (\<lambda>_.
     andThen (persistedClaims db given) (\<lambda>cs.
     andThen (assertBatch cs) (\<lambda>primary.
     guard (kind primary \<noteq> PurgeReviewKind) (WriteError ClaimKindRetired)
     (andThen (readPage io db relPath) (\<lambda>existing.
       let pageId = (case expectedId of Some i \<Rightarrow> i | None \<Rightarrow> st_page st);
           ids = unionTexts (map provenance cs)
       in andThen (assertProvenance io db ids) (\<lambda>_.
          andThen (expectPage decision expectedId existing) (\<lambda>_.
          andThen (preparePage db cs primary pageId existing decision ids) (\<lambda>p.
          guard (validatePage (page_data (pr_page p)) = []) (WriteError FrontmatterInvalid)
          (guard (derive_allowed io (sourceTexts (field (page_data (pr_page p)) ''sources''))) SourceDenied
          (let q = raiseLabel io ids p
           in andThen (written (serializePage (pr_page q))) (\<lambda>text.
              case capacity io (goesLive existing q) (if existing = None then 1 else 0)
                  (int (byteLength text) - (case existing of None \<Rightarrow> 0 | Some e \<Rightarrow> int (byteLength (ex_content e)))) of
                Some e \<Rightarrow> Inl (WriteError e)
              | None \<Rightarrow>
                  andThen (supersededRefs db decision) (\<lambda>refs.
                    Inr \<lparr>df_path = relPath, df_page_id = pageId, df_claims = cs, df_primary = primary,
                      df_existing = existing, df_sources = ids, df_prepared = q, df_text = text,
                      df_refs = refs\<rparr>))))))))))))))"

definition draftReceipt :: "CanonIo \<Rightarrow> TargetDecision \<Rightarrow> Writer \<Rightarrow> Stamps \<Rightarrow> Draft \<Rightarrow> CanonReceipt" where
  "draftReceipt io decision w st d =
     writeReceipt io st w (df_claims d) (df_primary d) (df_path d) (df_page_id d) (df_existing d) decision
       (df_prepared d) (df_text d) (df_sources d) (df_refs d)"

definition draftCommit :: "CanonIo \<Rightarrow> TargetDecision \<Rightarrow> Writer \<Rightarrow> Stamps \<Rightarrow> Draft \<Rightarrow> Commit" where
  "draftCommit io decision w st d =
     \<lparr>cm_receipt = draftReceipt io decision w st d,
      cm_before = map_option ex_content (df_existing d), cm_after = Some (df_text d),
      cm_completion = \<lparr>cc_mode = WriteReceipt, cc_claim_kind = Some (kind (df_primary d)),
        cc_page_id = Some (df_page_id d),
        cc_subject_key = (case subject (df_primary d) of
            Some s \<Rightarrow> Some s
          | None \<Rightarrow> (case df_existing d of
              None \<Rightarrow> None
            | Some e \<Rightarrow> (case field (page_data (ex_page e)) ''x-subject-id'' of Str s \<Rightarrow> Some s | _ \<Rightarrow> None))),
        cc_original = None\<rparr>\<rparr>"

definition applyCanonWrite ::
  "CanonIo \<Rightarrow> CanonDb \<Rightarrow> Claim list \<Rightarrow> TargetDecision \<Rightarrow> Writer \<Rightarrow> Stamps \<Rightarrow> CanonError + CanonDb \<times> CanonReceipt" where
  "applyCanonWrite io db given decision w st =
     andThen (draftWrite io db given decision st) (\<lambda>d.
       let admit = admitWrite io db (df_claims d) (df_primary d) (df_path d) (df_page_id d) (df_existing d)
             (df_sources d) (df_prepared d);
           r = draftReceipt io decision w st d
       in andThen (commitCanonWrite io db (draftCommit io decision w st d)
            (andThen admit (\<lambda>_. guard (chargeable io r) BudgetRefused admit))) (\<lambda>db'.
            Inr (db', r)))"

end
