(* ===== verification/Canon_Undo.thy ===== *)
theory Canon_Undo
  imports Canon_Write
begin

text \<open>
  \<open>packages/core/src/canon/undo.ts\<close>: undoing a receipt.  The page goes back to the bytes that
  were archived, the claims to the life they had, and the undo is a receipt of its own.

  The model covers ordinary receipts.  An undo that meets a journalled intent belongs to
  recovery, and the set of undos in progress guards against a second call that starts before
  the first ends; neither is in a sequence of finished calls.  The stamps of the undos one
  call makes are a sequence.
\<close>

text \<open>\<open>stringArray\<close> of \<open>vault/pages.ts\<close>\<close>

fun pageStringArray :: "js \<Rightarrow> string list" where
  "pageStringArray (Arr vs) = (if list_all isString vs then map stringOf vs else [])"
| "pageStringArray v = []"

definition currentHash :: "CanonIo \<Rightarrow> CanonDb \<Rightarrow> string \<Rightarrow> string" where
  "currentHash io db relPath = imageHash io (vault db relPath)"

definition laterIds :: "CanonDb \<Rightarrow> CanonReceipt \<Rightarrow> string list" where
  "laterIds db r = map cr_receipt_id (laterReceiptsForPage db (cr_page_path r) (cr_at r) (cr_receipt_id r))"

definition loadArchivePage :: "CanonIo \<Rightarrow> CanonDb \<Rightarrow> string \<Rightarrow> CanonError + VaultPage" where
  "loadArchivePage io db path =
     andThen (pathOk (assertArchiveRelPath (Str path))) (\<lambda>_.
       case vault db path of
         None \<Rightarrow> Inl (UndoError ArchiveMissing)
       | Some text \<Rightarrow>
           andThen (parsedPage (parseFrontmatter text)) (\<lambda>page.
             guard (derive_allowed io (pageStringArray (field (page_data page) ''sources''))) SourceDenied (Inr page)))"

definition pageIdOf :: "VaultPage option \<Rightarrow> string option \<Rightarrow> string option" where
  "pageIdOf page fallback =
     (case Option.bind page declaredId of Some i \<Rightarrow> Some i | None \<Rightarrow> fallback)"

definition deleting :: "CanonReceipt \<Rightarrow> bool" where
  "deleting r \<longleftrightarrow> cr_page_action r = CreatePage \<and> cr_kind r \<noteq> RevertReceipt"

text \<open>The page an undo restores, with its text; \<open>None\<close> when it removes the page.\<close>

definition restoredPage :: "CanonIo \<Rightarrow> CanonDb \<Rightarrow> CanonReceipt \<Rightarrow> CanonError + (VaultPage \<times> string) option" where
  "restoredPage io db original =
     (if deleting original then Inr None
      else
        (case cr_archive_path original of
           None \<Rightarrow> Inl (UndoError NotUndoable)
         | Some path \<Rightarrow>
             andThen (loadArchivePage io db path) (\<lambda>page.
             andThen (written (serializePage page)) (\<lambda>text. Inr (Some (page, text))))))"

definition revertReceipt ::
  "CanonIo \<Rightarrow> CanonDb \<Rightarrow> CanonReceipt \<Rightarrow> string option \<Rightarrow> string option \<Rightarrow> string \<times> string \<Rightarrow> CanonReceipt" where
  "revertReceipt io db original prior restored stamp =
     \<lparr>cr_receipt_id = fst stamp, cr_kind = RevertReceipt, cr_claim_ids = cr_claim_ids original,
      cr_page_path = cr_page_path original,
      cr_page_action = (if restored = None then ArchivePage else if prior = None then CreatePage else EditPage),
      cr_before_hash = Some (cr_after_hash original), cr_after_hash = imageHash io restored,
      cr_archive_path = map_option (\<lambda>_. archiveRelPath (cr_page_path original) (fst stamp)) prior,
      cr_writer = RevertWriter, cr_producer = cr_producer original, cr_model_ref = cr_model_ref original,
      cr_authority = authorityBefore io db (cr_page_path original) (cr_receipt_id original),
      cr_confidence = cr_confidence original, cr_sensitivity = cr_sensitivity original,
      cr_taint = cr_taint original, cr_provenance = cr_provenance original,
      cr_superseded = cr_superseded original, cr_candidates = [],
      cr_retrieval_ops = map (\<lambda>q. q\<lparr>ref_op := if restored = None then Remove else Upsert\<rparr>) (cr_retrieval_ops original),
      cr_reverts = Some (cr_receipt_id original), cr_reverted_by = None, cr_at = snd stamp\<rparr>"

definition revertCommit ::
  "CanonIo \<Rightarrow> CanonDb \<Rightarrow> CanonReceipt \<Rightarrow> (VaultPage \<times> string) option \<Rightarrow> string \<times> string \<Rightarrow> Commit" where
  "revertCommit io db original restored stamp =
     (let prior = vault db (cr_page_path original);
          r = revertReceipt io db original prior (map_option snd restored) stamp
      in \<lparr>cm_receipt = r, cm_before = prior, cm_after = map_option snd restored,
          cm_completion = \<lparr>cc_mode = RevertReceipt, cc_claim_kind = None,
            cc_page_id = pageIdOf (map_option fst restored)
              (map_option pi_page_id (pageIndexByPath db (cr_page_path original))),
            cc_subject_key = (case restored of
                None \<Rightarrow> None
              | Some (page, _) \<Rightarrow> pageSubjectKey db (cr_page_path original) (cr_after_hash r) (page_data page)
                  (Some (cr_at original, cr_receipt_id original))),
            cc_original = Some (cr_receipt_id original)\<rparr>\<rparr>)"

text \<open>\<open>metered\<close>: whether the undo spends the loop's budget.\<close>

definition applyUndo ::
  "CanonIo \<Rightarrow> CanonDb \<Rightarrow> CanonReceipt \<Rightarrow> bool \<Rightarrow> string \<times> string \<Rightarrow> CanonError + CanonDb \<times> CanonReceipt" where
  "applyUndo io db original metered stamp =
     andThen (restoredPage io db original) (\<lambda>restored.
     guard (imageHash io (map_option snd restored) =
         (case cr_before_hash original of None \<Rightarrow> ABSENT_PAGE_HASH io | Some h \<Rightarrow> h))
       (UndoError ArchiveMissing)
     (let c = revertCommit io db original restored stamp
      in guard (metered \<longrightarrow> chargeable io (cm_receipt c)) BudgetRefused
        (andThen (commitCanonWrite io db c
          (guard (\<not> erasure_pending (tables db)) (StoreFailure ErasurePending)
          (guard (derive_allowed io (case restored of
                None \<Rightarrow> cr_provenance original
              | Some (page, _) \<Rightarrow> pageStringArray (field (page_data page) ''sources''))) SourceDenied
            (Inr ())))) (\<lambda>db'.
          Inr (db', cm_receipt c)))))"

text \<open>\<open>undoReceiptOwned\<close> up to the comparison of the bytes.\<close>

definition admitUndo :: "CanonIo \<Rightarrow> CanonDb \<Rightarrow> string \<Rightarrow> CanonError + CanonReceipt" where
  "admitUndo io db i =
     guard (\<not> erasure_pending (tables db)) (StoreFailure ErasurePending)
     (case getCanonReceipt db i of
        None \<Rightarrow> Inl (UndoError ReceiptUnknown)
      | Some r \<Rightarrow>
          andThen (pathOk (assertReceiptPaths (Str (cr_page_path r))
            (case cr_archive_path r of None \<Rightarrow> Null | Some p \<Rightarrow> Str p))) (\<lambda>_.
          andThen (pathOk (assertPageRelPath (Str (cr_page_path r)))) (\<lambda>_.
          guard (\<not> projection_pending io (cr_page_path r)) (RecoveryError RecoveryProjectionPending)
          (guard (derive_allowed io (cr_provenance r)) SourceDenied
          (guard (cr_reverted_by r = None) (UndoError AlreadyReverted) (Inr r))))))"

definition undoOne ::
  "CanonIo \<Rightarrow> CanonDb \<Rightarrow> string \<Rightarrow> bool \<Rightarrow> string \<times> string \<Rightarrow> CanonError + CanonDb \<times> CanonReceipt" where
  "undoOne io db i metered stamp =
     andThen (admitUndo io db i) (\<lambda>r.
     guard (currentHash io db (cr_page_path r) = cr_after_hash r) (UndoError PageChanged)
       (applyUndo io db r metered stamp))"

text \<open>The later receipts of the page, newest first, each with a stamp of its own; a nested undo
  is not metered.  One that is refused ends the cascade, and those before it stand.\<close>

fun undoLater ::
  "CanonIo \<Rightarrow> (nat \<Rightarrow> string \<times> string) \<Rightarrow> nat \<Rightarrow> CanonDb \<Rightarrow> string list \<Rightarrow> CanonDb \<times> CanonError option" where
  "undoLater io stamps n db [] = (db, None)"
| "undoLater io stamps n db (j # js) =
     (case undoOne io db j False (stamps n) of
        Inl e \<Rightarrow> (db, Some e)
      | Inr (db', _) \<Rightarrow> undoLater io stamps (n + 1) db' js)"

definition undoOutcome :: "CanonDb \<Rightarrow> CanonError + CanonDb \<times> CanonReceipt \<Rightarrow> CanonDb \<times> (CanonError + CanonReceipt)" where
  "undoOutcome db m = (case m of Inl e \<Rightarrow> (db, Inl e) | Inr (db', r) \<Rightarrow> (db', Inr r))"

definition undoReceipt ::
  "CanonIo \<Rightarrow> CanonDb \<Rightarrow> string \<Rightarrow> bool \<Rightarrow> bool \<Rightarrow> (nat \<Rightarrow> string \<times> string) \<Rightarrow> CanonDb \<times> (CanonError + CanonReceipt)" where
  "undoReceipt io db i cascade metered stamps =
     (case admitUndo io db i of
        Inl e \<Rightarrow> (db, Inl e)
      | Inr r \<Rightarrow>
          (let later = laterIds db r
           in if currentHash io db (cr_page_path r) = cr_after_hash r
              then undoOutcome db (applyUndo io db r metered (stamps 0))
              else if cascade \<and> later \<noteq> [] then
                (case undoLater io stamps 0 db later of
                   (d, Some e) \<Rightarrow> (d, Inl e)
                 | (d, None) \<Rightarrow> undoOutcome d (undoOne io d i False (stamps (length later))))
              else (db, Inl (UndoError PageChanged))))"

text \<open>A page that an undo created again has no archive copy, and an undo of that is refused.\<close>

lemma recreation_not_undoable:
  assumes "cr_kind r = RevertReceipt" "cr_archive_path r = None"
  shows "applyUndo io db r metered stamp = Inl (UndoError NotUndoable)"
  by (simp add: applyUndo_def restoredPage_def deleting_def assms)

end
