(* ===== verification/Canon_Lifecycle.thy ===== *)
theory Canon_Lifecycle
  imports Canon_Undo Claim_Lifecycle "HOL-Library.Sublist"
begin

text \<open>
  The canon as a machine: writes, undos, rebuilds of the index, changes of the claim tables and
  the owner's own edits in any order, what holds after every sequence of them, and what the
  writer never does to a file.
\<close>

section \<open>What a commit does\<close>

text \<open>The files after a commit: the page has its new image and the archive its old one.\<close>

definition filesAfter :: "Commit \<Rightarrow> Vault \<Rightarrow> Vault" where
  "filesAfter c files =
     (\<lambda>p. if p = cr_page_path (cm_receipt c) then cm_after c
          else if cr_archive_path (cm_receipt c) = Some p then cm_before c else files p)"

definition safeCommit :: "CanonIo \<Rightarrow> Commit \<Rightarrow> bool" where
  "safeCommit io c \<longleftrightarrow>
     validRetainedReceipt (cm_receipt c) \<and> imagesBound io c \<and> completionBound (cm_receipt c) (cm_completion c) \<and>
     cr_kind (cm_receipt c) \<noteq> PurgeRewrite"

lemma page_not_archive: "pagePathOk p \<Longrightarrow> \<not> startsWith p ''archive/''"
proof
  assume ok: "pagePathOk p" and "startsWith p ''archive/''"
  then obtain name where "p = ''archive/'' @ name"
    by (metis append_take_drop_id startsWith_def)
  then have "split_on (CHR ''/'') p ! 0 = ''archive''" by (simp only: split_archive nth_Cons_0)
  then show False using ok by (simp add: assertPageRelPath_def Let_def split: if_splits)
qed

lemma archive_starts: "startsWith (archiveRelPath p i) ''archive/''"
  by (simp add: archiveRelPath_def startsWith_def)

lemma commit_archive:
  assumes "safeCommit io c"
  shows "cr_archive_path (cm_receipt c) =
      map_option (\<lambda>_. archiveRelPath (cr_page_path (cm_receipt c)) (cr_receipt_id (cm_receipt c))) (cm_before c)"
    "cr_archive_path (cm_receipt c) \<noteq> Some (cr_page_path (cm_receipt c))"
    "\<not> startsWith (cr_page_path (cm_receipt c)) ''archive/''"
proof -
  have page: "pagePathOk (cr_page_path (cm_receipt c))"
    using assms by (simp add: safeCommit_def validRetainedReceipt_def)
  show "\<not> startsWith (cr_page_path (cm_receipt c)) ''archive/''" using page_not_archive [OF page] .
  show archive: "cr_archive_path (cm_receipt c) =
      map_option (\<lambda>_. archiveRelPath (cr_page_path (cm_receipt c)) (cr_receipt_id (cm_receipt c))) (cm_before c)"
    using assms by (auto simp: safeCommit_def imagesBound_def Let_def)
  show "cr_archive_path (cm_receipt c) \<noteq> Some (cr_page_path (cm_receipt c))"
    using page_not_archive [OF page] archive_starts unfolding archive by (cases "cm_before c") (auto, metis)
qed

lemma published_cases:
  assumes "published c db = Inr b"
  shows "b \<Longrightarrow> vault db (cr_page_path (cm_receipt c)) = cm_after c \<and>
      (\<forall>p. cr_archive_path (cm_receipt c) = Some p \<longrightarrow> vault db p = cm_before c)"
    "\<not> b \<Longrightarrow> vault db (cr_page_path (cm_receipt c)) = cm_before c"
  using assms by (auto simp: published_def Let_def split: if_splits)

lemma publish_effect:
  assumes "publish c db = Inr db'" "safeCommit io c"
  shows "db' = db\<lparr>vault := filesAfter c (vault db)\<rparr>"
    "vault db (cr_page_path (cm_receipt c)) \<in> {cm_before c, cm_after c}"
    "cr_archive_path (cm_receipt c) = Some p \<Longrightarrow> vault db p = None \<or> vault db p = cm_before c"
proof -
  let ?page = "cr_page_path (cm_receipt c)"
  obtain b where b: "published c db = Inr b" "(if b then Inr db else writeImages c db) = Inr db'"
    using assms(1) by (auto simp: publish_def result_simps)
  note arch = commit_archive [OF assms(2)]
  have both: "db' = db\<lparr>vault := filesAfter c (vault db)\<rparr> \<and> vault db ?page \<in> {cm_before c, cm_after c} \<and>
      (\<forall>p. cr_archive_path (cm_receipt c) = Some p \<longrightarrow> vault db p = None \<or> vault db p = cm_before c)"
  proof (cases b)
    case True
    then have "db' = db" and now: "vault db ?page = cm_after c"
        "\<forall>p. cr_archive_path (cm_receipt c) = Some p \<longrightarrow> vault db p = cm_before c"
      using b published_cases(1) [OF b(1)] by auto
    moreover have "filesAfter c (vault db) = vault db" using now by (auto simp: filesAfter_def fun_eq_iff)
    ultimately show ?thesis by simp
  next
    case False
    then have at_before: "vault db ?page = cm_before c" and w: "writeImages c db = Inr db'"
      using b published_cases(2) [OF b(1)] by auto
    show ?thesis
    proof (cases "cm_before c")
      case None
      then show ?thesis using w arch(1) at_before
        by (auto simp: writeImages_def putFile_def filesAfter_def fun_eq_iff)
    next
      case (Some t)
      then show ?thesis using w arch at_before
        by (auto simp: writeImages_def putFile_def filesAfter_def fun_eq_iff result_simps)
    qed
  qed
  then show "db' = db\<lparr>vault := filesAfter c (vault db)\<rparr>" "vault db ?page \<in> {cm_before c, cm_after c}"
    "cr_archive_path (cm_receipt c) = Some p \<Longrightarrow> vault db p = None \<or> vault db p = cm_before c" by auto
qed

lemma commit_Inr:
  assumes "commitCanonWrite io db c admission = Inr db'" "cr_kind (cm_receipt c) \<noteq> PurgeRewrite"
  shows "safeCommit io c" "afterImage c = Inr ()" "admission = Inr ()"
    "completeRows c (appendReceiptLine (cm_receipt c) (db\<lparr>vault := filesAfter c (vault db)\<rparr>)) = Inr db'"
    "vault db (cr_page_path (cm_receipt c)) \<in> {cm_before c, cm_after c}"
    "cr_archive_path (cm_receipt c) = Some p \<Longrightarrow> vault db p = None \<or> vault db p = cm_before c"
proof -
  obtain db1 where steps: "admission = Inr ()" "checkIntent io c = Inr ()" "publish c db = Inr db1"
      "completeRows c (appendReceiptLine (cm_receipt c) db1) = Inr db'"
    using assms(1) by (auto simp: commitCanonWrite_def result_simps)
  then show safe: "safeCommit io c" and "afterImage c = Inr ()" "admission = Inr ()"
    using assms(2) by (auto simp: checkIntent_def safeCommit_def result_simps)
  note effect = publish_effect [OF steps(3) safe]
  show "completeRows c (appendReceiptLine (cm_receipt c) (db\<lparr>vault := filesAfter c (vault db)\<rparr>)) = Inr db'"
    using steps(4) unfolding effect(1) .
  show "vault db (cr_page_path (cm_receipt c)) \<in> {cm_before c, cm_after c}" by (rule effect(2))
  show "cr_archive_path (cm_receipt c) = Some p \<Longrightarrow> vault db p = None \<or> vault db p = cm_before c"
    by (rule effect(3))
qed

section \<open>A consistent canon\<close>

text \<open>A receipt as it was logged.\<close>

definition frozen :: "CanonReceipt \<Rightarrow> CanonReceipt" where
  "frozen r = r\<lparr>cr_reverted_by := None\<rparr>"

text \<open>Undos and what they undid name each other.\<close>

definition linked :: "CanonReceipt list \<Rightarrow> bool" where
  "linked rs \<longleftrightarrow>
     (\<forall>r\<in>set rs. \<forall>i. cr_reverted_by r = Some i \<longrightarrow>
        (\<exists>s\<in>set rs. cr_receipt_id s = i \<and> cr_kind s = RevertReceipt \<and> cr_reverts s = Some (cr_receipt_id r))) \<and>
     (\<forall>s\<in>set rs. cr_kind s = RevertReceipt \<longrightarrow>
        (\<exists>r\<in>set rs. cr_reverts s = Some (cr_receipt_id r) \<and> cr_reverted_by r = Some (cr_receipt_id s)))"

definition wfCanon :: "CanonDb \<Rightarrow> bool" where
  "wfCanon db \<longleftrightarrow>
     wfStore (tables db) \<and> wfIndex db \<and> distinct (map cr_receipt_id (canon_receipts db)) \<and>
     receipt_log db = map frozen (canon_receipts db) \<and> linked (canon_receipts db)"

text \<open>What a receipt may become: the same, or reverted once.\<close>

definition aged :: "CanonReceipt \<Rightarrow> CanonReceipt \<Rightarrow> bool" where
  "aged r r' \<longleftrightarrow> r' = r \<or> (cr_reverted_by r = None \<and> (\<exists>i. r' = r\<lparr>cr_reverted_by := Some i\<rparr>))"

definition historyKept :: "CanonDb \<Rightarrow> CanonDb \<Rightarrow> bool" where
  "historyKept db db' \<longleftrightarrow>
     (\<exists>rows added. canon_receipts db' = rows @ added \<and> list_all2 aged (canon_receipts db) rows)"

lemma aged_refl [simp]: "aged r r"
  by (simp add: aged_def)

lemma aged_trans: "aged a b \<Longrightarrow> aged b c \<Longrightarrow> aged a c"
  by (auto simp: aged_def)

lemma aged_id: "aged r r' \<Longrightarrow> cr_receipt_id r' = cr_receipt_id r"
  by (auto simp: aged_def)

lemma historyKept_refl [simp]: "historyKept db db"
  unfolding historyKept_def by (intro exI [of _ "canon_receipts db"] exI [of _ "[]"]) (simp add: list.rel_refl)

lemma historyKept_trans: "historyKept a b \<Longrightarrow> historyKept b c \<Longrightarrow> historyKept a c"
proof -
  assume "historyKept a b" "historyKept b c"
  then obtain rows added rows' added' where ab: "canon_receipts b = rows @ added" "list_all2 aged (canon_receipts a) rows"
    and bc: "canon_receipts c = rows' @ added'" "list_all2 aged (rows @ added) rows'"
    by (auto simp: historyKept_def)
  obtain us vs where uv: "rows' = us @ vs" "list_all2 aged rows us"
    using bc(2) by (auto simp: list_all2_append1)
  have "list_all2 aged (canon_receipts a) us"
    by (rule list_all2_trans [OF aged_trans ab(2) uv(2)])
  then show "historyKept a c" using bc(1) uv(1) by (auto simp: historyKept_def)
qed

lemma historyKept_same: "canon_receipts db' = canon_receipts db \<Longrightarrow> historyKept db db'"
  using historyKept_refl [of db] unfolding historyKept_def by metis

lemma mark_frame [simp]:
  "tables (markReceiptReverted i j db) = tables db" "vault (markReceiptReverted i j db) = vault db"
  "receipt_log (markReceiptReverted i j db) = receipt_log db" "page_index (markReceiptReverted i j db) = page_index db"
  by (simp_all add: markReceiptReverted_def)

lemma frozen_mark [simp]: "frozen (r\<lparr>cr_reverted_by := x\<rparr>) = frozen r"
  by (simp add: frozen_def)

lemma frozen_id [simp]: "cr_receipt_id (frozen r) = cr_receipt_id r"
  by (simp add: frozen_def)

lemma mark_receipts:
  assumes "distinct (map cr_receipt_id (canon_receipts db))" "getCanonReceipt db i = Some first"
    and "cr_reverted_by first = None"
  shows "list_all2 aged (canon_receipts db) (canon_receipts (markReceiptReverted i j db))"
    "map cr_receipt_id (canon_receipts (markReceiptReverted i j db)) = map cr_receipt_id (canon_receipts db)"
    "map frozen (canon_receipts (markReceiptReverted i j db)) = map frozen (canon_receipts db)"
proof -
  note f = getCanonReceipt_member [OF assms(2)]
  have unique: "r = first" if "r \<in> set (canon_receipts db)" "cr_receipt_id r = i" for r
    using that f assms(1) by (auto simp: distinct_map dest: inj_onD)
  show "list_all2 aged (canon_receipts db) (canon_receipts (markReceiptReverted i j db))"
    using unique assms(3) by (auto simp: markReceiptReverted_def list_all2_map2 aged_def intro!: list.rel_refl_strong)
  show "map cr_receipt_id (canon_receipts (markReceiptReverted i j db)) = map cr_receipt_id (canon_receipts db)"
    "map frozen (canon_receipts (markReceiptReverted i j db)) = map frozen (canon_receipts db)"
    by (auto simp: markReceiptReverted_def)
qed

lemma linked_write:
  assumes "linked rs" "cr_kind r \<noteq> RevertReceipt" "cr_reverted_by r = None"
  shows "linked (rs @ [r])"
  using assms unfolding linked_def by fastforce

lemma linked_revert:
  assumes "linked rs" "distinct (map cr_receipt_id (rs @ [r]))" "first \<in> set rs" "cr_reverted_by first = None"
    and "cr_kind r = RevertReceipt" "cr_reverts r = Some (cr_receipt_id first)" "cr_reverted_by r = None"
  shows "linked (map (\<lambda>x. if cr_receipt_id x = cr_receipt_id first then x\<lparr>cr_reverted_by := Some (cr_receipt_id r)\<rparr> else x)
    (rs @ [r]))"
proof -
  let ?m = "\<lambda>x. if cr_receipt_id x = cr_receipt_id first then x\<lparr>cr_reverted_by := Some (cr_receipt_id r)\<rparr> else x"
  let ?all = "set (map ?m (rs @ [r]))"
  have m: "cr_receipt_id (?m x) = cr_receipt_id x" "cr_kind (?m x) = cr_kind x" "cr_reverts (?m x) = cr_reverts x" for x
    by simp_all
  have unique: "x = first" if "x \<in> set rs" "cr_receipt_id x = cr_receipt_id first" for x
    using that assms(2,3) by (auto simp: distinct_map dest: inj_onD)
  have fresh: "cr_receipt_id r \<noteq> cr_receipt_id first" using assms(2,3) by (auto simp: image_iff)
  have forward: "\<exists>s\<in>?all. cr_receipt_id s = i \<and> cr_kind s = RevertReceipt \<and> cr_reverts s = Some (cr_receipt_id (?m x))"
    if x: "x \<in> set (rs @ [r])" "cr_reverted_by (?m x) = Some i" for x i
  proof (cases "cr_receipt_id x = cr_receipt_id first")
    case True
    then show ?thesis using x assms(5,6) fresh by (intro bexI [of _ "?m r"]) auto
  next
    case False
    then have "x \<in> set rs" "cr_reverted_by x = Some i" using x assms(7) by auto
    then obtain s where "s \<in> set rs" "cr_receipt_id s = i" "cr_kind s = RevertReceipt" "cr_reverts s = Some (cr_receipt_id x)"
      using assms(1) unfolding linked_def by blast
    then show ?thesis by (intro bexI [of _ "?m s"]) (auto simp: m)
  qed
  have backward: "\<exists>x\<in>?all. cr_reverts (?m s) = Some (cr_receipt_id x) \<and> cr_reverted_by x = Some (cr_receipt_id (?m s))"
    if s: "s \<in> set (rs @ [r])" "cr_kind s = RevertReceipt" for s
  proof (cases "s \<in> set rs")
    case True
    then obtain x where x: "x \<in> set rs" "cr_reverts s = Some (cr_receipt_id x)" "cr_reverted_by x = Some (cr_receipt_id s)"
      using assms(1) s(2) unfolding linked_def by blast
    then have "cr_receipt_id x \<noteq> cr_receipt_id first" using unique assms(4) by fastforce
    then show ?thesis using x by (intro bexI [of _ "?m x"]) (auto simp: m)
  next
    case False
    then show ?thesis using s(1) assms(3,6) by (intro bexI [of _ "?m first"]) auto
  qed
  show ?thesis unfolding linked_def
    using forward backward by (auto simp only: set_map ball_simps m)
qed

lemma linked_self:
  assumes "linked rs" "cr_kind r = RevertReceipt" "cr_reverts r = Some (cr_receipt_id r)"
  shows "linked (rs @ [r\<lparr>cr_reverted_by := Some (cr_receipt_id r)\<rparr>])"
  using assms unfolding linked_def set_append by (simp add: ball_Un bex_Un)

section \<open>The rows of a commit\<close>

lemma coherent_bound [simp]: "coherent (c\<lparr>receipt_id := i\<rparr>) = coherent c"
  by (cases "status c") (simp_all add: coherent_def)

lemma bindReceipt_keeps: "wfStore t \<Longrightarrow> wfStore (bindReceipt r t)"
proof -
  assume wf: "wfStore t"
  have "map (\<lambda>s. (winner s, loser s)) (supersessions (bindReceipt r t)) = map (\<lambda>s. (winner s, loser s)) (supersessions t)"
    "map claim_id (claims (bindReceipt r t)) = map claim_id (claims t)"
    by (simp_all add: bindReceipt_def)
  moreover have "list_all coherent (claims (bindReceipt r t))"
    using wf by (auto simp: wfStore_def bindReceipt_def list_all_iff)
  ultimately show ?thesis using wf unfolding wfStore_def by (simp only:)
qed

lemma restoreRows_keeps:
  assumes "restoreRows original stamp t = Inr t'" "wfStore t"
  shows "wfStore t'"
proof -
  have again: "wfStore u'" if "foldM reinstateAgain u ids = Inr u'" "wfStore u" for u u' ids
    by (rule foldM_invariant [where P = wfStore, OF that])
      (auto simp: reinstateAgain_def split: option.splits dest: undo_keeps(2))
  have gone: "wfStore u'" if "foldM (\<lambda>t i. markClaimReverted t i stamp) u ids = Inr u'" "wfStore u" for u u' ids
    by (rule foldM_invariant [where P = wfStore, OF that]) (auto dest: undo_keeps(1))
  have revived: "wfStore u'" if "foldM (reinstateLoser prior) u ids = Inr u'" "wfStore u" for prior u u' ids
    by (rule foldM_invariant [where P = wfStore, OF that])
      (auto simp: reinstateLoser_def split: option.splits if_splits dest: undo_keeps(2))
  have lost: "wfStore u'" if "foldM (loserAgain win since stamp prior) u ids = Inr u'" "wfStore u" for win since prior u u' ids
    by (rule foldM_invariant [where P = wfStore, OF that]) (auto simp: loserAgain_def result_simps dest: undo_keeps(3))
  show ?thesis
    using assms
    by (cases "cr_claim_ids original")
      (auto simp: restoreRows_def result_simps Let_def simp del: foldM.simps split: if_splits
        dest: again gone revived lost)
qed

lemma requeue_frame [simp]:
  "claims (requeue original stamp t) = claims t" "supersessions (requeue original stamp t) = supersessions t"
  "events (requeue original stamp t) = events t"
proof -
  let ?same = "\<lambda>u. claims u = claims t \<and> supersessions u = supersessions t \<and> events u = events t"
  have one: "?same (foldl (\<lambda>t s. enqueueClaimRetrieval (Some s) c stamp t) u stores)" if "?same u" for u c stores
    using that by (induction stores arbitrary: u) simp_all
  have "?same (foldl (\<lambda>t i. case getClaim t i of None \<Rightarrow> t
      | Some c \<Rightarrow> foldl (\<lambda>t s. enqueueClaimRetrieval (Some s) c stamp t) t stores) u ids)" if "?same u" for u stores ids
    using that one by (induction ids arbitrary: u) (simp_all split: option.splits)
  then have "?same (requeue original stamp t)" unfolding requeue_def Let_def by blast
  then show "claims (requeue original stamp t) = claims t" "supersessions (requeue original stamp t) = supersessions t"
    "events (requeue original stamp t) = events t" by simp_all
qed

lemma restore_keeps: "restoreClaimLifecycle original stamp t = Inr t' \<Longrightarrow> wfStore t \<Longrightarrow> wfStore t'"
  by (auto simp: restoreClaimLifecycle_def result_simps wfStore_def dest: restoreRows_keeps)

lemma bindKeys_frame:
  "tables (foldl (bindKey page stamp) db ids) = tables db \<and> vault (foldl (bindKey page stamp) db ids) = vault db \<and>
   canon_receipts (foldl (bindKey page stamp) db ids) = canon_receipts db \<and>
   receipt_log (foldl (bindKey page stamp) db ids) = receipt_log db \<and>
   page_index (foldl (bindKey page stamp) db ids) = page_index db"
  by (induction ids arbitrary: db) (auto simp: bindKey_def split: option.splits)

lemma completeWrite_frame [simp]:
  "tables (completeWrite r pageId db) = bindReceipt r (tables db)" "vault (completeWrite r pageId db) = vault db"
  "canon_receipts (completeWrite r pageId db) = canon_receipts db" "receipt_log (completeWrite r pageId db) = receipt_log db"
  "page_index (completeWrite r pageId db) = page_index db"
  by (simp_all add: completeWrite_def Let_def bindKeys_frame split: option.splits)

lemma indexPage_frame [simp]:
  "tables (indexPage c db) = tables db" "vault (indexPage c db) = vault db"
  "canon_receipts (indexPage c db) = canon_receipts db" "receipt_log (indexPage c db) = receipt_log db"
  by (simp_all add: indexPage_def Let_def split: option.splits)

lemma log_frame [simp]:
  "tables (appendReceiptLine r db) = tables db" "vault (appendReceiptLine r db) = vault db"
  "canon_receipts (appendReceiptLine r db) = canon_receipts db" "page_index (appendReceiptLine r db) = page_index db"
  "receipt_log (appendReceiptLine r db) = receipt_log db @ [r]"
  by (simp_all add: appendReceiptLine_def)

text \<open>What stands between the rows a commit found and those it leaves, but for the index.\<close>

definition rowsBetween :: "Commit \<Rightarrow> CanonDb \<Rightarrow> CanonDb \<Rightarrow> bool" where
  "rowsBetween c db db2 \<longleftrightarrow>
     (let r = cm_receipt c; db1 = db\<lparr>canon_receipts := canon_receipts db @ [r]\<rparr>
      in vault db2 = vault db \<and> receipt_log db2 = receipt_log db \<and> page_index db2 = page_index db \<and>
         getCanonReceipt db (cr_receipt_id r) = None \<and>
         (cr_kind r = WriteReceipt \<longrightarrow>
            canon_receipts db2 = canon_receipts db @ [r] \<and> tables db2 = bindReceipt r (tables db)) \<and>
         (cr_kind r = RevertReceipt \<longrightarrow>
            (\<exists>first i. cr_reverts r = Some i \<and> getCanonReceipt db1 i = Some first \<and> cr_reverted_by first = None \<and>
               restoreClaimLifecycle first (cr_at r) (tables db) = Inr (tables db2) \<and>
               canon_receipts db2 = canon_receipts (markReceiptReverted i (cr_receipt_id r) db1))))"

lemma rows_Inr:
  assumes "completeRows c db = Inr db'" "completionBound (cm_receipt c) (cm_completion c)"
    and "cr_kind (cm_receipt c) \<noteq> PurgeRewrite"
  shows "\<exists>db2. db' = indexPage c db2 \<and> rowsBetween c db db2"
proof -
  let ?r = "cm_receipt c" and ?db1 = "db\<lparr>canon_receipts := canon_receipts db @ [cm_receipt c]\<rparr>"
  have mode: "cc_mode (cm_completion c) = cr_kind ?r" using assms(2) by (simp add: completionBound_def)
  have fresh: "getCanonReceipt db (cr_receipt_id ?r) = None"
    using assms(1) by (auto simp: completeRows_def Let_def result_simps insertReceiptRow_Inr)
  show ?thesis
  proof (cases "cr_kind ?r")
    case WriteReceipt
    then have "db' = indexPage c (completeWrite ?r (cc_page_id (cm_completion c)) ?db1)"
      using assms(1) mode by (auto simp: completeRows_def Let_def result_simps insertReceiptRow_Inr)
    then show ?thesis using fresh WriteReceipt by (auto simp: rowsBetween_def Let_def)
  next
    case RevertReceipt
    then obtain db2 where db2: "completeRevert ?r (cc_original (cm_completion c)) ?db1 = Inr db2" "db' = indexPage c db2"
      using assms(1) mode by (auto simp: completeRows_def Let_def result_simps insertReceiptRow_Inr)
    have orig: "cc_original (cm_completion c) = cr_reverts ?r"
      using assms(2) RevertReceipt by (simp add: completionBound_def)
    obtain first i t where first: "cr_reverts ?r = Some i" "getCanonReceipt ?db1 i = Some first" "cr_reverted_by first = None"
        "restoreClaimLifecycle first (cr_at ?r) (tables ?db1) = Inr t"
        "db2 = markReceiptReverted (cr_receipt_id first) (cr_receipt_id ?r) (?db1\<lparr>tables := t\<rparr>)"
      using db2(1) unfolding orig
      by (auto simp: completeRevert_def onTables_def result_simps bind_eq_Some_conv split: option.splits)
    have i: "cr_receipt_id first = i" by (rule getCanonReceipt_member(2) [OF first(2)])
    have "canon_receipts db2 = canon_receipts (markReceiptReverted i (cr_receipt_id ?r) ?db1)"
      unfolding first(5) i by (simp add: markReceiptReverted_def)
    moreover have "vault db2 = vault db" "receipt_log db2 = receipt_log db" "page_index db2 = page_index db"
        "tables db2 = t"
      by (simp_all add: first(5))
    ultimately have "rowsBetween c db db2"
      using RevertReceipt first(1-4) fresh unfolding rowsBetween_def Let_def by simp
    then show ?thesis using db2(2) by blast
  qed (use assms(3) in simp)
qed

section \<open>A commit keeps the canon consistent\<close>

lemma frozen_simps [simp]:
  "cr_page_path (frozen r) = cr_page_path r" "cr_after_hash (frozen r) = cr_after_hash r"
  "cr_reverted_by (frozen r) = None"
  by (simp_all add: frozen_def)

lemma frozen_same: "frozen r = frozen s \<Longrightarrow> cr_receipt_id r = cr_receipt_id s \<and> cr_page_path r = cr_page_path s \<and>
    cr_after_hash r = cr_after_hash s"
  by (metis frozen_id frozen_simps(1,2))

lemma frozen_known:
  assumes "map frozen (canon_receipts db') = map frozen (canon_receipts db) @ added"
    and "distinct (map cr_receipt_id (canon_receipts db'))" "getCanonReceipt db i = Some r"
  shows "\<exists>r'. getCanonReceipt db' i = Some r' \<and> cr_page_path r' = cr_page_path r \<and> cr_after_hash r' = cr_after_hash r"
proof -
  have "frozen r \<in> set (map frozen (canon_receipts db'))"
    unfolding assms(1) using getCanonReceipt_member(1) [OF assms(3)] by simp
  then obtain r' where r': "r' \<in> set (canon_receipts db')" "frozen r' = frozen r" by auto
  then have "getCanonReceipt db' i = Some r'"
    using getCanonReceipt_known [OF assms(2) r'(1)] getCanonReceipt_member(2) [OF assms(3)] frozen_same [OF r'(2)] by simp
  then show ?thesis using frozen_same [OF r'(2)] by simp
qed

lemma frozen_fresh: "cr_reverted_by r = None \<Longrightarrow> frozen r = r"
  by (simp add: frozen_def)

lemma indexed:
  assumes "wfIndex db" "getCanonReceipt db (cr_receipt_id (cm_receipt c)) = Some r"
    and "cr_page_path r = cr_page_path (cm_receipt c)" "cr_after_hash r = cr_after_hash (cm_receipt c)"
  shows "wfIndex (indexPage c db)"
  using assms by (auto simp: indexPage_def Let_def split: option.splits intro!: wfIndex_delete wfIndex_upsert)

text \<open>The two kinds of commit, on the receipts.\<close>

lemma rows_receipts:
  assumes "completeRows c db = Inr db'" "safeCommit io c" "distinct (map cr_receipt_id (canon_receipts db))"
    and "linked (canon_receipts db)" "wfStore (tables db)"
  shows "map frozen (canon_receipts db') = map frozen (canon_receipts db) @ [cm_receipt c]"
    "distinct (map cr_receipt_id (canon_receipts db'))" "linked (canon_receipts db')" "wfStore (tables db')"
    "historyKept db db'"
proof -
  let ?r = "cm_receipt c" and ?db1 = "db\<lparr>canon_receipts := canon_receipts db @ [cm_receipt c]\<rparr>"
  have kind: "cr_kind ?r \<noteq> PurgeRewrite" and comp: "completionBound ?r (cm_completion c)"
    and open_r: "cr_reverted_by ?r = None"
    using assms(2) by (auto simp: safeCommit_def validRetainedReceipt_def)
  obtain db2 where db2: "db' = indexPage c db2" "rowsBetween c db db2"
    using rows_Inr [OF assms(1) comp kind] by blast
  have fresh: "getCanonReceipt db (cr_receipt_id ?r) = None" using db2(2) by (simp add: rowsBetween_def Let_def)
  have ids: "distinct (map cr_receipt_id (canon_receipts db @ [?r]))"
    using assms(3) fresh by (auto simp: getCanonReceipt_None)
  have all: "map frozen (canon_receipts db2) = map frozen (canon_receipts db) @ [?r] \<and>
      distinct (map cr_receipt_id (canon_receipts db2)) \<and> linked (canon_receipts db2) \<and> wfStore (tables db2) \<and>
      historyKept db db2"
  proof (cases "cr_kind ?r = WriteReceipt")
    case True
    then have rows: "canon_receipts db2 = canon_receipts db @ [?r]" "tables db2 = bindReceipt ?r (tables db)"
      using db2(2) unfolding rowsBetween_def Let_def by blast+
    have "linked (canon_receipts db2)" unfolding rows(1) using True by (intro linked_write assms(4) open_r) simp
    moreover have "historyKept db db2"
      unfolding historyKept_def rows(1) by (metis aged_refl list_all2_refl)
    ultimately show ?thesis
      using ids bindReceipt_keeps [OF assms(5)] frozen_fresh [OF open_r] by (simp add: rows)
  next
    case False
    then have rev: "cr_kind ?r = RevertReceipt" using kind by (cases "cr_kind ?r") auto
    obtain first i where f: "cr_reverts ?r = Some i" "getCanonReceipt ?db1 i = Some first" "cr_reverted_by first = None"
        "restoreClaimLifecycle first (cr_at ?r) (tables db) = Inr (tables db2)"
        "canon_receipts db2 = canon_receipts (markReceiptReverted i (cr_receipt_id ?r) ?db1)"
      using db2(2) rev unfolding rowsBetween_def Let_def by blast
    have ids1: "distinct (map cr_receipt_id (canon_receipts ?db1))" using ids by simp
    note mark = mark_receipts [OF ids1 f(2,3), of "cr_receipt_id ?r"]
    have rows: "map frozen (canon_receipts db2) = map frozen (canon_receipts db) @ [?r]"
        "map cr_receipt_id (canon_receipts db2) = map cr_receipt_id (canon_receipts db @ [?r])"
      using mark(2,3) frozen_fresh [OF open_r] unfolding f(5) by simp_all
    obtain us vs where "canon_receipts db2 = us @ vs" "list_all2 aged (canon_receipts db) us"
      using mark(1) unfolding f(5) [symmetric] by (auto simp: list_all2_append1)
    then have kept: "historyKept db db2" by (auto simp: historyKept_def)
    note mem = getCanonReceipt_member [OF f(2)]
    have "linked (canon_receipts db2)"
    proof (cases "first \<in> set (canon_receipts db)")
      case True
      then show ?thesis
        using linked_revert [OF assms(4) ids True f(3) rev _ open_r] f(1) mem(2)
        by (simp add: f(5) markReceiptReverted_def)
    next
      case False
      then have self: "first = ?r" using mem(1) by simp
      have "map (\<lambda>x. if cr_receipt_id x = i then x\<lparr>cr_reverted_by := Some (cr_receipt_id ?r)\<rparr> else x) (canon_receipts db) =
          canon_receipts db"
        using fresh mem(2) self unfolding getCanonReceipt_None by (intro map_idI if_not_P) (metis imageI)
      then have "canon_receipts db2 = canon_receipts db @ [?r\<lparr>cr_reverted_by := Some (cr_receipt_id ?r)\<rparr>]"
        unfolding f(5) mem(2) [symmetric] self markReceiptReverted_def by simp
      moreover have "cr_reverts ?r = Some (cr_receipt_id ?r)" using f(1) mem(2) self by simp
      ultimately show ?thesis using linked_self [OF assms(4) rev] by simp
    qed
    then show ?thesis
      using rows ids kept restore_keeps [OF f(4) assms(5)] by simp
  qed
  then show "map frozen (canon_receipts db') = map frozen (canon_receipts db) @ [?r]"
    "distinct (map cr_receipt_id (canon_receipts db'))" "linked (canon_receipts db')" "wfStore (tables db')"
    "historyKept db db'"
    by (simp_all add: db2(1) historyKept_def)
qed

lemma commit_keeps:
  assumes "commitCanonWrite io db c admission = Inr db'" "cr_kind (cm_receipt c) \<noteq> PurgeRewrite" "wfCanon db"
  shows "wfCanon db'" "historyKept db db'" "vault db' = filesAfter c (vault db)"
    "map frozen (canon_receipts db') = map frozen (canon_receipts db) @ [cm_receipt c]"
proof -
  let ?r = "cm_receipt c" and ?db1 = "appendReceiptLine (cm_receipt c) (db\<lparr>vault := filesAfter c (vault db)\<rparr>)"
  note commit = commit_Inr [OF assms(1,2)]
  have comp: "completionBound ?r (cm_completion c)" using commit(1) by (simp add: safeCommit_def)
  have wf: "distinct (map cr_receipt_id (canon_receipts ?db1))" "linked (canon_receipts ?db1)" "wfStore (tables ?db1)"
    using assms(3) by (simp_all add: wfCanon_def)
  note rows = rows_receipts [OF commit(4,1) wf]
  obtain db2 where db2: "db' = indexPage c db2" "rowsBetween c ?db1 db2"
    using rows_Inr [OF commit(4) comp assms(2)] by blast
  have files: "vault db2 = vault ?db1" "receipt_log db2 = receipt_log ?db1" "page_index db2 = page_index ?db1"
    using db2(2) by (simp_all add: rowsBetween_def Let_def)
  have frozen: "map frozen (canon_receipts db2) = map frozen (canon_receipts db) @ [?r]"
      "distinct (map cr_receipt_id (canon_receipts db2))"
    using rows(1,2) by (simp_all add: db2(1))
  show "map frozen (canon_receipts db') = map frozen (canon_receipts db) @ [?r]" using rows(1) by simp
  show "historyKept db db'" using rows(5) by (simp add: historyKept_def)
  show "vault db' = filesAfter c (vault db)" using files(1) by (simp add: db2(1))
  have "wfIndex db2"
  proof (rule wfIndex_grows [of db])
    show "wfIndex db" using assms(3) by (simp add: wfCanon_def)
    show "page_index db2 = page_index db" using files(3) by simp
  qed (rule frozen_known [OF frozen])
  moreover have "?r \<in> set (map frozen (canon_receipts db2))" unfolding frozen(1) by simp
  then obtain s where s: "s \<in> set (canon_receipts db2)" "?r = frozen s" by auto
  moreover have "getCanonReceipt db2 (cr_receipt_id ?r) = Some s"
    using getCanonReceipt_known [OF frozen(2) s(1)] s(2) by simp
  ultimately have "wfIndex db'" unfolding db2(1) by (intro indexed) simp_all
  then show "wfCanon db'"
    using rows assms(3) files(2) db2(1) by (simp add: wfCanon_def)
qed

section \<open>Files\<close>

text \<open>The bytes at a path are the ones some receipt of that page says it wrote.\<close>

definition recorded :: "(string \<Rightarrow> string) \<Rightarrow> CanonDb \<Rightarrow> string \<Rightarrow> string \<Rightarrow> bool" where
  "recorded h db p t \<longleftrightarrow> (\<exists>r\<in>set (canon_receipts db). cr_page_path r = p \<and> cr_after_hash r = h t)"

text \<open>Texts stay where they are or in the archive, what is in the archive stays, and bytes no
  receipt accounts for are left alone.\<close>

definition filesKept :: "(string \<Rightarrow> string) \<Rightarrow> CanonDb \<Rightarrow> CanonDb \<Rightarrow> bool" where
  "filesKept h db db' \<longleftrightarrow>
     (\<forall>p t. vault db p = Some t \<longrightarrow>
        (vault db' p = Some t \<or> (\<exists>q. startsWith q ''archive/'' \<and> vault db' q = Some t)) \<and>
        (startsWith p ''archive/'' \<longrightarrow> vault db' p = Some t) \<and>
        (\<not> recorded h db p t \<longrightarrow> vault db' p = Some t \<and> \<not> recorded h db' p t))"

lemma recorded_frozen: "recorded h db p t \<longleftrightarrow> (\<exists>r\<in>set (map frozen (canon_receipts db)). cr_page_path r = p \<and> cr_after_hash r = h t)"
  by (auto simp: recorded_def)

lemma filesKept_refl [simp]: "filesKept h db db"
  by (simp add: filesKept_def)

lemma filesKept_trans: "filesKept h a b \<Longrightarrow> filesKept h b c \<Longrightarrow> filesKept h a c"
  unfolding filesKept_def by meson

lemma filesKept_same:
  assumes "vault db' = vault db" "canon_receipts db' = canon_receipts db"
  shows "filesKept h db db'"
  using assms by (simp add: filesKept_def recorded_def)

lemma commit_files:
  assumes "commitCanonWrite io db c admission = Inr db'" "cr_kind (cm_receipt c) \<noteq> PurgeRewrite" "wfCanon db"
    and "vault db (cr_page_path (cm_receipt c)) = cm_before c"
    and "\<And>t. cm_before c = Some t \<Longrightarrow> recorded h db (cr_page_path (cm_receipt c)) t"
  shows "filesKept h db db'"
proof -
  let ?page = "cr_page_path (cm_receipt c)"
  note commit = commit_Inr [OF assms(1,2)]
  note keeps = commit_keeps [OF assms(1-3)]
  note arch = commit_archive [OF commit(1)]
  have elsewhere: "vault db' p = Some t" if "p \<noteq> ?page" "vault db p = Some t" for p t
    using that commit(6) [of p] by (auto simp: keeps(3) filesAfter_def)
  have kept: "vault db' (archiveRelPath ?page (cr_receipt_id (cm_receipt c))) = Some t" if "cm_before c = Some t" for t
    using that arch(1,2) by (auto simp: keeps(3) filesAfter_def)
  have new: "recorded h db' p t \<longleftrightarrow> recorded h db p t \<or> (p = ?page \<and> cr_after_hash (cm_receipt c) = h t)" for p t
    unfolding recorded_frozen keeps(4) by auto
  show ?thesis
    unfolding filesKept_def
  proof (intro allI impI conjI)
    fix p t assume t: "vault db p = Some t"
    show "vault db' p = Some t \<or> (\<exists>q. startsWith q ''archive/'' \<and> vault db' q = Some t)"
    proof (cases "p = ?page")
      case True
      then show ?thesis using kept [of t] t assms(4) archive_starts by metis
    qed (use t elsewhere in blast)
    show "startsWith p ''archive/'' \<Longrightarrow> vault db' p = Some t" using elsewhere [of p t] t arch(3) by metis
    assume un: "\<not> recorded h db p t"
    then have "p \<noteq> ?page" using assms(4,5) t by metis
    then show "vault db' p = Some t" "\<not> recorded h db' p t" using elsewhere t un new by blast+
  qed
qed

section \<open>The operations as commits\<close>

lemma readPage_Inr: "readPage io db p = Inr e \<Longrightarrow> vault db p = map_option ex_content e \<and>
    (\<forall>x. e = Some x \<longrightarrow> ex_hash x = hash_bytes io (ex_content x) \<and> parseFrontmatter (ex_content x) = Inr (ex_page x))"
  by (auto simp: readPage_def result_simps split: option.splits)

lemma draft_existing:
  assumes "draftWrite io db given decision st = Inr d"
  shows "readPage io db (df_path d) = Inr (df_existing d)"
  using assms by (auto simp: draftWrite_def Let_def result_simps split: option.splits)

lemma write_commit:
  assumes "applyCanonWrite io db given decision w st = Inr (db', r)"
  obtains d admission where "draftWrite io db given decision st = Inr d" "r = draftReceipt io decision w st d"
    "commitCanonWrite io db (draftCommit io decision w st d) admission = Inr db'"
    "admitWrite io db (df_claims d) (df_primary d) (df_path d) (df_page_id d) (df_existing d)
       (df_sources d) (df_prepared d) = Inr ()"
proof -
  obtain d where d: "draftWrite io db given decision st = Inr d" "r = draftReceipt io decision w st d"
    and c: "commitCanonWrite io db (draftCommit io decision w st d)
      (andThen (admitWrite io db (df_claims d) (df_primary d) (df_path d) (df_page_id d) (df_existing d)
         (df_sources d) (df_prepared d)) (\<lambda>_. guard (chargeable io r) BudgetRefused
        (admitWrite io db (df_claims d) (df_primary d) (df_path d) (df_page_id d) (df_existing d)
         (df_sources d) (df_prepared d)))) = Inr db'"
    using assms by (auto simp: applyCanonWrite_def Let_def result_simps)
  have "cr_kind (cm_receipt (draftCommit io decision w st d)) \<noteq> PurgeRewrite"
    by (simp add: draftCommit_def draftReceipt_def writeReceipt_def)
  then show thesis using that [OF d c] commit_Inr(3) [OF c] by (simp add: result_simps)
qed

lemma draft_simps [simp]:
  "cm_receipt (draftCommit io decision w st d) = draftReceipt io decision w st d"
  "cm_before (draftCommit io decision w st d) = map_option ex_content (df_existing d)"
  "cm_after (draftCommit io decision w st d) = Some (df_text d)"
  "cr_kind (draftReceipt io decision w st d) = WriteReceipt" "cr_page_path (draftReceipt io decision w st d) = df_path d"
  by (simp_all add: draftCommit_def draftReceipt_def writeReceipt_def)

lemma write_facts:
  assumes "applyCanonWrite io db given decision w st = Inr (db', r)" "wfCanon db"
  shows "wfCanon db'" "historyKept db db'" "filesKept (hash_bytes io) db db'"
    "map frozen (canon_receipts db') = map frozen (canon_receipts db) @ [r]"
proof -
  obtain d admission where d: "draftWrite io db given decision st = Inr d" "r = draftReceipt io decision w st d"
    "commitCanonWrite io db (draftCommit io decision w st d) admission = Inr db'"
    "admitWrite io db (df_claims d) (df_primary d) (df_path d) (df_page_id d) (df_existing d)
       (df_sources d) (df_prepared d) = Inr ()"
    by (rule write_commit [OF assms(1)])
  have kind: "cr_kind (cm_receipt (draftCommit io decision w st d)) \<noteq> PurgeRewrite" by simp
  note keeps = commit_keeps [OF d(3) kind assms(2)]
  show "wfCanon db'" "historyKept db db'" "map frozen (canon_receipts db') = map frozen (canon_receipts db) @ [r]"
    using keeps by (simp_all add: d(2))
  note read = readPage_Inr [OF draft_existing [OF d(1)]]
  show "filesKept (hash_bytes io) db db'"
  proof (rule commit_files [OF d(3) kind assms(2)])
    fix t assume "cm_before (draftCommit io decision w st d) = Some t"
    then obtain e where e: "df_existing d = Some e" "t = ex_content e" by auto
    then have "revisionBasis io db (df_path d) (ex_hash e) \<noteq> None"
      using d(4) by (auto simp: admitWrite_def result_simps)
    then show "recorded (hash_bytes io) db (cr_page_path (cm_receipt (draftCommit io decision w st d))) t"
      using basis_recorded e read by (fastforce simp: recorded_def)
  qed (use read in simp)
qed

lemma revert_simps [simp]:
  "cm_receipt (revertCommit io db r restored stamp) =
     revertReceipt io db r (vault db (cr_page_path r)) (map_option snd restored) stamp"
  "cm_before (revertCommit io db r restored stamp) = vault db (cr_page_path r)"
  "cm_after (revertCommit io db r restored stamp) = map_option snd restored"
  "cr_kind (revertReceipt io db r prior text stamp) = RevertReceipt"
  "cr_page_path (revertReceipt io db r prior text stamp) = cr_page_path r"
  by (simp_all add: revertCommit_def revertReceipt_def Let_def)

lemma undo_facts:
  assumes "applyUndo io db r metered stamp = Inr (db', s)" "wfCanon db" "r \<in> set (canon_receipts db)"
    and "currentHash io db (cr_page_path r) = cr_after_hash r"
  shows "wfCanon db'" "historyKept db db'" "filesKept (hash_bytes io) db db'"
proof -
  obtain restored admission where c: "commitCanonWrite io db (revertCommit io db r restored stamp) admission = Inr db'"
    using assms(1) by (auto simp: applyUndo_def Let_def result_simps)
  have kind: "cr_kind (cm_receipt (revertCommit io db r restored stamp)) \<noteq> PurgeRewrite" by simp
  show "wfCanon db'" "historyKept db db'" using commit_keeps [OF c kind assms(2)] by simp_all
  show "filesKept (hash_bytes io) db db'"
  proof (rule commit_files [OF c kind assms(2)])
    fix t assume "cm_before (revertCommit io db r restored stamp) = Some t"
    then show "recorded (hash_bytes io) db (cr_page_path (cm_receipt (revertCommit io db r restored stamp))) t"
      using assms(3,4) by (auto simp: recorded_def currentHash_def imageHash_def)
  qed simp
qed

lemma admitUndo_member: "admitUndo io db i = Inr r \<Longrightarrow> r \<in> set (canon_receipts db) \<and> cr_receipt_id r = i"
  by (auto simp: admitUndo_def result_simps split: option.splits dest: getCanonReceipt_member)

lemma undoOne_facts:
  assumes "undoOne io db i metered stamp = Inr (db', s)" "wfCanon db"
  shows "wfCanon db'" "historyKept db db'" "filesKept (hash_bytes io) db db'"
proof -
  obtain r where r: "admitUndo io db i = Inr r" "currentHash io db (cr_page_path r) = cr_after_hash r"
      "applyUndo io db r metered stamp = Inr (db', s)"
    using assms(1) by (auto simp: undoOne_def result_simps)
  note facts = undo_facts [OF r(3) assms(2) _ r(2)]
  show "wfCanon db'" "historyKept db db'" "filesKept (hash_bytes io) db db'"
    using facts admitUndo_member [OF r(1)] by blast+
qed

lemma undoLater_facts:
  assumes "wfCanon db"
  shows "wfCanon (fst (undoLater io stamps n db js)) \<and> historyKept db (fst (undoLater io stamps n db js)) \<and>
    filesKept (hash_bytes io) db (fst (undoLater io stamps n db js))"
  using assms
proof (induction js arbitrary: n db)
  case (Cons j js)
  show ?case
  proof (cases "undoOne io db j False (stamps n)")
    case (Inr p)
    obtain db1 s where p: "p = (db1, s)" by (cases p)
    note one = undoOne_facts [OF Inr [unfolded p] Cons.prems]
    show ?thesis
      using Cons.IH [OF one(1), of "n + 1"] one(2,3) historyKept_trans filesKept_trans
      by (auto simp: Inr p)
  qed (simp add: Cons.prems)
qed simp

lemma undoOutcome_facts:
  assumes "wfCanon db" "\<And>db' s. m = Inr (db', s) \<Longrightarrow> wfCanon db' \<and> historyKept db db' \<and> filesKept h db db'"
  shows "wfCanon (fst (undoOutcome db m)) \<and> historyKept db (fst (undoOutcome db m)) \<and> filesKept h db (fst (undoOutcome db m))"
  using assms by (cases m) (auto simp: undoOutcome_def)

lemma undoReceipt_facts:
  assumes "wfCanon db"
  shows "wfCanon (fst (undoReceipt io db i cascade metered stamps)) \<and>
    historyKept db (fst (undoReceipt io db i cascade metered stamps)) \<and>
    filesKept (hash_bytes io) db (fst (undoReceipt io db i cascade metered stamps))"
proof (cases "admitUndo io db i")
  case (Inr r)
  note r = admitUndo_member [OF Inr]
  show ?thesis
  proof (cases "currentHash io db (cr_page_path r) = cr_after_hash r")
    case True
    have "wfCanon (fst (undoOutcome db (applyUndo io db r metered (stamps 0)))) \<and>
        historyKept db (fst (undoOutcome db (applyUndo io db r metered (stamps 0)))) \<and>
        filesKept (hash_bytes io) db (fst (undoOutcome db (applyUndo io db r metered (stamps 0))))"
      using undo_facts [OF _ assms _ True] r by (intro undoOutcome_facts [OF assms]) blast
    then show ?thesis using True by (simp add: undoReceipt_def Inr Let_def)
  next
    case False
    let ?later = "laterIds db r"
    obtain d e where d: "undoLater io stamps 0 db ?later = (d, e)" by fastforce
    have later: "wfCanon d" "historyKept db d" "filesKept (hash_bytes io) db d"
      using undoLater_facts [OF assms, of io stamps 0 ?later] by (simp_all add: d)
    have final: "wfCanon (fst (undoOutcome d (undoOne io d i False (stamps (length ?later))))) \<and>
        historyKept d (fst (undoOutcome d (undoOne io d i False (stamps (length ?later))))) \<and>
        filesKept (hash_bytes io) d (fst (undoOutcome d (undoOne io d i False (stamps (length ?later)))))"
      using undoOne_facts [OF _ later(1)] by (intro undoOutcome_facts [OF later(1)]) blast
    show ?thesis
      using False assms later final historyKept_trans [OF later(2)] filesKept_trans [OF later(3)]
      by (auto simp: undoReceipt_def Inr Let_def d split: option.splits)
  qed
qed (simp add: undoReceipt_def assms)

section \<open>The machine\<close>

datatype CanonOp =
    CanonWriteOp CanonIo "Claim list" TargetDecision Writer Stamps
  | CanonUndoOp CanonIo string bool bool "nat \<Rightarrow> string \<times> string"
  | RebuildIndexOp CanonIo VaultReport
  | ClaimTablesOp StoreOp
  | OwnerFileOp string "string option"

text \<open>One hash function serves every operation.  An operation that throws leaves the canon as it
  was, but for the undos of a cascade that were committed.\<close>

fun canonStep :: "(string \<Rightarrow> string) \<Rightarrow> CanonDb \<Rightarrow> CanonOp \<Rightarrow> CanonDb" where
  "canonStep h db (CanonWriteOp io cs decision w st) =
     (case applyCanonWrite (io\<lparr>hash_bytes := h\<rparr>) db cs decision w st of Inl e \<Rightarrow> db | Inr (db', r) \<Rightarrow> db')"
| "canonStep h db (CanonUndoOp io i cascade metered stamps) =
     fst (undoReceipt (io\<lparr>hash_bytes := h\<rparr>) db i cascade metered stamps)"
| "canonStep h db (RebuildIndexOp io report) =
     (case rebuildPageIndex (io\<lparr>hash_bytes := h\<rparr>) db report of Inl e \<Rightarrow> db | Inr (db', n, skipped) \<Rightarrow> db')"
| "canonStep h db (ClaimTablesOp step) = db\<lparr>tables := storeStep (tables db) step\<rparr>"
| "canonStep h db (OwnerFileOp path text) = putFile path text db"

fun byWriter :: "CanonOp \<Rightarrow> bool" where
  "byWriter (OwnerFileOp path text) \<longleftrightarrow> False"
| "byWriter step \<longleftrightarrow> True"

lemma wfCanon_frame:
  assumes "wfCanon db" "canon_receipts db' = canon_receipts db" "receipt_log db' = receipt_log db"
    and "wfIndex db'" "wfStore (tables db')"
  shows "wfCanon db'"
  using assms by (simp add: wfCanon_def)

lemma wfIndex_same: "wfIndex db \<Longrightarrow> page_index db' = page_index db \<Longrightarrow> canon_receipts db' = canon_receipts db \<Longrightarrow> wfIndex db'"
  by (rule wfIndex_grows [of db]) (auto simp: getCanonReceipt_def)

text \<open>What a step keeps; the files only when it is not the owner's.\<close>

lemma canonStep_keeps:
  assumes "wfCanon db"
  shows "wfCanon (canonStep h db step) \<and> historyKept db (canonStep h db step) \<and>
    (byWriter step \<longrightarrow> filesKept h db (canonStep h db step))"
proof (cases step)
  case (CanonWriteOp io cs decision w st)
  show ?thesis
  proof (cases "applyCanonWrite (io\<lparr>hash_bytes := h\<rparr>) db cs decision w st")
    case (Inr p)
    obtain db' r where "p = (db', r)" by (cases p)
    then show ?thesis using write_facts [OF _ assms, of "io\<lparr>hash_bytes := h\<rparr>"] Inr by (simp add: CanonWriteOp)
  qed (simp add: CanonWriteOp assms)
next
  case (CanonUndoOp io i cascade metered stamps)
  then show ?thesis using undoReceipt_facts [OF assms, of "io\<lparr>hash_bytes := h\<rparr>"] by simp
next
  case (RebuildIndexOp io report)
  show ?thesis
  proof (cases "rebuildPageIndex (io\<lparr>hash_bytes := h\<rparr>) db report")
    case (Inr p)
    obtain db' n skipped where p: "p = (db', n, skipped)" by (cases p)
    note rebuilt = Inr [unfolded p]
    have same: "wfIndex db'" "canon_receipts db' = canon_receipts db"
      using rebuild_wf [OF rebuilt] assms by (simp_all add: wfCanon_def)
    note frame = rebuild_frame [OF rebuilt]
    have "wfCanon db'"
      by (rule wfCanon_frame [OF assms same(2) frame(3) same(1)]) (use assms in \<open>simp add: frame(1) wfCanon_def\<close>)
    moreover have "filesKept h db db'" by (rule filesKept_same [OF frame(2) same(2)])
    ultimately show ?thesis using historyKept_same [OF same(2)] by (simp add: RebuildIndexOp Inr p)
  qed (simp add: RebuildIndexOp assms)
next
  case (ClaimTablesOp sop)
  let ?db' = "db\<lparr>tables := storeStep (tables db) sop\<rparr>"
  have "wfStore (tables db)" "wfIndex db" using assms unfolding wfCanon_def by blast+
  then have "wfStore (tables ?db')" "wfIndex ?db'"
    using claim_store.inv_step wfIndex_same [of db ?db'] by simp_all
  then have "wfCanon ?db'" by (intro wfCanon_frame [OF assms]) simp_all
  moreover have "historyKept db ?db'" "filesKept h db ?db'"
    by (simp_all add: historyKept_same filesKept_same)
  ultimately show ?thesis unfolding ClaimTablesOp canonStep.simps by blast
next
  case (OwnerFileOp path t)
  let ?db' = "putFile path t db"
  have same: "canon_receipts ?db' = canon_receipts db" "receipt_log ?db' = receipt_log db" "page_index ?db' = page_index db"
      "tables ?db' = tables db"
    by (simp_all add: putFile_def)
  have "wfStore (tables db)" "wfIndex db" using assms unfolding wfCanon_def by blast+
  then have "wfCanon ?db'"
    using wfIndex_same [OF _ same(3,1)] same(4) by (intro wfCanon_frame [OF assms same(1,2)]) auto
  then show ?thesis using historyKept_same [OF same(1)] by (simp add: OwnerFileOp)
qed

interpretation canon_rows: machine "canonStep h" every wfCanon historyKept for h
  by unfold_locales (use canonStep_keeps historyKept_trans in auto)

interpretation canon_files: machine "canonStep h" byWriter wfCanon "filesKept h" for h
  by unfold_locales (use canonStep_keeps filesKept_trans in auto)

lemma history_lookup:
  assumes "historyKept db db'" "r \<in> set (canon_receipts db)" "distinct (map cr_receipt_id (canon_receipts db'))"
  shows "\<exists>r'. getCanonReceipt db' (cr_receipt_id r) = Some r' \<and> aged r r'"
proof -
  obtain rows added where rows: "canon_receipts db' = rows @ added" "list_all2 aged (canon_receipts db) rows"
    using assms(1) by (auto simp: historyKept_def)
  then obtain r' where r': "r' \<in> set rows" "aged r r'" using assms(2) by (metis in_set_conv_nth list_all2_conv_all_nth)
  then have "r' \<in> set (canon_receipts db')" by (simp add: rows(1))
  then show ?thesis using getCanonReceipt_known [OF assms(3)] aged_id [OF r'(2)] r'(2) by metis
qed

section \<open>Properties\<close>

text \<open>C4: whatever sequence of writes, undos, rebuilds of the index, changes of the claim tables
  and edits by the owner runs, the canon stays consistent - receipts have distinct
  identities, the log holds each receipt as it was written, the index agrees with the
  receipts, an undo and what it undid name each other, the claim tables are coherent - and
  no receipt is lost or changed, but that one not yet reverted may be reverted once.\<close>

theorem canon_stays_consistent:
  assumes "wfCanon db"
  shows "wfCanon (foldl (canonStep h) db ops) \<and>
    (\<forall>r\<in>set (canon_receipts db). \<exists>r'. getCanonReceipt (foldl (canonStep h) db ops) (cr_receipt_id r) = Some r' \<and>
       frozen r' = frozen r \<and> (cr_reverted_by r \<noteq> None \<longrightarrow> r' = r))"
proof
  show wf: "wfCanon (foldl (canonStep h) db ops)" by (rule canon_rows.run_inv [OF list_all_every assms])
  have "historyKept db (foldl (canonStep h) db ops)" by (rule canon_rows.run_progress [OF list_all_every assms])
  then show "\<forall>r\<in>set (canon_receipts db). \<exists>r'. getCanonReceipt (foldl (canonStep h) db ops) (cr_receipt_id r) = Some r' \<and>
       frozen r' = frozen r \<and> (cr_reverted_by r \<noteq> None \<longrightarrow> r' = r)"
    using history_lookup wf unfolding wfCanon_def aged_def by (metis frozen_mark)
qed

text \<open>C3: nothing that is written is lost.  Whatever writes and undos run, with or without a
  cascade, each text that is in the vault stays at its path or is in the archive, and a file
  of the archive never changes.\<close>

theorem nothing_written_is_lost:
  assumes "wfCanon db" "list_all byWriter ops" "vault db p = Some t"
  shows "(vault (foldl (canonStep h) db ops) p = Some t \<or>
      (\<exists>q. startsWith q ''archive/'' \<and> vault (foldl (canonStep h) db ops) q = Some t)) \<and>
    (startsWith p ''archive/'' \<longrightarrow> vault (foldl (canonStep h) db ops) p = Some t)"
  using canon_files.run_progress [OF assms(2,1), of h] assms(3) unfolding filesKept_def by blast

text \<open>C5: the writer never replaces bytes it did not write.  A file whose hash no receipt of its
  path names - a page the owner edited or made by hand - is the same after any writes and
  undos.\<close>

theorem hand_edits_survive:
  assumes "wfCanon db" "list_all byWriter ops" "vault db p = Some t"
    and "\<And>r. r \<in> set (canon_receipts db) \<Longrightarrow> cr_page_path r = p \<Longrightarrow> cr_after_hash r \<noteq> h t"
  shows "vault (foldl (canonStep h) db ops) p = Some t"
  using canon_files.run_progress [OF assms(2,1), of h] assms(3,4) unfolding filesKept_def recorded_def by blast

section \<open>A small canon\<close>

text \<open>The hash of the demonstration keeps the last 64 characters that are hexadecimal digits.\<close>

definition canonHash :: "string \<Rightarrow> string" where
  "canonHash s =
     (let t = drop (length s - 64) s
      in map (\<lambda>c. if c \<in> set ''0123456789abcdef'' then c else CHR ''0'') t @ replicate (64 - length t) (CHR ''0''))"

definition canonIo :: CanonIo where
  "canonIo =
     \<lparr>hash_bytes = canonHash, date_parse = (\<lambda>s. Some (int (length s))), owned = True, find_page = (\<lambda>files i. None),
      retrieval_store = None, derive_allowed = (\<lambda>ids. True), source_floor = (\<lambda>i. None),
      capacity = (\<lambda>live n size. None), chargeable = (\<lambda>r. True), projection_pending = (\<lambda>p. False),
      tombstone_bound = (\<lambda>c. False), tombstone_current = (\<lambda>c. False)\<rparr>"

definition canonText :: string where
  "canonText = join_with [NEWLINE] [''---'', ''id: \"p1\"'', ''title: \"ada\"'', ''type: \"person\"'',
     ''status: \"active\"'', ''sensitivity: \"private\"'', ''taint: \"clean\"'', ''sources: [\"e1\"]'',
     ''x-subject-id: \"person:ada\"'', ''---'', ''Ada is an engineer.'', []]"

definition canonReceipt :: CanonReceipt where
  "canonReceipt =
     \<lparr>cr_receipt_id = ''01ARZ3NDEKTSV4RRFFQ69G5FA1'', cr_kind = WriteReceipt, cr_claim_ids = [''c1''],
      cr_page_path = ''people/ada.md'', cr_page_action = CreatePage, cr_before_hash = None,
      cr_after_hash = canonHash canonText, cr_archive_path = None, cr_writer = LoopWriter,
      cr_producer = Deterministic, cr_model_ref = None, cr_authority = ModelInference, cr_confidence = 1 / 2,
      cr_sensitivity = Private, cr_taint = CleanTaint, cr_provenance = [''e1''], cr_superseded = [],
      cr_candidates = [], cr_retrieval_ops = [], cr_reverts = None, cr_reverted_by = None,
      cr_at = ''2026-01-02T00:00:00Z''\<rparr>"

definition canonDemo :: CanonDb where
  "canonDemo =
     \<lparr>tables = demoFiled, canon_receipts = [canonReceipt],
      page_index = [\<lparr>pi_page_id = ''p1'', pi_rel_path = ''people/ada.md'', pi_subject_key = Some ''person:ada'',
        pi_last_receipt = Some ''01ARZ3NDEKTSV4RRFFQ69G5FA1'', pi_last_hash = canonHash canonText\<rparr>],
      claim_bindings = [], graph_pages = None, receipt_log = [canonReceipt],
      vault = [''people/ada.md'' \<mapsto> canonText]\<rparr>"

definition canonEdited :: CanonDb where
  "canonEdited = canonDemo\<lparr>vault := [''people/ada.md'' \<mapsto> canonText @ ''She paints, too.'']\<rparr>"

definition canonOps :: "CanonOp list" where
  "canonOps =
     [CanonUndoOp canonIo ''01ARZ3NDEKTSV4RRFFQ69G5FA1'' True False (\<lambda>n. (''01ARZ3NDEKTSV4RRFFQ69G5FA2'', ''2026-01-03T00:00:00Z'')),
      CanonWriteOp canonIo (claims demoFiled) (EditAt ''p1'' ''people/ada.md'' BoundPage) LoopWriter
        \<lparr>st_page = ''01ARZ3NDEKTSV4RRFFQ69G5FA3'', st_receipt = ''01ARZ3NDEKTSV4RRFFQ69G5FA4'', st_now = ''2026-01-04T00:00:00Z''\<rparr>]"

lemma canonDemo_wf: "wfCanon canonDemo"
proof -
  have "wfIndex canonDemo"
    by (simp add: wfIndex_def inspectPageIndex_def inspectEntry_def getCanonReceipt_def canonDemo_def canonReceipt_def)
  moreover have "linked (canon_receipts canonDemo)" by (simp add: linked_def canonDemo_def canonReceipt_def)
  ultimately show ?thesis
    using demoFiled_wf by (simp add: wfCanon_def canonDemo_def frozen_def canonReceipt_def)
qed

lemma canonEdited_wf: "wfCanon canonEdited"
  using canonDemo_wf wfIndex_same [of canonDemo canonEdited] by (simp add: wfCanon_def canonEdited_def)

lemma canonOps_byWriter: "list_all byWriter canonOps"
  by (simp add: canonOps_def)

theorem canon_stays_consistent_witness:
  "wfCanon (foldl (canonStep canonHash) canonDemo (OwnerFileOp ''people/ada.md'' None # canonOps)) \<and>
   getCanonReceipt (foldl (canonStep canonHash) canonDemo (OwnerFileOp ''people/ada.md'' None # canonOps))
     ''01ARZ3NDEKTSV4RRFFQ69G5FA1'' \<noteq> None"
proof -
  have "canonReceipt \<in> set (canon_receipts canonDemo)" "cr_receipt_id canonReceipt = ''01ARZ3NDEKTSV4RRFFQ69G5FA1''"
    by (simp_all add: canonDemo_def canonReceipt_def)
  then show ?thesis
    using canon_stays_consistent [OF canonDemo_wf, of canonHash "OwnerFileOp ''people/ada.md'' None # canonOps"]
    by fastforce
qed

theorem nothing_written_is_lost_witness:
  "vault (foldl (canonStep canonHash) canonDemo canonOps) ''people/ada.md'' = Some canonText \<or>
   (\<exists>q. startsWith q ''archive/'' \<and> vault (foldl (canonStep canonHash) canonDemo canonOps) q = Some canonText)"
  using nothing_written_is_lost [OF canonDemo_wf canonOps_byWriter, of "''people/ada.md''" canonText canonHash]
  by (simp add: canonDemo_def)

theorem hand_edits_survive_witness:
  "vault (foldl (canonStep canonHash) canonEdited canonOps) ''people/ada.md'' = Some (canonText @ ''She paints, too.'')"
proof (rule hand_edits_survive [OF canonEdited_wf canonOps_byWriter])
  have "canonHash canonText \<noteq> canonHash (canonText @ ''She paints, too.'')" by code_simp
  then show "cr_after_hash r \<noteq> canonHash (canonText @ ''She paints, too.'')" if "r \<in> set (canon_receipts canonEdited)" for r
    using that by (simp add: canonEdited_def canonDemo_def canonReceipt_def)
qed (simp add: canonEdited_def)

text \<open>The decisions of \<open>Arbiter\<close> on this canon.\<close>

definition canonEdit :: Claim where
  "canonEdit = (hd (claims demoFiled))\<lparr>claim_id := ''c9'', kind := EditKind, target := Some ''p1''\<rparr>"

lemma canonEdit_target: "resolveTarget canonIo canonDemo canonEdit = Inr (EditAt ''p1'' ''people/ada.md'' ExplicitPage)"
  by code_simp

lemma canonEdit_skipped: "resolveTarget canonIo canonEdited canonEdit = Inr (SkipWrite OwnerEditedBody)"
  by code_simp



end
