(* ===== verification/Spec2Isabelle.thy ===== *)
theory Spec2Isabelle
  imports Sensitivity Authorization Ulid Lease Conflict Claim_Authority Page_Path Budget
    Reflex_Engine Uid_Set Csv Page_Schema Ics Claim_Lifecycle Canon_Lifecycle
begin

text \<open>
  A verification development for Kizuki, a local memory for agents.

  The program.  Connectors read sources (mail, calendars, notes, exports) and hand captured
  events to a ledger in SQLite.  Extraction turns events into \<^emph>\<open>claims\<close>: statements
  with a subject, a period, a producer, an authority tier, a sensitivity label and the
  events they rest on.  The claim store decides what a new claim replays, confirms,
  contradicts or ends.  A single writer turns live claims into Markdown pages, each write
  under a lease and a daily budget and recorded by a receipt that can undo it.  Agents are
  served what their grant allows.  A separate package, reflex, analyses which judgments a
  change of one artifact puts in doubt.

  Conventions.  Every definition is a function of the code, under the code's name where
  HOL leaves it free.  A record or tagged union of the code is a \<open>record\<close> or a
  \<open>datatype\<close>; \<open>null\<close> and \<open>undefined\<close> are \<open>None\<close> unless the code tells
  them apart, in which case the value has type \<open>js\<close> (\<open>Js_Value\<close>), as everything
  a validator is handed.  Text is a list of characters.  A thrown error is \<open>Inl\<close> of an
  error type of the component, and because every multi-step operation of the code runs in
  one transaction, an \<open>Inl\<close> carries no state; a cascade of undos is a sequence of
  transactions, and its outcome carries the state with the error.  Tables are lists of rows in insertion
  order; a query is a filter or a sort of such a list.  Clocks, random bytes, hashes of
  the runtime and answers of a model are arguments.

  The library.

  \<^item> \<open>Kizuki_Prelude\<close>: errors and their combinators (\<open>andThen\<close>, \<open>guard\<close>, \<open>foldM\<close>,
    \<open>mapM\<close>, \<open>filterM\<close>), string operations, code-unit order (\<open>core/src/util/order.ts\<close>), the fact
    collections \<open>result_simps\<close> and \<open>text_simps\<close>, and two interfaces: \<open>machine\<close>, a
    state with a step, an invariant and a preorder the steps follow, which gives every
    sequence of steps from one; and \<open>ranked_choice\<close>, a choice by rank, which gives that
    the order of arrival does not matter.
  \<^item> \<open>Js_Value\<close>, \<open>Js_Number\<close>, \<open>Json_Text\<close>: values of unknown type, the rounding of the
    language's numbers, and the text of strings and numbers: escapes, number literals and
    the shortest digits that read back as a number (\<open>numberText_reads\<close>).

  Labels, time, identity, access.

  \<^item> \<open>Sensitivity\<close> (\<open>core/src/sensitivity\<close>): policies, floors, grants and labels; the table
    is a \<open>machine\<close> whose floors never fall, and resolution is a maximum.
  \<^item> \<open>Rfc3339\<close> (\<open>core/src/util/time.ts\<close>, \<open>agents/time.ts\<close>): which timestamps are
    accepted, their canonical spelling, the instant they denote; text order is time order.
  \<^item> \<open>Ulid\<close> (\<open>core/src/util/ulid.ts\<close>): the module state as a \<open>machine\<close>; its identifiers
    increase whatever the clock and the randomness do.
  \<^item> \<open>Authorization\<close> (\<open>core/src/agents\<close>): the decision for one item, exact in both
    directions, and monotone in the grant.
  \<^item> \<open>Lease\<close> (\<open>core/src/serve/leases.ts\<close>): the lease row as a \<open>machine\<close>; a live holder's
    lease is never taken.

  Claims and pages.

  \<^item> \<open>Claim_Contract\<close> (\<open>core/src/contracts/proposal.ts\<close>): the claim type and its validator.
  \<^item> \<open>Conflict\<close> (\<open>core/src/claims/conflict.ts\<close>, \<open>predicates.ts\<close>, \<open>hash.ts\<close>): when two claims
    conflict and who wins; \<open>ranked_choice\<close> on owner corrections.
  \<^item> \<open>Claim_Authority\<close> (\<open>core/src/claims/authority.ts\<close>): the tier a draft earns.
  \<^item> \<open>Claim_Store\<close> (\<open>core/src/claims/store.ts\<close>, \<open>source-roots.ts\<close>, \<open>schema.ts\<close>): the tables
    \<open>claims\<close>, \<open>claim_supersessions\<close>, \<open>retrieval_ops\<close> and \<open>proposals\<close> as the fields of
    \<open>ClaimsDb\<close>, every read, and every operation that moves a claim through its life but
    insertion.  Its lemmas: what a purge leaves, judged row by row; what the walk over
    batches of 500 leaves is the same, and the walk ends because each batch lies behind
    the last identity seen; what a supersession journals and an undo restores.
  \<^item> \<open>Claim_Insert\<close> (\<open>core/src/claims/store.ts\<close>): \<open>insertClaim\<close> from the input to the rows,
    stage by stage: admission of evidence, the incoming claim, exact replay, structural
    twin, conflicts, filing.
  \<^item> \<open>Claim_Lifecycle\<close>: all of these as the steps of one \<open>machine\<close>, and the properties of
    the store.
  \<^item> \<open>Page_Path\<close>, \<open>Page_Candidate\<close> (\<open>core/src/canon/paths.ts\<close>, \<open>contracts/page-candidate.ts\<close>,
    the path of \<open>canon/arbiter.ts\<close>): which page paths are accepted, which file a target
    names, and that it stays in the vault.
  \<^item> \<open>Frontmatter\<close>, \<open>Page_Schema\<close> (\<open>core/src/vault/frontmatter.ts\<close>, \<open>schema.ts\<close>,
    \<open>subject-type.ts\<close>): a page as text, its reader and its writer, and which frontmatter is
    valid; a valid page survives its text, and the text of a page that was read is stable.
  \<^item> \<open>Budget\<close> (\<open>core/src/canon/budget.ts\<close>, \<open>serve/budget-ledger.ts\<close>): charges,
    reservations and settlements of the daily write budget, a \<open>machine\<close> per limit.

  Canon: the pages and the receipts that record every change of them.

  \<^item> \<open>Canon_Store\<close> (\<open>core/src/canon/store.ts\<close>, \<open>receipts.ts\<close>, \<open>audit.ts\<close>): the state \<open>CanonDb\<close>
    (claim tables, receipts, page index, bindings, the receipt log and the vault, a map from
    paths to texts), what the environment answers (\<open>CanonIo\<close>: hash, dates, source grants,
    capacity, budget), reading a page, the queries of receipts, the page index and its
    rebuilding, the audit list.  Its lemmas: the index agrees with the receipts after every
    operation and after a rebuild.
  \<^item> \<open>Arbiter\<close> (\<open>canon/arbiter.ts\<close>, \<open>origin.ts\<close>): the page a claim goes to, rule by rule; every
    decision names a page that is on disk, and prose the owner edited is never a target.
  \<^item> \<open>Canon_Authority\<close> (\<open>canon/authority.ts\<close>): whether a receipt recorded the bytes of a page
    and with which authority, followed through undos and purge rewrites.  The chain has at
    most 128 receipts, which is also the measure of the recursion.
  \<^item> \<open>Canon_Commit\<close> (\<open>canon/recovery.ts\<close>, \<open>write-intent.ts\<close>, \<open>receipt-validation.ts\<close>,
    \<open>vault/write.ts\<close>): the checks of an intent, the archive and the page, the rows.  One
    commit is one step: a crash between the bytes and the rows is not modelled.
  \<^item> \<open>Canon_Write\<close> (\<open>canon/apply.ts\<close>): from claims and a decision to the new page and its
    receipt, in three parts: the draft, its admission, the commit.
  \<^item> \<open>Canon_Undo\<close> (\<open>canon/undo.ts\<close>): the undo of a receipt, alone or with the later ones.
  \<^item> \<open>Canon_Lifecycle\<close>: writes, undos, index rebuilds, all operations of the claim store and
    the owner's edits as the steps of one \<open>machine\<close>.  It is interpreted twice: over all steps
    with the history of receipts as the preorder, and over the steps of the writer with the
    preorder that keeps every text at its path or in the archive.

  Reflex.

  \<^item> \<open>Reflex_Input\<close>, \<open>Reflex_Judgment\<close>, \<open>Reflex_Graph\<close>, \<open>Reflex_Impact\<close>, \<open>Reflex_Engine\<close>
    (\<open>reflex/src\<close>): validation of the snapshot, the reading of a model's answer, the
    breadth-first traversal (exact, shortest, on every graph), impacts and traces, and the
    concurrent engine as a \<open>machine\<close> over the interleavings of its workers, under its
    budget of requests, bytes and requests in flight.

  Connectors.

  \<^item> \<open>Uid_Set\<close> (\<open>connector-imap/src/uidset.ts\<close>): range lists refine sets of message numbers.
  \<^item> \<open>Csv\<close> (\<open>connectors/src/import-pocket/csv.ts\<close>): the bounded table reader and its round trip.
  \<^item> \<open>Ics\<close> (\<open>connector-ics/src/unfold.ts\<close>, \<open>parse.ts\<close>): unfolding and the component parser.

  Loops.  Recursion over lists is structural.  The remaining loops have measures: the purge
  walk the identities behind the cursor, the traversal the nodes not yet reached, the
  authority of a page the receipts still allowed, the parsers the text left.  One search has a bound of steps: the shortest digits of a number are
  looked for in at most \<open>magnitude x + 1100\<close> steps, which is enough because every number of
  the language is a multiple of \<open>2 ^ -1074\<close>.

  Not modelled.  In the claim store: typed world claims, corrections of whole source pages,
  deletion controls and historical replay, which consult the world and source tables; the
  publication of the retrieval queue, which calls a port; the answers of source grants and
  reader's views are functions the insertion is given.  In the canon: pages of typed world
  claims and their receipts, purge rewrites and the erasure of sources (a purge rewrite is in
  the data, and the checks that concern it are modelled), the journal that finishes a write
  after a crash, the projections to the retrieval store, page classes and the registry of
  machine-written bodies, and the file protocol below the writer: a file is its text, written
  at once.  Elsewhere: the migrations, the ledger's erasure, export, the daemon's scheduling,
  connectors' transport and the presentation layers, which are input and output or
  orchestration of it.
\<close>

end
